(* ===== verification/Prelude.thy ===== *)
theory Prelude
  imports Main "HOL-Library.Word" "HOL-Library.AList" "HOL-Library.Sublist"
    "HOL-Library.List_Lexorder" "HOL-Library.Multiset"
begin

section \<open>The Go fragment the components share\<close>

text \<open>
  What the Go language and its standard library give the program, as executable functions:
  the outcome of a call (a value, an error return, a run-time panic, or termination through
  \<^verbatim>\<open>log.Fatalf\<close>), bytes and fixed-width integers, \<^verbatim>\<open>encoding/hex\<close>,
  \<^verbatim>\<open>encoding/binary\<close> (big endian), \<^verbatim>\<open>strconv\<close> decimals,
  \<^verbatim>\<open>strings.Split\<close>, and Go maps as association lists with distinct keys.
  Strings are lists of bytes read as characters; byte strings used as map keys are byte lists.
\<close>

unbundle bit_operations_syntax

named_theorems go_simps \<open>unfolding rules of the Go fragment\<close>
named_theorems codec_simps \<open>decode-after-encode rules\<close>

subsection \<open>Types\<close>

type_synonym byte = "8 word"
type_synonym bytes = "byte list"
type_synonym u16 = "16 word"
type_synonym u32 = "32 word"
type_synonym u64 = "64 word"

text \<open>
  The outcome of a Go call with an error type \<open>'e\<close>: \<open>Ok\<close> and \<open>Err\<close> are the two shapes
  of a \<^verbatim>\<open>(value, error)\<close> return, \<open>Panic\<close> is a run-time panic (an index out of range,
  a nil pointer), \<open>Fatal\<close> is \<^verbatim>\<open>log.Fatalf\<close>, which terminates the process
  (unless it is exiting already: the theory \<open>Shutdown\<close> has that case).
\<close>

datatype ('e, 'a) outcome = Ok 'a | Err 'e | Panic string | Fatal string

fun andThen :: "('e, 'a) outcome \<Rightarrow> ('a \<Rightarrow> ('e, 'b) outcome) \<Rightarrow> ('e, 'b) outcome" where
  "andThen (Ok x) f = f x"
| "andThen (Err e) f = Err e"
| "andThen (Panic p) f = Panic p"
| "andThen (Fatal m) f = Fatal m"

fun mapErr :: "('e \<Rightarrow> 'f) \<Rightarrow> ('e, 'a) outcome \<Rightarrow> ('f, 'a) outcome" where
  "mapErr w (Ok x) = Ok x"
| "mapErr w (Err e) = Err (w e)"
| "mapErr w (Panic p) = Panic p"
| "mapErr w (Fatal m) = Fatal m"

fun isOk :: "('e, 'a) outcome \<Rightarrow> bool" where
  "isOk (Ok x) = True"
| "isOk _ = False"

lemma andThen_Ok_iff [simp]: "andThen m f = Ok y \<longleftrightarrow> (\<exists>x. m = Ok x \<and> f x = Ok y)"
  by (cases m) auto

lemma andThen_Ok_rev [simp]: "Ok y = andThen m f \<longleftrightarrow> (\<exists>x. m = Ok x \<and> f x = Ok y)"
  by (cases m) auto

lemma mapErr_Ok_iff [simp]: "mapErr w m = Ok y \<longleftrightarrow> m = Ok y"
  by (cases m) auto

lemma andThen_assoc: "andThen (andThen m f) g = andThen m (\<lambda>x. andThen (f x) g)"
  by (cases m) auto

subsection \<open>Indexing and copying of slices\<close>

definition elemAt :: "'a list \<Rightarrow> nat \<Rightarrow> ('e, 'a) outcome" where
  "elemAt xs i = (if i < length xs then Ok (xs ! i) else Panic ''index out of range'')"

definition subslice :: "'a list \<Rightarrow> nat \<Rightarrow> nat \<Rightarrow> ('e, 'a list) outcome" where
  "subslice xs i j =
     (if i \<le> j \<and> j \<le> length xs then Ok (take (j - i) (drop i xs))
      else Panic ''slice bounds out of range'')"

text \<open>\<^verbatim>\<open>copy\<close> of a byte slice into a zeroed array of \<open>n\<close> bytes.\<close>

definition pad :: "nat \<Rightarrow> bytes \<Rightarrow> bytes" where
  "pad n bs = take n (bs @ replicate n 0)"

lemma length_pad [simp]: "length (pad n bs) = n"
  by (simp add: pad_def)

lemma pad_id [simp]: "length bs = n \<Longrightarrow> pad n bs = bs"
  by (simp add: pad_def)

lemma elemAt_Ok [simp]: "i < length xs \<Longrightarrow> elemAt xs i = Ok (xs ! i)"
  by (simp add: elemAt_def)

lemma subslice_Ok [simp]:
  "i \<le> j \<Longrightarrow> j \<le> length xs \<Longrightarrow> subslice xs i j = Ok (take (j - i) (drop i xs))"
  by (simp add: subslice_def)

subsection \<open>Go maps\<close>

text \<open>
  A Go map is an association list with distinct keys. A read of a missing key gives the zero
  value of the element type, which the caller passes in. The order in which \<^verbatim>\<open>range\<close>
  walks a map is unspecified: the definitions that range over a map take the order as a
  function, and \<open>range_order\<close> is all that the language promises of it.
\<close>

type_synonym ('k, 'v) gomap = "('k \<times> 'v) list"

definition mget :: "'v \<Rightarrow> ('k, 'v) gomap \<Rightarrow> 'k \<Rightarrow> 'v" where
  "mget zero m k = (case map_of m k of None \<Rightarrow> zero | Some v \<Rightarrow> v)"

abbreviation mhas :: "('k, 'v) gomap \<Rightarrow> 'k \<Rightarrow> bool" where
  "mhas m k \<equiv> map_of m k \<noteq> None"

abbreviation mput :: "('k, 'v) gomap \<Rightarrow> 'k \<Rightarrow> 'v \<Rightarrow> ('k, 'v) gomap" where
  "mput m k v \<equiv> AList.update k v m"

definition range_order :: "(('k \<times> 'v) list \<Rightarrow> ('k \<times> 'v) list) \<Rightarrow> bool" where
  "range_order ord \<longleftrightarrow> (\<forall>m. mset (ord m) = mset m)"

lemma mget_update: "mget z (AList.update k v m) k' = (if k' = k then v else mget z m k')"
  by (simp add: mget_def update_conv')

lemma mget_Nil [simp]: "mget z [] k = z"
  by (simp add: mget_def)

lemma mget_eqI: "map_of m k = Some v \<Longrightarrow> mget z m k = v"
  by (simp add: mget_def)

definition mkeys :: "('k, 'v) gomap \<Rightarrow> 'k set" where
  "mkeys m = fst ` set m"

lemma mkeys_Nil [simp]: "mkeys [] = {}"
  by (simp add: mkeys_def)

lemma mkeys_update [simp]: "mkeys (AList.update k v m) = insert k (mkeys m)"
  by (simp add: mkeys_def dom_update)

lemma map_of_None_mkeys: "map_of m k = None \<longleftrightarrow> k \<notin> mkeys m"
  by (simp add: mkeys_def map_of_eq_None_iff)

lemma mget_no_key: "k \<notin> mkeys m \<Longrightarrow> mget z m k = z"
  by (simp add: mget_def map_of_None_mkeys [symmetric])

lemma range_order_set: "range_order ord \<Longrightarrow> set (ord m) = set m"
  by (metis range_order_def set_mset_mset)

lemma range_order_length: "range_order ord \<Longrightarrow> length (ord m) = length m"
  by (metis range_order_def size_mset)

lemma range_order_distinct:
  assumes "range_order ord" and "distinct (map fst m)"
  shows "distinct (map fst (ord m))"
proof -
  have "mset (map fst (ord m)) = mset (map fst m)"
    using assms(1) by (simp add: range_order_def)
  then show ?thesis using assms(2) by (metis mset_eq_imp_distinct_iff)
qed

lemma range_order_map_of:
  assumes "range_order ord" and "distinct (map fst m)"
  shows "map_of (ord m) = map_of m"
proof
  fix k
  show "map_of (ord m) k = map_of m k"
    using assms range_order_distinct [OF assms] range_order_set [OF assms(1), of m]
    by (metis map_of_eq_Some_iff not_None_eq)
qed

lemma range_order_mkeys: "range_order ord \<Longrightarrow> mkeys (ord m) = mkeys m"
  by (simp add: mkeys_def range_order_set)

lemma range_order_id [simp]: "range_order (\<lambda>m. m)"
  by (simp add: range_order_def)

subsection \<open>Big-endian integers\<close>

text \<open>
  \<open>be_bytes n v\<close> is the value \<open>v\<close> in \<open>n\<close> big-endian bytes and \<open>be_nat\<close> reads it back;
  \<open>putU64\<close> and \<open>getU64\<close> are \<^verbatim>\<open>binary.BigEndian.PutUint64\<close> and \<^verbatim>\<open>Uint64\<close>,
  which panics on fewer than eight bytes and ignores the bytes after the eighth.
\<close>

fun be_bytes :: "nat \<Rightarrow> nat \<Rightarrow> bytes" where
  "be_bytes 0 v = []"
| "be_bytes (Suc n) v = of_nat (v div 256 ^ n mod 256) # be_bytes n v"

fun be_nat :: "bytes \<Rightarrow> nat" where
  "be_nat [] = 0"
| "be_nat (b # bs) = unat b * 256 ^ length bs + be_nat bs"

definition putU64 :: "u64 \<Rightarrow> bytes" where
  "putU64 w = be_bytes 8 (unat w)"

definition getU64 :: "bytes \<Rightarrow> ('e, u64) outcome" where
  "getU64 bs = (if length bs < 8 then Panic ''index out of range'' else Ok (of_nat (be_nat (take 8 bs))))"

lemma length_be_bytes [simp]: "length (be_bytes n v) = n"
  by (induction n) auto

lemma length_putU64 [simp]: "length (putU64 w) = 8"
  by (simp add: putU64_def)

lemma unat_byte_lt: "unat (b :: byte) < 256"
  using unsigned_less [of b, where 'a = nat] by simp

lemma unat_of_nat_byte [simp]: "unat (of_nat n :: byte) = n mod 256"
  by (simp add: unat_of_nat)

lemma be_nat_lt: "be_nat bs < 256 ^ length bs"
proof (induction bs)
  case Nil
  then show ?case by simp
next
  case (Cons b bs)
  have "be_nat (b # bs) < unat b * 256 ^ length bs + 256 ^ length bs"
    using Cons by simp
  also have "\<dots> = (unat b + 1) * 256 ^ length bs" by simp
  also have "\<dots> \<le> 256 * 256 ^ length bs"
    using unat_byte_lt [of b] by (intro mult_le_mono1) simp
  finally show ?case by simp
qed

lemma be_nat_be_bytes: "be_nat (be_bytes n v) = v mod 256 ^ n"
proof (induction n)
  case 0
  then show ?case by simp
next
  case (Suc n)
  have "v mod (256 ^ n * 256) = 256 ^ n * (v div 256 ^ n mod 256) + v mod 256 ^ n"
    by (rule mod_mult2_eq)
  with Suc show ?case by (simp add: mult.commute)
qed

lemma be_bytes_mod: "be_bytes n (v mod 256 ^ n) = be_bytes n v"
proof (induction n arbitrary: v)
  case 0
  then show ?case by simp
next
  case (Suc n)
  have "v mod (256 ^ n * 256) = 256 ^ n * (v div 256 ^ n mod 256) + v mod 256 ^ n"
    by (rule mod_mult2_eq)
  then have "v mod (256 * 256 ^ n) div 256 ^ n = v div 256 ^ n mod 256"
    by (simp add: mult.commute)
  moreover have "be_bytes n (v mod (256 * 256 ^ n)) = be_bytes n v"
    by (metis Suc.IH dvd_triv_right mod_mod_cancel)
  ultimately show ?case by simp
qed

lemma be_bytes_be_nat: "length bs = n \<Longrightarrow> be_bytes n (be_nat bs) = bs"
proof (induction bs arbitrary: n)
  case Nil
  then show ?case by simp
next
  case (Cons b bs)
  then obtain m where n: "n = Suc m" and m: "length bs = m" by auto
  have lt: "be_nat bs < 256 ^ m" using be_nat_lt [of bs] m by simp
  have "be_bytes m (unat b * 256 ^ m + be_nat bs) = be_bytes m (be_nat bs)"
    by (metis be_bytes_mod mod_mult_self3)
  moreover have "(unat b * 256 ^ m + be_nat bs) div 256 ^ m mod 256 = unat b"
    using lt unat_byte_lt [of b] by simp
  ultimately show ?case using Cons.IH [OF m] n m by simp
qed

lemma getU64_putU64 [codec_simps, simp]: "getU64 (putU64 w @ xs) = Ok w"
proof -
  have "be_nat (be_bytes 8 (unat w)) = unat w"
    using unsigned_less [of w, where 'a = nat] by (simp add: be_nat_be_bytes)
  then show ?thesis by (simp add: getU64_def putU64_def)
qed

lemma getU64_putU64' [codec_simps, simp]: "getU64 (putU64 w) = Ok w"
  using getU64_putU64 [of w "[]"] by simp

lemma putU64_inject [simp]: "putU64 a = putU64 b \<longleftrightarrow> a = b"
  by (metis getU64_putU64' outcome.inject(1))

lemma putU64_surj: "length bs = 8 \<Longrightarrow> \<exists>w. bs = putU64 w"
proof -
  assume l: "length bs = 8"
  then have "be_nat bs < 2 ^ 64" using be_nat_lt [of bs] by simp
  then have "unat (of_nat (be_nat bs) :: u64) = be_nat bs" by (simp add: unat_of_nat)
  then have "bs = putU64 (of_nat (be_nat bs))"
    using be_bytes_be_nat [OF l] by (simp add: putU64_def)
  then show ?thesis by blast
qed

subsection \<open>Byte-wise order of keys\<close>

lemma list_less_be_nat:
  "length xs = length ys \<Longrightarrow> (xs < ys) = (be_nat xs < be_nat ys)" for xs ys :: bytes
proof (induction xs ys rule: list_induct2)
  case Nil
  then show ?case by simp
next
  case (Cons x xs y ys)
  have lx: "be_nat xs < 256 ^ length ys" and ly: "be_nat ys < 256 ^ length ys"
    using be_nat_lt [of xs] be_nat_lt [of ys] Cons.hyps by simp_all
  consider "x < y" | "x = y" | "y < x" by (meson linorder_less_linear)
  then show ?case
  proof cases
    case 1
    then have "unat x + 1 \<le> unat y" by (simp add: word_less_nat_alt)
    then have "(unat x + 1) * 256 ^ length ys \<le> unat y * 256 ^ length ys"
      by (rule mult_le_mono1)
    with lx have "be_nat (x # xs) < be_nat (y # ys)" using Cons.hyps by simp
    with 1 show ?thesis by simp
  next
    case 2
    with Cons show ?thesis by simp
  next
    case 3
    then have "unat y + 1 \<le> unat x" by (simp add: word_less_nat_alt)
    then have "(unat y + 1) * 256 ^ length ys \<le> unat x * 256 ^ length ys"
      by (rule mult_le_mono1)
    with ly have "\<not> be_nat (x # xs) < be_nat (y # ys)" using Cons.hyps by simp
    with 3 show ?thesis by auto
  qed
qed

lemma putU64_less [simp]: "putU64 a < putU64 b \<longleftrightarrow> a < b"
proof -
  have "be_nat (putU64 w) = unat w" for w
    using unsigned_less [of w, where 'a = nat] by (simp add: putU64_def be_nat_be_bytes)
  then show ?thesis by (simp add: list_less_be_nat word_less_nat_alt)
qed

lemma putU64_le [simp]: "putU64 a \<le> putU64 b \<longleftrightarrow> a \<le> b"
  using putU64_less [of b a] by (simp add: linorder_not_less [symmetric])

lemma append_less_cancel [simp]: "p @ xs < p @ ys \<longleftrightarrow> xs < ys" for xs :: "'a :: linorder list"
  by (induction p) auto

lemma append_le_cancel [simp]: "p @ xs \<le> p @ ys \<longleftrightarrow> xs \<le> ys" for xs :: "'a :: linorder list"
  by (induction p) auto

text \<open>Whatever lies between two extensions of a prefix extends that prefix.\<close>

lemma between_prefix:
  "p @ xs \<le> k \<Longrightarrow> k \<le> p @ ys \<Longrightarrow> prefix p k" for k :: "'a :: linorder list"
proof (induction p arbitrary: k)
  case Nil
  then show ?case by simp
next
  case (Cons a p)
  then obtain b k' where k: "k = b # k'"
    by (cases k) auto
  with Cons.prems have "a = b" by auto
  with Cons k show ?case by auto
qed

subsection \<open>Hexadecimal strings\<close>

text \<open>
  \<open>hexEncode\<close> is \<^verbatim>\<open>hex.EncodeToString\<close> (lower case), \<open>hexDecode\<close> is
  \<^verbatim>\<open>hex.DecodeString\<close>: an error on an odd length or on a character that is not a
  hexadecimal digit, of either case.
\<close>

definition hexDigit :: "nat \<Rightarrow> char" where
  "hexDigit n = ''0123456789abcdef'' ! n"

definition fromHexChar :: "char \<Rightarrow> nat option" where
  "fromHexChar c =
     (let n = (of_char c :: nat)
      in if 48 \<le> n \<and> n \<le> 57 then Some (n - 48)
         else if 97 \<le> n \<and> n \<le> 102 then Some (n - 87)
         else if 65 \<le> n \<and> n \<le> 70 then Some (n - 55)
         else None)"

fun hexEncode :: "bytes \<Rightarrow> string" where
  "hexEncode [] = []"
| "hexEncode (b # bs) = hexDigit (unat b div 16) # hexDigit (unat b mod 16) # hexEncode bs"

fun hexDecode :: "string \<Rightarrow> bytes option" where
  "hexDecode [] = Some []"
| "hexDecode [c] = None"
| "hexDecode (c # d # cs) =
     (case (fromHexChar c, fromHexChar d) of
        (Some h, Some l) \<Rightarrow> map_option (\<lambda>bs. of_nat (16 * h + l) # bs) (hexDecode cs)
      | _ \<Rightarrow> None)"

lemma fromHexChar_hexDigit [simp]: "n < 16 \<Longrightarrow> fromHexChar (hexDigit n) = Some n"
proof -
  assume "n < 16"
  moreover have "list_all (\<lambda>n. fromHexChar (hexDigit n) = Some n) [0..<16]" by code_simp
  ultimately show ?thesis by (simp add: list_all_iff del: upt_rec_numeral)
qed

lemma fromHexChar_lt: "fromHexChar c = Some n \<Longrightarrow> n < 16"
  by (auto simp: fromHexChar_def Let_def split: if_splits)

lemma hexDecode_hexEncode [simp, codec_simps]: "hexDecode (hexEncode bs) = Some bs"
proof (induction bs)
  case Nil
  then show ?case by simp
next
  case (Cons b bs)
  have "unat b div 16 < 16" using unat_byte_lt [of b] by simp
  with Cons show ?case by simp
qed

lemma length_hexEncode [simp]: "length (hexEncode bs) = 2 * length bs"
  by (induction bs) auto

lemma hexEncode_append: "hexEncode (xs @ ys) = hexEncode xs @ hexEncode ys"
  by (induction xs) auto

lemma hexEncode_inject [simp]: "hexEncode xs = hexEncode ys \<longleftrightarrow> xs = ys"
  by (metis hexDecode_hexEncode option.inject)

lemma hexDecode_length: "hexDecode s = Some bs \<Longrightarrow> length s = 2 * length bs"
  by (induction s arbitrary: bs rule: hexDecode.induct) (auto split: option.splits)

text \<open>The characters of a string that decodes are hexadecimal digits: in particular ASCII.\<close>

lemma hexDecode_chars:
  "hexDecode s = Some bs \<Longrightarrow> c \<in> set s \<Longrightarrow> fromHexChar c \<noteq> None"
  by (induction s arbitrary: bs rule: hexDecode.induct) (auto split: option.splits)

lemma fromHexChar_ascii: "fromHexChar c \<noteq> None \<Longrightarrow> 48 \<le> (of_char c :: nat) \<and> (of_char c :: nat) < 128"
  by (auto simp: fromHexChar_def Let_def split: if_splits)

lemma hexDigit_no_colon:
  assumes "n < 16"
  shows "hexDigit n \<noteq> CHR '':''"
proof
  assume "hexDigit n = CHR '':''"
  with assms have "fromHexChar CHR '':'' = Some n" by (metis fromHexChar_hexDigit)
  moreover have "fromHexChar CHR '':'' = None" by (simp add: fromHexChar_def)
  ultimately show False by simp
qed

subsection \<open>Splitting strings\<close>

text \<open>\<open>splitOn c s\<close> is \<^verbatim>\<open>strings.Split(s, c)\<close> for a one-byte separator.\<close>

fun splitOn :: "char \<Rightarrow> string \<Rightarrow> string list" where
  "splitOn c [] = [[]]"
| "splitOn c (x # xs) =
     (if x = c then [] # splitOn c xs
      else (case splitOn c xs of [] \<Rightarrow> [[x]] | w # ws \<Rightarrow> (x # w) # ws))"

lemma splitOn_nonempty [simp]: "splitOn c s \<noteq> []"
  by (induction s) (auto split: list.splits)

lemma splitOn_none: "c \<notin> set s \<Longrightarrow> splitOn c s = [s]"
  by (induction s) auto

lemma splitOn_two:
  "c \<notin> set a \<Longrightarrow> splitOn c (a @ c # b) = a # splitOn c b"
  by (induction a) auto

lemma hexEncode_no_colon: "CHR '':'' \<notin> set (hexEncode bs)"
proof (induction bs)
  case Nil
  then show ?case by simp
next
  case (Cons b bs)
  have "unat b div 16 < 16" "unat b mod 16 < 16" using unat_byte_lt [of b] by simp_all
  then have "hexDigit (unat b div 16) \<noteq> CHR '':''" "hexDigit (unat b mod 16) \<noteq> CHR '':''"
    by (simp_all only: hexDigit_no_colon not_False_eq_True)
  with Cons show ?case by auto
qed

subsection \<open>Decimal integers\<close>

text \<open>
  \<open>formatUint\<close> and \<open>formatInt\<close> are \<^verbatim>\<open>strconv.FormatUint\<close> and \<^verbatim>\<open>FormatInt\<close> in
  base 10; \<open>parseInt64\<close> is \<^verbatim>\<open>strconv.ParseInt(s, 10, 64)\<close>: an optional sign, at least one
  digit, and an error outside the range of \<^verbatim>\<open>int64\<close>.
\<close>

definition decDigit :: "nat \<Rightarrow> char" where
  "decDigit n = ''0123456789'' ! n"

fun formatNat :: "nat \<Rightarrow> string" where
  "formatNat n = (if n < 10 then [decDigit n] else formatNat (n div 10) @ [decDigit (n mod 10)])"

declare formatNat.simps [simp del]

definition formatUint :: "u64 \<Rightarrow> string" where
  "formatUint w = formatNat (unat w)"

definition formatInt :: "int \<Rightarrow> string" where
  "formatInt i = (if i < 0 then CHR ''-'' # formatNat (nat (- i)) else formatNat (nat i))"

definition fromDecChar :: "char \<Rightarrow> nat option" where
  "fromDecChar c = (let n = (of_char c :: nat) in if 48 \<le> n \<and> n \<le> 57 then Some (n - 48) else None)"

fun parseDigits :: "nat \<Rightarrow> string \<Rightarrow> nat option" where
  "parseDigits acc [] = Some acc"
| "parseDigits acc (c # cs) =
     (case fromDecChar c of None \<Rightarrow> None | Some d \<Rightarrow> parseDigits (10 * acc + d) cs)"

definition parseInt64 :: "string \<Rightarrow> int option" where
  "parseInt64 s =
     (let (neg, ds) =
        (case s of
           [] \<Rightarrow> (False, [])
         | c # cs \<Rightarrow> (if c = CHR ''-'' then (True, cs) else if c = CHR ''+'' then (False, cs) else (False, s)))
      in if ds = [] then None
         else (case parseDigits 0 ds of
                 None \<Rightarrow> None
               | Some n \<Rightarrow>
                   (let i = (if neg then - int n else int n)
                    in if - (2 ^ 63) \<le> i \<and> i < 2 ^ 63 then Some i else None)))"

lemma fromDecChar_decDigit [simp]: "n < 10 \<Longrightarrow> fromDecChar (decDigit n) = Some n"
proof -
  assume "n < 10"
  moreover have "list_all (\<lambda>n. fromDecChar (decDigit n) = Some n) [0..<10]" by code_simp
  ultimately show ?thesis by (simp add: list_all_iff del: upt_rec_numeral)
qed

lemma parseDigits_append:
  "parseDigits a (xs @ ys) = Option.bind (parseDigits a xs) (\<lambda>b. parseDigits b ys)"
  by (induction xs arbitrary: a) (auto split: option.splits)

lemma parseDigits_formatNat: "parseDigits 0 (formatNat n) = Some n"
proof (induction n rule: formatNat.induct)
  case (1 n)
  show ?case
  proof (cases "n < 10")
    case True
    then show ?thesis by (simp add: formatNat.simps [of n])
  next
    case False
    with 1 show ?thesis
      by (simp add: formatNat.simps [of n] parseDigits_append)
  qed
qed

lemma formatNat_ne [simp]: "formatNat n \<noteq> []"
  by (subst formatNat.simps) simp

lemma formatNat_inject [simp]: "formatNat m = formatNat n \<longleftrightarrow> m = n"
  by (metis parseDigits_formatNat option.inject)

end
