(* ===== verification/Deque.thy ===== *)
theory Deque
  imports Prelude
begin

section \<open>Package deque: the queue of block hashes\<close>

text \<open>
  \<^verbatim>\<open>deque/deque.go\<close>: a FIFO queue of block identifiers in a ring buffer whose capacity is
  a power of two, so that the wrap-around is a bitwise AND, and which doubles when it is full.
  The record has the fields of the struct, with Go's \<^verbatim>\<open>int\<close> as a word of 64 bits that wraps around and is
  compared with its sign (the mutex is left out: each method holds it from its
  first to its last access of the state, so the methods are atomic). No other package of the repository
  imports it. The interface locale
  \<open>fifo\<close> states the contract of a queue against the list of its elements; the ring buffer is
  an instance, and the refinement of whole runs is proved once in the locale.
\<close>

subsection \<open>The interface of a FIFO queue\<close>

datatype 'x queue_op = OpPush 'x | OpPop

text \<open>A run of a client: the results of its pops, and the final state.\<close>

fun run_queue ::
  "('q \<Rightarrow> 'x \<Rightarrow> ('e, 'q) outcome) \<Rightarrow> ('q \<Rightarrow> ('e, 'x \<times> 'q) outcome) \<Rightarrow> 'q \<Rightarrow> 'x queue_op list
     \<Rightarrow> ('e, 'x list \<times> 'q) outcome" where
  "run_queue push pop q [] = Ok ([], q)"
| "run_queue push pop q (OpPush x # ops) = andThen (push q x) (\<lambda>q'. run_queue push pop q' ops)"
| "run_queue push pop q (OpPop # ops) =
     andThen (pop q) (\<lambda>(x, q'). andThen (run_queue push pop q' ops) (\<lambda>(ys, q''). Ok (x # ys, q'')))"

text \<open>The specification of the same run on the list of elements; \<open>z\<close> is what an empty pop gives.\<close>

fun run_list :: "'x \<Rightarrow> 'x list \<Rightarrow> 'x queue_op list \<Rightarrow> 'x list \<times> 'x list" where
  "run_list z xs [] = ([], xs)"
| "run_list z xs (OpPush x # ops) = run_list z (xs @ [x]) ops"
| "run_list z [] (OpPop # ops) = (let (ys, r) = run_list z [] ops in (z # ys, r))"
| "run_list z (x # xs) (OpPop # ops) = (let (ys, r) = run_list z xs ops in (x # ys, r))"

text \<open>The contents stay within a limit during the run.\<close>

fun fits :: "nat \<Rightarrow> nat \<Rightarrow> 'x queue_op list \<Rightarrow> bool" where
  "fits limit n [] \<longleftrightarrow> True"
| "fits limit n (OpPush x # ops) \<longleftrightarrow> n < limit \<and> fits limit (n + 1) ops"
| "fits limit n (OpPop # ops) \<longleftrightarrow> fits limit (n - 1) ops"

locale fifo =
  fixes push :: "'q \<Rightarrow> 'x \<Rightarrow> ('e, 'q) outcome"
    and pop :: "'q \<Rightarrow> ('e, 'x \<times> 'q) outcome"
    and size_of :: "'q \<Rightarrow> nat"
    and zero :: 'x
    and limit :: nat
    and elems :: "'q \<Rightarrow> 'x list"
    and invar :: "'q \<Rightarrow> bool"
  assumes push_law: "invar q \<Longrightarrow> length (elems q) < limit \<Longrightarrow> \<exists>q'. push q x = Ok q' \<and> invar q' \<and> elems q' = elems q @ [x]"
    and pop_empty: "invar q \<Longrightarrow> elems q = [] \<Longrightarrow> pop q = Ok (zero, q)"
    and pop_cons: "invar q \<Longrightarrow> elems q = x # xs \<Longrightarrow> \<exists>q'. pop q = Ok (x, q') \<and> invar q' \<and> elems q' = xs"
    and size_law: "invar q \<Longrightarrow> size_of q = length (elems q)"
begin

lemma run_refines:
  "invar q \<Longrightarrow> fits limit (length (elems q)) ops \<Longrightarrow>
   \<exists>q'. run_queue push pop q ops = Ok (fst (run_list zero (elems q) ops), q') \<and>
        invar q' \<and> elems q' = snd (run_list zero (elems q) ops)"
proof (induction ops arbitrary: q)
  case Nil
  then show ?case by simp
next
  case (Cons op ops)
  show ?case
  proof (cases op)
    case (OpPush x)
    with Cons.prems push_law [of q x] obtain q1
      where "push q x = Ok q1" "invar q1" "elems q1 = elems q @ [x]" by auto
    with Cons.IH [of q1] Cons.prems(2) OpPush show ?thesis by simp
  next
    case OpPop
    show ?thesis
    proof (cases "elems q")
      case Nil
      with pop_empty [OF Cons.prems(1)] Cons.IH [OF Cons.prems(1)] Cons.prems(2) OpPop show ?thesis
        by (auto simp: split_beta)
    next
      case (Cons x xs)
      from pop_cons [OF \<open>invar q\<close> this] obtain q1
        where "pop q = Ok (x, q1)" "invar q1" "elems q1 = xs" by blast
      with Cons.IH [of q1] Cons.prems(2) OpPop Cons show ?thesis by (auto simp: split_beta)
    qed
  qed
qed

end

subsection \<open>The ring buffer\<close>

type_synonym flow_id = bytes

definition ZeroID :: flow_id where
  "ZeroID = replicate 32 0"

type_synonym goint = "64 word"

record Queue =
  cap :: goint
  elems :: "flow_id list"
  head :: goint
  len :: goint
  tail :: goint

definition Cap :: "Queue \<Rightarrow> goint" where
  "Cap q = cap q"

definition Len :: "Queue \<Rightarrow> goint" where
  "Len q = len q"

text \<open>
  An index with its sign bit set is at least \<open>2 ^ 63\<close> as a natural number and so out of the range of every
  slice: reading an index by \<open>unat\<close> keeps the panic for negative indices.
\<close>

definition Pop :: "Queue \<Rightarrow> (unit, flow_id \<times> Queue) outcome" where
  "Pop q =
     (if len q = 0 then Ok (ZeroID, q)
      else andThen (elemAt (elems q) (unat (head q)))
        (\<lambda>elem. Ok (elem, q\<lparr>head := (head q + 1) AND (cap q - 1), len := len q - 1\<rparr>)))"

text \<open>
  \<^verbatim>\<open>make([]flow.Identifier, n)\<close>: a negative length panics, and so does one whose elements of 32 bytes each do not
  fit in the address space of \<open>2 ^ 48\<close> bytes that the runtime allows on 64-bit platforms. (A length below
  that may still exhaust the memory of the machine, which ends the process.)
\<close>

definition maxIDs :: nat where "maxIDs = 2 ^ 48 div 32"

definition makeIDs :: "goint \<Rightarrow> (unit, flow_id list) outcome" where
  "makeIDs n =
     (if sint n < 0 \<or> int maxIDs < sint n then Panic ''makeslice: len out of range''
      else Ok (replicate (unat n) ZeroID))"

text \<open>\<open>copyInto dst off src\<close> is the slice \<open>dst\<close> after \<^verbatim>\<open>copy(dst[off:], src)\<close>.\<close>

definition copyInto :: "'a list \<Rightarrow> nat \<Rightarrow> 'a list \<Rightarrow> 'a list" where
  "copyInto dst off src =
     (let n = min (length src) (length dst - off)
      in take off dst @ take n src @ drop (off + n) dst)"

text \<open>The doubling step of \<^verbatim>\<open>Push\<close> when the buffer is full.\<close>

definition grow :: "Queue \<Rightarrow> (unit, Queue) outcome" where
  "grow q =
     (let cap' = push_bit 1 (cap q)
      in andThen (makeIDs cap') (\<lambda>fresh.
         andThen
           (if sint (tail q) > sint (head q) then
              andThen (subslice (elems q) (unat (head q)) (unat (tail q))) (\<lambda>xs. Ok (copyInto fresh 0 xs))
            else
              andThen (subslice (elems q) (unat (head q)) (length (elems q))) (\<lambda>xs.
              andThen (subslice (elems q) 0 (unat (tail q))) (\<lambda>ys.
              let n = min (length fresh) (length xs)
              in Ok (copyInto (copyInto fresh 0 xs) n ys))))
           (\<lambda>es. Ok (q\<lparr>cap := cap', elems := es, head := 0, tail := len q\<rparr>))))"

definition Push :: "Queue \<Rightarrow> flow_id \<Rightarrow> (unit, Queue) outcome" where
  "Push q elem =
     andThen (if len q = cap q then grow q else Ok q) (\<lambda>q1.
       if unat (tail q1) < length (elems q1) then
         Ok (q1\<lparr>elems := (elems q1)[unat (tail q1) := elem],
                tail := (tail q1 + 1) AND (cap q1 - 1),
                len := len q1 + 1\<rparr>)
       else Panic ''index out of range'')"

definition New :: "goint \<Rightarrow> (unit, Queue) outcome" where
  "New initialCapacity =
     (if initialCapacity AND (initialCapacity - 1) \<noteq> 0
      then Panic ''deque: initial capacity must be a power of 2''
      else andThen (makeIDs initialCapacity) (\<lambda>es.
        Ok \<lparr>cap = initialCapacity, elems = es, head = 0, len = 0, tail = 0\<rparr>))"

subsection \<open>Invariant and abstraction\<close>

definition queue_inv :: "Queue \<Rightarrow> bool" where
  "queue_inv q \<longleftrightarrow>
     (\<exists>k \<le> 43. cap q = 2 ^ k) \<and> length (elems q) = unat (cap q) \<and> unat (head q) < unat (cap q) \<and> unat (len q) \<le> unat (cap q) \<and>
     unat (tail q) = (unat (head q) + unat (len q)) mod unat (cap q)"

definition queue_list :: "Queue \<Rightarrow> flow_id list" where
  "queue_list q = map (\<lambda>i. elems q ! ((unat (head q) + i) mod unat (cap q))) [0..<unat (len q)]"

lemma unat_pow2: "k \<le> 43 \<Longrightarrow> unat (2 ^ k :: goint) = 2 ^ k"
proof -
  assume "k \<le> 43"
  then have "(2 :: nat) ^ k < 2 ^ 64" by (intro power_strict_increasing) auto
  moreover have "unat (2 ^ k :: goint) = 2 ^ k mod 2 ^ 64" using unat_of_nat [of "2 ^ k", where 'a = 64] by simp
  ultimately show ?thesis by simp
qed

lemma sint_unat: "unat w < 2 ^ 63 \<Longrightarrow> sint w = int (unat w)" for w :: goint
proof -
  assume w: "unat w < 2 ^ 63"
  then have "int (unat w) < 2 ^ 63" by (metis of_nat_less_iff of_nat_numeral of_nat_power)
  then have "uint w < 2 ^ 63" by (simp only: uint_nat)
  moreover have "0 \<le> uint w" by simp
  ultimately have "signed_take_bit 63 (uint w) = uint w" by (intro signed_take_bit_int_eq_self) linarith+
  then show ?thesis by (simp add: sint_uint)
qed

lemma maxIDs_eq: "maxIDs = 2 ^ 43"
  by (simp add: maxIDs_def)

lemma makeIDs_pow2: "k \<le> 43 \<Longrightarrow> makeIDs (2 ^ k) = Ok (replicate (2 ^ k) ZeroID)"
proof -
  assume k: "k \<le> 43"
  then have le: "(2 :: nat) ^ k \<le> 2 ^ 43" by (intro power_increasing) auto
  then have "sint (2 ^ k :: goint) = 2 ^ k" using sint_unat [of "2 ^ k"] unat_pow2 [OF k] by simp
  moreover have "(2 :: int) ^ k \<le> 2 ^ 43" using k by (intro power_increasing) auto
  ultimately show ?thesis using unat_pow2 [OF k] by (simp add: makeIDs_def maxIDs_eq)
qed

lemma length_queue_list [simp]: "length (queue_list q) = unat (len q)"
  by (simp add: queue_list_def)

lemma queue_inv_cap: "queue_inv q \<Longrightarrow> 0 < unat (cap q) \<and> unat (cap q) \<le> 2 ^ 43"
proof -
  assume "queue_inv q"
  then obtain k where k: "k \<le> 43" "cap q = 2 ^ k" by (auto simp: queue_inv_def)
  then have "(2 :: nat) ^ k \<le> 2 ^ 43" by (intro power_increasing) auto
  then show ?thesis using k unat_pow2 [OF k(1)] by simp
qed

lemma unat_succ: "unat x < 2 ^ 63 \<Longrightarrow> unat (x + 1) = unat x + 1" for x :: goint
  by (simp add: unat_word_ariths)

text \<open>The bitwise modulus.\<close>

lemma mask_cap:
  assumes "queue_inv q" and "unat x < unat (cap q)"
  shows "unat ((x + 1) AND (cap q - 1)) = (unat x + 1) mod unat (cap q)"
proof -
  from assms(1) obtain k where k: "k \<le> 43" "cap q = 2 ^ k" by (auto simp: queue_inv_def)
  have "(x + 1) AND (cap q - 1) = take_bit k (x + 1)" unfolding k(2) by (simp add: take_bit_eq_mask mask_eq_exp_minus_1)
  then have "unat ((x + 1) AND (cap q - 1)) = take_bit k (unat (x + 1))" by (simp only: unsigned_take_bit_eq)
  then have "unat ((x + 1) AND (cap q - 1)) = unat (x + 1) mod 2 ^ k" by (simp only: take_bit_eq_mod)
  moreover have "unat x < 2 ^ 63" using assms(2) queue_inv_cap [OF assms(1)] by simp
  ultimately show ?thesis using unat_succ [of x] unat_pow2 [OF k(1)] by (simp add: k(2))
qed

lemma Pop_empty: "queue_list q = [] \<Longrightarrow> Pop q = Ok (ZeroID, q)"
  by (simp add: Pop_def queue_list_def unsigned_eq_0_iff)

lemma Pop_nonempty:
  assumes inv: "queue_inv q" and l: "queue_list q = x # xs"
  shows "\<exists>q'. Pop q = Ok (x, q') \<and> queue_inv q' \<and> queue_list q' = xs"
proof -
  let ?h = "unat (head q)" and ?n = "unat (len q)" and ?c = "unat (cap q)"
  let ?q = "q\<lparr>head := (head q + 1) AND (cap q - 1), len := len q - 1\<rparr>"
  have len: "0 < ?n" using l by (metis length_queue_list length_greater_0_conv list.distinct(1))
  then have nz: "len q \<noteq> 0" by auto
  then have len1: "unat (len q - 1) = ?n - 1" by (simp add: unat_minus_one)
  have h: "?h < length (elems q)" "?h < ?c" using inv by (auto simp: queue_inv_def)
  have head1: "unat (head ?q) = (?h + 1) mod ?c" using mask_cap [OF inv h(2)] by simp
  have x: "x = elems q ! ?h"
    using l len h by (cases ?n) (auto simp: queue_list_def upt_conv_Cons simp del: upt_Suc)
  have "Pop q = Ok (x, ?q)" using nz h x by (simp add: Pop_def)
  moreover have "queue_inv ?q"
  proof -
    have "((?h + 1) mod ?c + (?n - 1)) mod ?c = (?h + 1 + (?n - 1)) mod ?c"
      by (simp add: mod_add_left_eq)
    then have "unat (tail ?q) = (unat (head ?q) + unat (len ?q)) mod ?c"
      using inv len unfolding head1 by (simp add: queue_inv_def len1)
    moreover have "unat (head ?q) < ?c" unfolding head1 using queue_inv_cap [OF inv] by simp
    ultimately show ?thesis using inv len by (auto simp: queue_inv_def len1)
  qed
  moreover have "queue_list ?q = xs"
  proof -
    have "xs = tl (queue_list q)" using l by simp
    also have "\<dots> = map (\<lambda>i. elems q ! ((?h + i) mod ?c)) [1..<?n]"
      using len by (simp add: queue_list_def map_tl [symmetric] tl_upt)
    also have "\<dots> = map (\<lambda>i. elems q ! ((?h + (i + 1)) mod ?c)) [0..<?n - 1]"
      using len map_Suc_upt [of 0 "?n - 1", symmetric] by (simp add: comp_def)
    also have "\<dots> = queue_list ?q"
      unfolding queue_list_def head1 using mod_add_left_eq [of "?h + 1" ?c]
      by (simp add: len1 add.commute add.left_commute)
    finally show ?thesis by simp
  qed
  ultimately show ?thesis by blast
qed

lemma map_ring_rotate:
  "h < length xs \<Longrightarrow>
   map (\<lambda>i. xs ! ((h + i) mod length xs)) [0..<length xs] = drop h xs @ take h xs"
  by (rule nth_equalityI) (simp_all add: nth_rotate [of _ xs h, symmetric] rotate_drop_take)

lemma map_nth_upt_take: "n \<le> length xs \<Longrightarrow> map (\<lambda>i. xs ! i) [0..<n] = take n xs"
  by (rule nth_equalityI) simp_all

lemma copyInto_two:
  assumes "length xs + length ys \<le> length dst"
  shows "copyInto (copyInto dst 0 xs) (length xs) ys = xs @ ys @ drop (length xs + length ys) dst"
  using assms by (simp add: copyInto_def min_absorb1 add.commute)

lemma grow_law:
  assumes inv: "queue_inv q" and full: "len q = cap q" and small: "unat (cap q) < maxIDs"
  shows "\<exists>q1. grow q = Ok q1 \<and> queue_inv q1 \<and> queue_list q1 = queue_list q \<and>
              len q1 = len q \<and> unat (cap q1) = 2 * unat (cap q)"
proof -
  let ?h = "unat (head q)" and ?c = "unat (cap q)"
  let ?xs = "drop ?h (elems q)" and ?ys = "take ?h (elems q)"
  from inv obtain k where k: "k \<le> 43" "cap q = 2 ^ k" by (auto simp: queue_inv_def)
  then have "(2 :: nat) ^ k < 2 ^ 43" using small unat_pow2 by (simp add: maxIDs_eq)
  then have k1: "Suc k \<le> 43" using power_less_imp_less_exp [of "2 :: nat" k 43] by simp
  have c: "push_bit 1 (cap q) = 2 ^ Suc k" "unat (2 ^ Suc k :: goint) = 2 * ?c" "?c = 2 ^ k"
    using unat_pow2 [OF k1] unat_pow2 [OF k(1)] by (simp_all add: k(2) push_bit_eq_mult)
  have t: "unat (tail q) = ?h" and h: "?h < ?c" and l: "length (elems q) = ?c"
    using inv full by (auto simp: queue_inv_def)
  then have th: "tail q = head q" by (simp add: word_unat_eq_iff)
  let ?es = "?xs @ ?ys @ replicate ?c ZeroID"
  let ?q1 = "q\<lparr>cap := 2 ^ Suc k, elems := ?es, head := 0, tail := len q\<rparr>"
  have es: "copyInto (copyInto (replicate (2 * ?c) ZeroID) 0 ?xs) (length ?xs) ?ys = ?es"
    using h l by (subst copyInto_two) simp_all
  have fresh: "makeIDs (2 ^ Suc k) = Ok (replicate (2 * ?c) ZeroID)" using makeIDs_pow2 [OF k1] c(3) by simp
  have "grow q = Ok ?q1"
    using es h l unfolding grow_def Let_def c(1) fresh
    by (simp add: th min_absorb2 del: andThen_Ok_iff andThen_Ok_rev power_Suc)
  moreover have "\<exists>j \<le> 43. (2 ^ Suc k :: goint) = 2 ^ j" using k1 by blast
  then have "queue_inv ?q1" using h l full c(2) by (simp add: queue_inv_def del: power_Suc)
  moreover have "queue_list ?q1 = queue_list q"
  proof -
    have "queue_list ?q1 = map (\<lambda>i. ?es ! i) [0..<?c]"
      using full c(2) by (auto simp: queue_list_def simp del: power_Suc)
    also have "\<dots> = take ?c ?es"
      using h l by (subst map_nth_upt_take [symmetric]) simp_all
    also have "\<dots> = ?xs @ ?ys" using h l by simp
    also have "\<dots> = queue_list q"
      using map_ring_rotate [of ?h "elems q"] h l full by (simp add: queue_list_def)
    finally show ?thesis .
  qed
  ultimately show ?thesis using c(2) by (intro exI [of _ ?q1]) (simp del: power_Suc)
qed

lemma ring_distinct:
  assumes "i < j" and "j < c"
  shows "(a + i) mod c \<noteq> (a + j) mod (c :: nat)"
proof
  assume "(a + i) mod c = (a + j) mod c"
  then have "c dvd j - i"
    using assms mod_eq_dvd_iff_nat [of "a + i" "a + j" c] by auto
  with assms show False by (auto dest: dvd_imp_le)
qed

lemma push_room:
  assumes inv: "queue_inv q" and room: "unat (len q) < unat (cap q)"
  shows "\<exists>q'. Push q x = Ok q' \<and> queue_inv q' \<and> queue_list q' = queue_list q @ [x]"
proof -
  let ?h = "unat (head q)" and ?n = "unat (len q)" and ?c = "unat (cap q)" and ?t = "unat (tail q)"
  let ?q = "q\<lparr>elems := (elems q)[?t := x], tail := (tail q + 1) AND (cap q - 1), len := len q + 1\<rparr>"
  have t: "?t = (?h + ?n) mod ?c" and l: "length (elems q) = ?c" using inv by (auto simp: queue_inv_def)
  have tl: "?t < ?c" using t room by simp
  have len1: "unat (len q + 1) = ?n + 1" using room queue_inv_cap [OF inv] by (intro unat_succ) simp
  have tail1: "unat (tail ?q) = (?t + 1) mod ?c" using mask_cap [OF inv tl] by simp
  have ne: "len q \<noteq> cap q" using room by auto
  then have "Push q x = Ok ?q" using tl l by (simp add: Push_def)
  moreover have "unat (tail ?q) = (unat (head ?q) + unat (len ?q)) mod ?c"
    unfolding tail1 using t by (simp add: len1 mod_Suc_eq)
  then have "queue_inv ?q" using inv room by (auto simp: queue_inv_def len1)
  moreover have "queue_list ?q = queue_list q @ [x]"
  proof -
    have "(elems q)[?t := x] ! ((?h + i) mod ?c) = elems q ! ((?h + i) mod ?c)" if "i < ?n" for i
      using ring_distinct [OF that room] t by (metis nth_list_update_neq)
    then show ?thesis using tl l t by (simp add: queue_list_def len1)
  qed
  ultimately show ?thesis by blast
qed

lemma Push_law:
  assumes inv: "queue_inv q" and limit: "length (queue_list q) < maxIDs"
  shows "\<exists>q'. Push q x = Ok q' \<and> queue_inv q' \<and> queue_list q' = queue_list q @ [x]"
proof (cases "len q = cap q")
  case False
  then have "unat (len q) \<noteq> unat (cap q)" by (simp add: word_unat_eq_iff)
  with inv have "unat (len q) < unat (cap q)" by (auto simp: queue_inv_def)
  with inv show ?thesis by (rule push_room)
next
  case True
  with limit have "unat (cap q) < maxIDs" by simp
  from grow_law [OF inv True this] obtain q1
    where q1: "grow q = Ok q1" "queue_inv q1" "queue_list q1 = queue_list q"
      and room: "unat (len q1) < unat (cap q1)"
    using queue_inv_cap [OF inv] True by fastforce
  then have "len q1 \<noteq> cap q1" by auto
  then have "Push q x = Push q1 x" using True q1 by (simp add: Push_def del: andThen_Ok_iff andThen_Ok_rev)
  with push_room [OF q1(2) room, of x] q1(3) show ?thesis by simp
qed

interpretation ring: fifo Push Pop "\<lambda>q. unat (Len q)" ZeroID maxIDs queue_list queue_inv
  by unfold_locales (simp_all add: Push_law Pop_empty Pop_nonempty Len_def)

lemma New_pow2:
  assumes "k \<le> 43"
  shows "\<exists>q. New (2 ^ k) = Ok q \<and> queue_inv q \<and> queue_list q = []"
proof -
  have "(2 ^ k :: goint) AND (2 ^ k - 1) = take_bit k (2 ^ k)" by (simp add: take_bit_eq_mask mask_eq_exp_minus_1)
  also have "\<dots> = 0" by (rule bit_word_eqI) (auto simp: bit_take_bit_iff bit_exp_iff)
  finally have "(2 ^ k :: goint) AND (2 ^ k - 1) = 0" .
  then have "New (2 ^ k) = Ok \<lparr>cap = 2 ^ k, elems = replicate (2 ^ k) ZeroID, head = 0, len = 0, tail = 0\<rparr>"
    using makeIDs_pow2 [OF assms] by (simp add: New_def del: andThen_Ok_iff andThen_Ok_rev)
  then show ?thesis using assms unat_pow2 [OF assms] by (auto simp: queue_inv_def queue_list_def)
qed

subsection \<open>Properties\<close>

text \<open>
  C29. A queue made by \<^verbatim>\<open>New\<close> with a power-of-two capacity of at most \<open>2 ^ 43\<close>, the largest that \<^verbatim>\<open>make\<close> accepts,
  never panics while it holds at most so many identifiers: any sequence of \<^verbatim>\<open>Push\<close> and \<^verbatim>\<open>Pop\<close> calls on it, with
  any growth of the buffer, returns exactly what the list of pushed and not yet popped identifiers returns
  (the zero identifier on an empty pop); the reported length is the number of elements left. The 64-bit
  counters do not wrap around.
\<close>

theorem deque_refines_fifo:
  assumes "k \<le> 43" and "fits maxIDs 0 ops"
  shows "\<exists>q q'. New (2 ^ k) = Ok q \<and>
     run_queue Push Pop q ops = Ok (fst (run_list ZeroID [] ops), q') \<and>
     queue_list q' = snd (run_list ZeroID [] ops) \<and>
     unat (Len q') = length (snd (run_list ZeroID [] ops))"
proof -
  from New_pow2 [OF assms(1)] obtain q where q: "New (2 ^ k) = Ok q" "queue_inv q" "queue_list q = []" by blast
  then show ?thesis using ring.run_refines [OF q(2), of ops] ring.size_law assms(2) by fastforce
qed

theorem deque_refines_fifo_witness:
  "\<exists>q q'. New 2 = Ok q \<and>
     run_queue Push Pop q [OpPush [1], OpPush [2], OpPop, OpPush [3], OpPush [4]] = Ok ([[1]], q') \<and>
     queue_list q' = [[2], [3], [4]] \<and> unat (Len q') = 3"
  using deque_refines_fifo [of 1 "[OpPush [1], OpPush [2], OpPop, OpPush [3], OpPush [4]]"] by (simp add: maxIDs_eq numeral_3_eq_3)

text \<open>At the limit the next \<^verbatim>\<open>Push\<close> panics, because the doubled capacity cannot be allocated.\<close>

lemma deque_full_panics:
  assumes "queue_inv q" and "unat (len q) = maxIDs"
  shows "Push q x = Panic ''makeslice: len out of range''"
proof -
  from assms obtain k where k: "k \<le> 43" "cap q = 2 ^ k" "unat (len q) \<le> unat (cap q)" by (auto simp: queue_inv_def)
  have c: "unat (cap q) = 2 ^ 43" using queue_inv_cap [OF assms(1)] assms(2) k(3) by (simp add: maxIDs_eq)
  then have "cap q = 2 ^ 43" "len q = cap q" using assms(2) unat_pow2 [of 43] by (simp_all add: word_unat_eq_iff maxIDs_eq)
  moreover have "makeIDs (push_bit 1 (2 ^ 43)) = Panic ''makeslice: len out of range''"
    by (simp add: makeIDs_def maxIDs_eq push_bit_eq_mult)
  ultimately show ?thesis by (simp add: Push_def grow_def)
qed

text \<open>
  Capacity zero passes the power-of-two check of \<^verbatim>\<open>New\<close>, and the first \<^verbatim>\<open>Push\<close> on
  such a queue panics, because doubling zero leaves no room for the element.
\<close>

lemma deque_zero_capacity_panics:
  "\<exists>q. New 0 = Ok q \<and> Push q x = Panic ''index out of range''"
  by (simp add: New_def Push_def grow_def makeIDs_def copyInto_def)

end
