(* ===== verification/Model.thy ===== *)
theory Model
  imports Prelude
begin

section \<open>Packages model and fees: the data of the program\<close>

text \<open>
  The messages of \<^verbatim>\<open>model/model.proto\<close> as the generated structs of
  \<^verbatim>\<open>model/model.pb.go\<close> declare them (without the bookkeeping fields of the protobuf
  run time), the methods of \<^verbatim>\<open>model/model.go\<close> and the constants of
  \<^verbatim>\<open>fees/fees.go\<close>. A nil byte slice and an empty one are the same value here: the code
  only asks for the length of the byte fields. The RLP encoder and SHA3-256 come from other
  modules and are arguments of the definitions that use them.
\<close>

subsection \<open>Enumerations\<close>

text \<open>
  Protobuf enumerations are open: a decoded message may carry a number without a name, for
  which the last constructor stands.
\<close>

datatype OperationType =
    OPERATION_TYPE_UNSPECIFIED
  | CREATE_ACCOUNT
  | FEE
  | PROXY_TRANSFER
  | TRANSFER
  | OperationType_unnamed int

fun OperationType_name :: "OperationType \<Rightarrow> string" where
  "OperationType_name OPERATION_TYPE_UNSPECIFIED = ''OPERATION_TYPE_UNSPECIFIED''"
| "OperationType_name CREATE_ACCOUNT = ''CREATE_ACCOUNT''"
| "OperationType_name FEE = ''FEE''"
| "OperationType_name PROXY_TRANSFER = ''PROXY_TRANSFER''"
| "OperationType_name TRANSFER = ''TRANSFER''"
| "OperationType_name (OperationType_unnamed n) = formatInt n"

datatype TransferType =
    TRANSFER_TYPE_UNSPECIFIED
  | DEPOSIT
  | FEE_DEPOSIT
  | PROXY_DEPOSIT
  | PROXY_WITHDRAWAL
  | WITHDRAWAL
  | TransferType_unnamed int

fun TransferType_name :: "TransferType \<Rightarrow> string" where
  "TransferType_name TRANSFER_TYPE_UNSPECIFIED = ''TRANSFER_TYPE_UNSPECIFIED''"
| "TransferType_name DEPOSIT = ''DEPOSIT''"
| "TransferType_name FEE_DEPOSIT = ''FEE_DEPOSIT''"
| "TransferType_name PROXY_DEPOSIT = ''PROXY_DEPOSIT''"
| "TransferType_name PROXY_WITHDRAWAL = ''PROXY_WITHDRAWAL''"
| "TransferType_name WITHDRAWAL = ''WITHDRAWAL''"
| "TransferType_name (TransferType_unnamed n) = formatInt n"

subsection \<open>Messages\<close>

record BlockMeta =
  bmHash :: bytes
  bmHeight :: u64
  bmParent :: bytes
  bmTimestamp :: u64

record ConstructOpts =
  coBlockHash :: bytes
  coBlockHashFromRemote :: bool
  coBlockHashRemoteServer :: string
  coExecutionEffort :: u64
  coFees :: u64
  coKeyId :: u32
  coInclusionEffort :: u64
  coInner :: bool
  coNewAccounts :: u64
  coPayer :: bytes
  coProxyTransferPayload :: string
  coSequenceNumber :: u64

text \<open>The sequence number is a signed integer of 64 bits, read with \<open>sint\<close>.\<close>

record TransferEvent =
  teAmount :: u64
  teReceiver :: bytes
  teSender :: bytes
  teType :: TransferType

record Operation =
  opAccount :: bytes
  opAmount :: u64
  opProxyPublicKey :: bytes
  opReceiver :: bytes
  opType :: OperationType

record IndexedTransaction =
  itErrorMessage :: string
  itEvents :: "TransferEvent list"
  itFailed :: bool
  itHash :: bytes
  itOperations :: "Operation list"

record IndexedBlock =
  ibTimestamp :: u64
  ibTransactions :: "IndexedTransaction list"

definition zeroBlockMeta :: BlockMeta where
  "zeroBlockMeta = \<lparr>bmHash = [], bmHeight = 0, bmParent = [], bmTimestamp = 0\<rparr>"

subsection \<open>Methods of the messages\<close>

definition Clone :: "BlockMeta \<Rightarrow> BlockMeta" where
  "Clone b = \<lparr>bmHash = bmHash b, bmHeight = bmHeight b, bmParent = bmParent b,
     bmTimestamp = bmTimestamp b\<rparr>"

text \<open>The receiver and the argument of \<^verbatim>\<open>Equal\<close> may be nil.\<close>

fun Equal :: "BlockMeta option \<Rightarrow> BlockMeta option \<Rightarrow> bool" where
  "Equal (Some b) (Some c) \<longleftrightarrow>
     bmHash b = bmHash c \<and> bmHeight b = bmHeight c \<and> bmTimestamp b = bmTimestamp c"
| "Equal _ _ \<longleftrightarrow> False"

definition Pretty :: "Operation \<Rightarrow> string" where
  "Pretty x =
     ''{'' @
     (if length (opAccount x) = 0 then ''account: nil, ''
      else ''account: \"0x'' @ hexEncode (opAccount x) @ ''\", '') @
     ''amount: '' @ formatUint (opAmount x) @ '', '' @
     (if length (opProxyPublicKey x) = 0 then ''proxy_public_key: nil, ''
      else ''proxy_public_key: \"'' @ hexEncode (opProxyPublicKey x) @ ''\", '') @
     (if length (opReceiver x) = 0 then ''receiver: nil, ''
      else ''receiver: \"0x'' @ hexEncode (opReceiver x) @ ''\", '') @
     ''type: \"'' @ OperationType_name (opType x) @ ''\"'' @
     ''}''"

subsection \<open>Hashes of transactions\<close>

text \<open>
  The fields of \<^verbatim>\<open>entities.Transaction\<close> (the Access API's message) that the program
  reads; the proposal key is a pointer.
\<close>

record ProposalKey =
  pkAddress :: bytes
  pkKeyId :: u32
  pkSequenceNumber :: u64

record TransactionSignature =
  tsAddress :: bytes
  tsKeyId :: u32
  tsSignature :: bytes

record Transaction =
  txScript :: bytes
  txArguments :: "bytes list"
  txReferenceBlockId :: bytes
  txGasLimit :: u64
  txProposalKey :: "ProposalKey option"
  txPayer :: bytes
  txAuthorizers :: "bytes list"
  txPayloadSignatures :: "TransactionSignature list"
  txEnvelopeSignatures :: "TransactionSignature list"

record flowTransactionPayload =
  fpScript :: bytes
  fpArguments :: "bytes list"
  fpReferenceBlockID :: bytes
  fpGasLimit :: u64
  fpProposalKeyAddress :: bytes
  fpProposalKeyIndex :: u64
  fpProposalKeySequenceNumber :: u64
  fpPayer :: bytes
  fpAuthorizers :: "bytes list"

record flowTransactionSignature =
  fsSignerIndex :: u64
  fsKeyIndex :: u64
  fsSignature :: bytes

record flowEnvelope =
  fePayload :: flowTransactionPayload
  fePayloadSignatures :: "flowTransactionSignature list"

record flowTransaction =
  ftPayload :: flowTransactionPayload
  ftPayloadSignatures :: "flowTransactionSignature list"
  ftEnvelopeSignatures :: "flowTransactionSignature list"

text \<open>The encoder of \<^verbatim>\<open>rlp\<close> at the two types it is called with, and SHA3-256.\<close>

record hashing =
  rlpTransaction :: "flowTransaction \<Rightarrow> (string, bytes) sum"
  rlpEnvelope :: "flowEnvelope \<Rightarrow> (string, bytes) sum"
  sha3_256 :: "bytes \<Rightarrow> bytes"

definition toSignature :: "TransactionSignature \<Rightarrow> flowTransactionSignature" where
  "toSignature sig = \<lparr>fsSignerIndex = 0, fsKeyIndex = ucast (tsKeyId sig), fsSignature = tsSignature sig\<rparr>"

definition toPayload :: "Transaction \<Rightarrow> ProposalKey \<Rightarrow> flowTransactionPayload" where
  "toPayload t k =
     \<lparr>fpScript = txScript t, fpArguments = txArguments t, fpReferenceBlockID = txReferenceBlockId t,
      fpGasLimit = txGasLimit t, fpProposalKeyAddress = pkAddress k,
      fpProposalKeyIndex = ucast (pkKeyId k), fpProposalKeySequenceNumber = pkSequenceNumber k,
      fpPayer = txPayer t, fpAuthorizers = txAuthorizers t\<rparr>"

definition toFlowTransaction :: "Transaction \<Rightarrow> ProposalKey \<Rightarrow> flowTransaction" where
  "toFlowTransaction t k =
     \<lparr>ftPayload = toPayload t k,
      ftPayloadSignatures = map toSignature (txPayloadSignatures t),
      ftEnvelopeSignatures = map toSignature (txEnvelopeSignatures t)\<rparr>"

definition toFlowEnvelope :: "Transaction \<Rightarrow> ProposalKey \<Rightarrow> flowEnvelope" where
  "toFlowEnvelope t k =
     \<lparr>fePayload = toPayload t k, fePayloadSignatures = map toSignature (txPayloadSignatures t)\<rparr>"

definition deriveHash ::
  "hashing \<Rightarrow> Transaction \<Rightarrow> bytes option \<Rightarrow> (string, bytes) outcome" where
  "deriveHash H t tag =
     (case txProposalKey t of
        None \<Rightarrow> Panic ''nil pointer dereference''
      | Some k \<Rightarrow>
          (case (case tag of
                   None \<Rightarrow> rlpTransaction H (toFlowTransaction t k)
                 | Some _ \<Rightarrow> rlpEnvelope H (toFlowEnvelope t k)) of
             Inl err \<Rightarrow> Err (''model: could not RLP-encode transaction: '' @ err)
           | Inr data \<Rightarrow> Ok (sha3_256 H ((case tag of None \<Rightarrow> [] | Some tg \<Rightarrow> tg) @ data))))"

definition transactionTag :: bytes where
  "transactionTag = map of_char ''FLOW-V0.0-transaction'' @ replicate 11 0"

definition TransactionEnvelopeHash :: "hashing \<Rightarrow> Transaction \<Rightarrow> (string, bytes) outcome" where
  "TransactionEnvelopeHash H txn = deriveHash H txn (Some transactionTag)"

definition TransactionHash :: "hashing \<Rightarrow> Transaction \<Rightarrow> (string, bytes) outcome" where
  "TransactionHash H txn = deriveHash H txn None"

subsection \<open>Fees\<close>

definition CreateAccountEffort :: nat where "CreateAccountEffort = 70"
definition CreateProxyAccountEffort :: nat where "CreateProxyAccountEffort = 110"
definition DeployContractEffort :: nat where "DeployContractEffort = 550"
definition FlowTransferEffort :: nat where "FlowTransferEffort = 30"
definition InclusionEffort :: nat where "InclusionEffort = 100000000"
definition MinimumAccountBalance :: nat where "MinimumAccountBalance = 100000"
definition ProxyTransferEffort :: nat where "ProxyTransferEffort = 80"
definition UpdateContractEffort :: nat where "UpdateContractEffort = 480"

lemmas effort_defs =
  CreateAccountEffort_def CreateProxyAccountEffort_def DeployContractEffort_def
  FlowTransferEffort_def InclusionEffort_def MinimumAccountBalance_def ProxyTransferEffort_def
  UpdateContractEffort_def

subsection \<open>What the hashes cover\<close>

text \<open>The tag is 32 bytes, so the encoded envelope starts on a fixed offset of the hash input.\<close>

lemma length_transactionTag: "length transactionTag = 32"
  by (simp add: transactionTag_def)

lemma ucast_key_inject: "(ucast a :: u64) = ucast b \<longleftrightarrow> a = b" for a b :: u32
proof
  have small: "take_bit 64 (unat w) = unat w" for w :: u32
    using unsigned_less [of w, where 'a = nat] by (intro take_bit_nat_eq_self) simp
  assume "(ucast a :: u64) = ucast b"
  then have "unat (ucast a :: u64) = unat (ucast b :: u64)" by simp
  then have "unat a = unat b" by (simp add: unsigned_ucast_eq small)
  then show "a = b" by (rule unsigned_word_eqI)
qed simp

text \<open>The signer addresses of the signatures are not part of the hashed data.\<close>

definition withoutSigners :: "Transaction \<Rightarrow> Transaction" where
  "withoutSigners t =
     \<lparr>txScript = txScript t, txArguments = txArguments t,
      txReferenceBlockId = txReferenceBlockId t, txGasLimit = txGasLimit t,
      txProposalKey = txProposalKey t, txPayer = txPayer t, txAuthorizers = txAuthorizers t,
      txPayloadSignatures = map (tsAddress_update (\<lambda>_. [])) (txPayloadSignatures t),
      txEnvelopeSignatures = map (tsAddress_update (\<lambda>_. [])) (txEnvelopeSignatures t)\<rparr>"

lemma toSignature_eq:
  "toSignature a = toSignature b \<longleftrightarrow> a\<lparr>tsAddress := []\<rparr> = b\<lparr>tsAddress := []\<rparr>"
  by (cases a, cases b) (simp add: toSignature_def ucast_key_inject)

lemma map_toSignature_eq:
  "map toSignature xs = map toSignature ys \<longleftrightarrow>
   map (tsAddress_update (\<lambda>_. [])) xs = map (tsAddress_update (\<lambda>_. [])) ys"
proof (induction xs arbitrary: ys)
  case (Cons x xs)
  then show ?case by (cases ys) (simp_all add: toSignature_eq)
qed auto

lemma toPayload_fields:
  assumes "toPayload t j = toPayload u k"
  shows "txScript t = txScript u" "txArguments t = txArguments u"
    "txReferenceBlockId t = txReferenceBlockId u" "txGasLimit t = txGasLimit u"
    "txPayer t = txPayer u" "txAuthorizers t = txAuthorizers u" "j = k"
proof -
  note eq = assms [unfolded toPayload_def flowTransactionPayload.ext_inject]
  from eq show "txScript t = txScript u" "txArguments t = txArguments u"
    "txReferenceBlockId t = txReferenceBlockId u" "txGasLimit t = txGasLimit u"
    "txPayer t = txPayer u" "txAuthorizers t = txAuthorizers u" by blast+
  from eq have "pkAddress j = pkAddress k" "pkSequenceNumber j = pkSequenceNumber k" by blast+
  moreover from eq have "pkKeyId j = pkKeyId k" unfolding ucast_key_inject by blast
  ultimately show "j = k" by simp
qed

lemma toFlowTransaction_eq:
  assumes "txProposalKey t = Some j" "txProposalKey u = Some k"
    and "toFlowTransaction t j = toFlowTransaction u k"
  shows "withoutSigners t = withoutSigners u"
proof -
  from assms(3) have p: "toPayload t j = toPayload u k"
    and s: "map toSignature (txPayloadSignatures t) = map toSignature (txPayloadSignatures u)"
      "map toSignature (txEnvelopeSignatures t) = map toSignature (txEnvelopeSignatures u)"
    by (simp_all add: toFlowTransaction_def)
  from toPayload_fields [OF p] s [unfolded map_toSignature_eq] assms(1,2) show ?thesis
    by (simp only: withoutSigners_def)
qed

lemma TransactionHash_Ok:
  "TransactionHash H t = Ok h \<longleftrightarrow>
   (\<exists>k d. txProposalKey t = Some k \<and> rlpTransaction H (toFlowTransaction t k) = Inr d \<and>
          h = sha3_256 H d)"
  by (auto simp: TransactionHash_def deriveHash_def split: option.splits sum.splits)

text \<open>
  C34. Two transactions with the same \<^verbatim>\<open>TransactionHash\<close> agree in every field except the
  signer addresses of their signatures, or their two encodings are a collision of SHA3-256: the
  hash commits to the script, the arguments, the payer, the proposal key, the authorizers and the
  two signature lists. The only hypothesis on the encoder is that RLP is injective.
\<close>

theorem transaction_hash_binding:
  assumes inj: "\<forall>x y d. rlpTransaction H x = Inr d \<longrightarrow> rlpTransaction H y = Inr d \<longrightarrow> x = y"
    and t: "TransactionHash H t = Ok h" and u: "TransactionHash H u = Ok h"
  shows "withoutSigners t = withoutSigners u \<or>
    (\<exists>j k x y. rlpTransaction H (toFlowTransaction t j) = Inr x \<and>
       rlpTransaction H (toFlowTransaction u k) = Inr y \<and> x \<noteq> y \<and> sha3_256 H x = sha3_256 H y)"
proof -
  obtain j x where t': "txProposalKey t = Some j" "rlpTransaction H (toFlowTransaction t j) = Inr x"
    "h = sha3_256 H x" using t by (auto simp: TransactionHash_Ok)
  obtain k y where u': "txProposalKey u = Some k" "rlpTransaction H (toFlowTransaction u k) = Inr y"
    "h = sha3_256 H y" using u by (auto simp: TransactionHash_Ok)
  show ?thesis
  proof (cases "x = y")
    case True
    then have "toFlowTransaction t j = toFlowTransaction u k" using inj t'(2) u'(2) by blast
    then show ?thesis using toFlowTransaction_eq t'(1) u'(1) by blast
  next
    case False
    then show ?thesis using t' u' by metis
  qed
qed

text \<open>A concrete instance: an encoder that accepts one transaction, and the identity as hash.\<close>

definition sampleKey :: ProposalKey where
  "sampleKey = \<lparr>pkAddress = [2], pkKeyId = 0, pkSequenceNumber = 7\<rparr>"

definition sampleTransaction :: "byte \<Rightarrow> Transaction" where
  "sampleTransaction a =
     \<lparr>txScript = [1], txArguments = [], txReferenceBlockId = [], txGasLimit = 9999,
      txProposalKey = Some sampleKey, txPayer = [2],
      txAuthorizers = [[2]], txPayloadSignatures = [],
      txEnvelopeSignatures = [\<lparr>tsAddress = [a], tsKeyId = 0, tsSignature = [5]\<rparr>]\<rparr>"

definition sampleHashing :: hashing where
  "sampleHashing =
     \<lparr>rlpTransaction =
        (\<lambda>x. if x = toFlowTransaction (sampleTransaction 2) sampleKey then Inr [1, 2, 3]
             else Inl ''refused''),
      rlpEnvelope = (\<lambda>x. Inr [4]), sha3_256 = (\<lambda>d. d)\<rparr>"

lemma sampleTransaction_encoding:
  "toFlowTransaction (sampleTransaction a) sampleKey = toFlowTransaction (sampleTransaction b) sampleKey"
  by (simp add: toFlowTransaction_def sampleTransaction_def toSignature_def toPayload_def)

lemma sampleTransaction_hash: "TransactionHash sampleHashing (sampleTransaction a) = Ok [1, 2, 3]"
  using sampleTransaction_encoding [of a 2]
  by (auto simp: TransactionHash_Ok sampleHashing_def sampleTransaction_def)

theorem transaction_hash_binding_witness:
  "TransactionHash sampleHashing (sampleTransaction 2) = Ok [1, 2, 3] \<and>
   withoutSigners (sampleTransaction 2) = withoutSigners (sampleTransaction 9)"
proof -
  have inj: "\<forall>x y d. rlpTransaction sampleHashing x = Inr d \<longrightarrow> rlpTransaction sampleHashing y = Inr d \<longrightarrow> x = y"
    by (simp add: sampleHashing_def)
  have sha: "sha3_256 sampleHashing x = x" for x by (simp add: sampleHashing_def)
  from transaction_hash_binding [OF inj sampleTransaction_hash [of 2] sampleTransaction_hash [of 9]] sha
  show ?thesis using sampleTransaction_hash [of 2] by simp
qed

text \<open>
  The envelope hash, which the payer signs, does not depend on the envelope signatures, so
  adding the payer's signature keeps the signed hash valid; it is computed exactly when there is a
  proposal key (a nil one is a run-time panic) and the encoder accepts the envelope.
\<close>

theorem envelope_hash_stable:
  "TransactionEnvelopeHash H (t\<lparr>txEnvelopeSignatures := sigs\<rparr>) = TransactionEnvelopeHash H t \<and>
   (isOk (TransactionEnvelopeHash H t) \<longleftrightarrow>
      (\<exists>k d. txProposalKey t = Some k \<and> rlpEnvelope H (toFlowEnvelope t k) = Inr d))"
proof
  show "TransactionEnvelopeHash H (t\<lparr>txEnvelopeSignatures := sigs\<rparr>) = TransactionEnvelopeHash H t"
    by (simp add: TransactionEnvelopeHash_def deriveHash_def toFlowEnvelope_def toPayload_def
        cong: option.case_cong)
  show "isOk (TransactionEnvelopeHash H t) \<longleftrightarrow>
      (\<exists>k d. txProposalKey t = Some k \<and> rlpEnvelope H (toFlowEnvelope t k) = Inr d)"
    by (cases "txProposalKey t")
      (auto simp: TransactionEnvelopeHash_def deriveHash_def split: sum.splits)
qed

end
