(* ===== verification/Crypto.thy ===== *)
theory Crypto
  imports Prelude
begin

section \<open>Package crypto: keys and signatures\<close>

text \<open>
  \<^verbatim>\<open>crypto/crypto.go\<close>: the conversions between the key and signature formats of Flow
  and of Rosetta (SEC compressed keys, DER signatures). The \<^verbatim>\<open>secp256k1\<close> module is not
  part of the repository: its operations are the fields of a record that the definitions take as
  an argument, and \<open>scalar_ok\<close> and \<open>pubkey_ok\<close> state what its documentation promises of
  scalars modulo the group order and of public keys.
\<close>

datatype crypto_error =
    UnexpectedLength string nat
  | UndecodableHex string
  | InvalidSignature string
  | UndecodableFlowKey bytes string
  | UndecodableRosettaKey bytes string

record ('k, 's) secp256k1 =
  ParsePubKey :: "bytes \<Rightarrow> (string, 'k) sum"
  SerializeCompressed :: "'k \<Rightarrow> bytes"
  SerializeUncompressed :: "'k \<Rightarrow> bytes"
  SetByteSlice :: "bytes \<Rightarrow> 's \<times> bool"
  IsZero :: "'s \<Rightarrow> bool"
  ScalarBytes :: "'s \<Rightarrow> bytes"

text \<open>
  A scalar set from at most 32 big-endian bytes below the group order \<open>N\<close> does not overflow, has
  that value, and is written back as 32 big-endian bytes; from the order on it overflows.
\<close>

definition scalar_ok :: "('k, 's) secp256k1 \<Rightarrow> nat \<Rightarrow> bool" where
  "scalar_ok S N \<longleftrightarrow>
     (\<forall>bs. length bs \<le> 32 \<longrightarrow>
        (be_nat bs < N \<longrightarrow>
           (\<exists>s. SetByteSlice S bs = (s, False) \<and> ScalarBytes S s = be_bytes 32 (be_nat bs) \<and>
                (IsZero S s \<longleftrightarrow> be_nat bs = 0))) \<and>
        (N \<le> be_nat bs \<longrightarrow> snd (SetByteSlice S bs)))"

text \<open>
  A parsed key can be written in both formats and parsed back, the uncompressed format is the byte
  4 before 64 bytes, and a key of 33 bytes that parses is its own compressed form.
\<close>

definition pubkey_ok :: "('k, 's) secp256k1 \<Rightarrow> bool" where
  "pubkey_ok S \<longleftrightarrow>
     (\<forall>k. \<exists>xy. SerializeUncompressed S k = 4 # xy \<and> length xy = 64 \<and>
           ParsePubKey S (SerializeUncompressed S k) = Inr k) \<and>
     (\<forall>bs k. length bs = 33 \<longrightarrow> ParsePubKey S bs = Inr k \<longrightarrow> SerializeCompressed S k = bs)"

subsection \<open>Signatures\<close>

fun stripZeros :: "bytes \<Rightarrow> bytes" where
  "stripZeros [] = []"
| "stripZeros (b # bs) = (if b = 0 then stripZeros bs else b # bs)"

definition derScalar ::
  "('k, 's) secp256k1 \<Rightarrow> string \<Rightarrow> bytes \<Rightarrow> (crypto_error, 's) outcome" where
  "derScalar S sig bs =
     (let raw = stripZeros bs
      in if length raw > 32 then Err (InvalidSignature sig)
         else (case SetByteSlice S raw of
                 (s, overflow) \<Rightarrow>
                   if overflow then Err (InvalidSignature sig)
                   else if IsZero S s then Err (InvalidSignature sig)
                   else Ok s))"

definition highBit :: "byte \<Rightarrow> bool" where
  "highBit b \<longleftrightarrow> b AND 0x80 \<noteq> 0"

text \<open>The checks of lines 42--47 and 75--80, on the characters of the hexadecimal text.\<close>

definition signChecks :: "string \<Rightarrow> nat \<Rightarrow> nat \<Rightarrow> (crypto_error, unit) outcome" where
  "signChecks sig i n =
     andThen (elemAt sig i) (\<lambda>c.
       if highBit (of_char c) then Err (InvalidSignature sig)
       else if n > 1 \<and> (of_char c :: byte) = 0 then
         andThen (elemAt sig (i + 1)) (\<lambda>d.
           if \<not> highBit (of_char d) then Err (InvalidSignature sig) else Ok ())
       else Ok ())"

definition ConvertDERSignature ::
  "('k, 's) secp256k1 \<Rightarrow> string \<Rightarrow> (crypto_error, string) outcome" where
  "ConvertDERSignature S sig =
     (if length sig < 16 \<or> length sig > 144 then Err (UnexpectedLength sig (length sig))
      else case hexDecode sig of
        None \<Rightarrow> Err (UndecodableHex sig)
      | Some raw \<Rightarrow>
         (let size = length raw in
          andThen (elemAt raw 0) (\<lambda>b0.
          if b0 \<noteq> 0x30 then Err (InvalidSignature sig) else
          andThen (elemAt raw 1) (\<lambda>b1.
          if int (unat b1) \<noteq> int size - 2 then Err (InvalidSignature sig) else
          andThen (elemAt raw 2) (\<lambda>b2.
          if b2 \<noteq> 0x02 then Err (InvalidSignature sig) else
          andThen (elemAt raw 3) (\<lambda>b3.
          let lenR = unat b3 in
          if lenR = 0 \<or> lenR > 33 then Err (InvalidSignature sig) else
          andThen (signChecks sig 4 lenR) (\<lambda>_.
          let offset = 4 + lenR in
          if offset > size then Err (InvalidSignature sig) else
          andThen (subslice raw 4 offset) (\<lambda>rawR.
          andThen (derScalar S sig rawR) (\<lambda>r.
          andThen (elemAt raw offset) (\<lambda>b.
          if b \<noteq> 0x02 then Err (InvalidSignature sig) else
          andThen (elemAt raw (offset + 1)) (\<lambda>b'.
          let lenS = unat b' in
          if lenS = 0 \<or> lenS > 33 then Err (InvalidSignature sig) else
          andThen (signChecks sig (offset + 2) lenS) (\<lambda>_.
          if offset + 2 + lenS > size then Err (InvalidSignature sig) else
          andThen (subslice raw (offset + 2) (offset + 2 + lenS)) (\<lambda>rawS.
          andThen (derScalar S sig rawS) (\<lambda>s.
          Ok (hexEncode (pad 32 (ScalarBytes S r) @ pad 32 (ScalarBytes S s)))))))))))))))))"

fun trimSign :: "bytes \<Rightarrow> bytes" where
  "trimSign (a # b # bs) = (if a = 0 \<and> \<not> highBit b then trimSign (b # bs) else a # b # bs)"
| "trimSign bs = bs"

definition ConvertFlowSignature :: "string \<Rightarrow> (crypto_error, string) outcome" where
  "ConvertFlowSignature sig =
     (if length sig \<noteq> 128 then Err (UnexpectedLength sig (length sig))
      else case hexDecode sig of
        None \<Rightarrow> Err (UndecodableHex sig)
      | Some raw \<Rightarrow>
         (let r = trimSign (0 # take 32 raw);
              s = trimSign (0 # drop 32 raw);
              size = 6 + length r + length s
          in Ok (hexEncode ([0x30, of_nat (size - 2), 0x02, of_nat (length r)] @ r @
                            [0x02, of_nat (length s)] @ s))))"

subsection \<open>Public keys\<close>

definition ConvertFlowPublicKey ::
  "('k, 's) secp256k1 \<Rightarrow> bytes \<Rightarrow> (crypto_error, bytes) outcome" where
  "ConvertFlowPublicKey S key =
     (case ParsePubKey S ([4] @ key) of
        Inl err \<Rightarrow> Err (UndecodableFlowKey key err)
      | Inr pub \<Rightarrow> Ok (SerializeCompressed S pub))"

definition ConvertRosettaPublicKey ::
  "('k, 's) secp256k1 \<Rightarrow> bytes \<Rightarrow> (crypto_error, bytes) outcome" where
  "ConvertRosettaPublicKey S key =
     (case ParsePubKey S key of
        Inl err \<Rightarrow> Err (UndecodableRosettaKey key err)
      | Inr pub \<Rightarrow>
          (let out = SerializeUncompressed S pub in subslice out 1 (length out)))"

subsection \<open>Lemmas\<close>

lemma be_nat_stripZeros [simp]: "be_nat (stripZeros bs) = be_nat bs"
  by (induction bs) auto

lemma length_stripZeros: "length (stripZeros bs) \<le> length bs"
  by (induction bs) auto

lemma stripZeros_trimSign [simp]: "stripZeros (trimSign bs) = stripZeros bs"
  by (induction bs rule: trimSign.induct) auto

lemma length_trimSign: "length (trimSign bs) \<le> length bs"
  by (induction bs rule: trimSign.induct) auto

lemma trimSign_ne: "bs \<noteq> [] \<Longrightarrow> trimSign bs \<noteq> []"
  by (induction bs rule: trimSign.induct) auto

lemma length_trimSign_bounds:
  "length bs = 32 \<Longrightarrow> 0 < length (trimSign (0 # bs)) \<and> length (trimSign (0 # bs)) \<le> 33"
  using length_trimSign [of "0 # bs"] trimSign_ne [of "0 # bs"] by auto

text \<open>The hexadecimal digits are ASCII, so the two sign checks on the text never fail.\<close>

lemma ascii_word:
  assumes "48 \<le> (of_char c :: nat)" "(of_char c :: nat) < 128"
  shows "(of_char c :: byte) \<noteq> 0 \<and> \<not> highBit (of_char c)"
proof -
  have "list_all (\<lambda>n. (of_nat n :: byte) \<noteq> 0 \<and> \<not> highBit (of_nat n)) [48..<128]" by code_simp
  moreover have "(of_nat (of_char c) :: byte) = of_char c" by (rule of_nat_of_char)
  moreover have "of_char c \<in> set [48..<128]" using assms by (simp del: upt_rec_numeral)
  ultimately show ?thesis unfolding list_all_iff by metis
qed

lemma signChecks_Ok:
  assumes "hexDecode sig = Some raw" and "i < length sig"
  shows "signChecks sig i n = Ok ()"
proof -
  have "fromHexChar (sig ! i) \<noteq> None" using hexDecode_chars assms nth_mem by blast
  from ascii_word fromHexChar_ascii [OF this] show ?thesis
    using assms(2) by (simp add: signChecks_def)
qed

lemma derScalar_Ok:
  assumes "scalar_ok S N" "length (stripZeros bs) \<le> 32" "0 < be_nat bs" "be_nat bs < N"
  shows "\<exists>s. derScalar S sig bs = Ok s \<and> ScalarBytes S s = be_bytes 32 (be_nat bs)"
proof -
  from assms obtain s where "SetByteSlice S (stripZeros bs) = (s, False)"
    "ScalarBytes S s = be_bytes 32 (be_nat bs)" "\<not> IsZero S s"
    unfolding scalar_ok_def by (metis be_nat_stripZeros not_less_zero)
  with assms(2) show ?thesis by (simp add: derScalar_def)
qed

text \<open>A well-formed DER signature is decoded to its two integers.\<close>

definition derBytes :: "bytes \<Rightarrow> bytes \<Rightarrow> bytes" where
  "derBytes R T = [0x30, of_nat (4 + length R + length T), 0x02, of_nat (length R)] @ R @
     [0x02, of_nat (length T)] @ T"

lemma derBytes_nth:
  "derBytes R T ! 0 = 0x30" "derBytes R T ! 1 = of_nat (4 + length R + length T)"
  "derBytes R T ! 2 = 0x02" "derBytes R T ! 3 = of_nat (length R)"
  "derBytes R T ! (4 + length R) = 0x02"
  "derBytes R T ! (5 + length R) = of_nat (length T)"
  by (simp_all add: derBytes_def nth_append)

lemma derBytes_slices:
  "subslice (derBytes R T) 4 (4 + length R) = Ok R"
  "subslice (derBytes R T) (6 + length R) (6 + length R + length T) = Ok T"
proof -
  show "subslice (derBytes R T) 4 (4 + length R) = Ok R" by (simp add: derBytes_def subslice_def)
  have "drop (6 + length R) (derBytes R T) = T"
    by (simp add: derBytes_def numeral_eq_Suc)
  then show "subslice (derBytes R T) (6 + length R) (6 + length R + length T) = Ok T"
    by (simp add: subslice_def) (simp add: derBytes_def)
qed

lemma ConvertDERSignature_derBytes:
  assumes S: "scalar_ok S N"
    and R: "0 < length R" "length R \<le> 33" "length (stripZeros R) \<le> 32" "0 < be_nat R" "be_nat R < N"
    and T: "0 < length T" "length T \<le> 33" "length (stripZeros T) \<le> 32" "0 < be_nat T" "be_nat T < N"
  shows "ConvertDERSignature S (hexEncode (derBytes R T)) =
    Ok (hexEncode (be_bytes 32 (be_nat R) @ be_bytes 32 (be_nat T)))"
proof -
  let ?raw = "derBytes R T" and ?sig = "hexEncode (derBytes R T)"
  have len: "length ?raw = 6 + length R + length T" by (simp add: derBytes_def)
  have small: "unat (of_nat n :: byte) = n" if "n \<le> 70" for n using that by simp
  have at: "elemAt ?raw i = Ok (?raw ! i)" if "i < 6 + length R + length T" for i
    using that len by simp
  define b1 bR bT :: byte where "b1 = of_nat (4 + length R + length T)"
    and "bR = of_nat (length R)" and "bT = of_nat (length T)"
  have e: "elemAt ?raw 0 = Ok 0x30" "elemAt ?raw 1 = Ok b1" "elemAt ?raw 2 = Ok 0x02"
    "elemAt ?raw 3 = Ok bR" "elemAt ?raw (4 + length R) = Ok 0x02" "elemAt ?raw (5 + length R) = Ok bT"
    by (simp_all only: at derBytes_nth b1_def bR_def bT_def)
  have u: "unat b1 = 4 + length R + length T" "unat bR = length R" "unat bT = length T"
    using R(2) T(2) unfolding b1_def bR_def bT_def by (simp_all only: small)
  then have ui: "uint b1 = 4 + (int (length R) + int (length T))"
    by (metis int_nat_eq of_nat_add of_nat_numeral add.assoc uint_nat)
  have pos: "\<not> 2 * length R + 2 * length T < 4" using R(1) T(1) by linarith
  from derScalar_Ok [OF S R(3-5)] obtain r where r: "derScalar S ?sig R = Ok r"
    "ScalarBytes S r = be_bytes 32 (be_nat R)" by blast
  from derScalar_Ok [OF S T(3-5)] obtain t where t: "derScalar S ?sig T = Ok t"
    "ScalarBytes S t = be_bytes 32 (be_nat T)" by blast
  have chk: "signChecks ?sig i n = Ok ()" if "i < 12 + length R + length T" for i n
    using that len by (intro signChecks_Ok [of _ ?raw]) simp_all
  show ?thesis
    using R(1,2) T(1,2) derBytes_slices [of R T]
    by (simp add: ConvertDERSignature_def Let_def len e u ui pos chk r t del: One_nat_def)
qed

lemma ConvertFlowSignature_derBytes:
  "length r = 32 \<Longrightarrow> length s = 32 \<Longrightarrow>
   ConvertFlowSignature (hexEncode (r @ s)) =
     Ok (hexEncode (derBytes (trimSign (0 # r)) (trimSign (0 # s))))"
  by (simp add: ConvertFlowSignature_def derBytes_def Let_def add.assoc
      del: of_nat_add unat_of_nat_byte)

lemma be_nat_trimSign [simp]: "be_nat (trimSign (0 # r)) = be_nat r"
  by (metis be_nat_stripZeros stripZeros.simps(2) stripZeros_trimSign)

text \<open>
  C33. Round trip of signatures: for 32-byte integers \<open>r\<close> and \<open>s\<close> between zero and the group
  order, the Flow signature converts to DER and the DER signature converts back to the same text.
\<close>

theorem signature_roundtrip:
  assumes S: "scalar_ok S N" and r: "length r = 32" "0 < be_nat r" "be_nat r < N"
    and s: "length s = 32" "0 < be_nat s" "be_nat s < N"
  shows "\<exists>der. ConvertFlowSignature (hexEncode (r @ s)) = Ok der \<and>
    ConvertDERSignature S der = Ok (hexEncode (r @ s))"
proof -
  have "length (stripZeros (trimSign (0 # bs))) \<le> 32" if "length bs = 32" for bs
    using that length_stripZeros [of bs] by simp
  then have "ConvertDERSignature S (hexEncode (derBytes (trimSign (0 # r)) (trimSign (0 # s)))) =
      Ok (hexEncode (be_bytes 32 (be_nat r) @ be_bytes 32 (be_nat s)))"
    using ConvertDERSignature_derBytes [OF S, of "trimSign (0 # r)" "trimSign (0 # s)"]
      length_trimSign_bounds [of r] length_trimSign_bounds [of s] r s by simp
  then show ?thesis
    using r s ConvertFlowSignature_derBytes [of r s] by (simp add: be_bytes_be_nat)
qed

text \<open>
  A concrete instance of the interface: a curve with two keys, of one abscissa, and scalars modulo
  1000.
\<close>

definition sampleSecp :: "(bool, nat) secp256k1" where
  "sampleSecp =
     \<lparr>ParsePubKey =
        (\<lambda>bs. if bs = 2 # replicate 32 7 \<or> bs = 4 # replicate 32 7 @ replicate 32 2 then Inr False
              else if bs = 3 # replicate 32 7 \<or> bs = 4 # replicate 32 7 @ replicate 32 3 then Inr True
              else Inl ''malformed public key''),
      SerializeCompressed = (\<lambda>k. (if k then 3 else 2) # replicate 32 7),
      SerializeUncompressed = (\<lambda>k. 4 # replicate 32 7 @ replicate 32 (if k then 3 else 2)),
      SetByteSlice = (\<lambda>bs. (be_nat bs mod 1000, 1000 \<le> be_nat bs)),
      IsZero = (\<lambda>s. s = 0), ScalarBytes = (\<lambda>s. be_bytes 32 s)\<rparr>"

lemma sampleSecp_scalar: "scalar_ok sampleSecp 1000"
  by (simp add: scalar_ok_def sampleSecp_def)

theorem signature_roundtrip_witness:
  "\<exists>der. ConvertFlowSignature (hexEncode (be_bytes 32 200 @ be_bytes 32 7)) = Ok der \<and>
     ConvertDERSignature sampleSecp der = Ok (hexEncode (be_bytes 32 200 @ be_bytes 32 7))"
  by (rule signature_roundtrip [OF sampleSecp_scalar]) (simp_all add: be_nat_be_bytes)

text \<open>
  What the decoder accepts: a result of \<^verbatim>\<open>ConvertDERSignature\<close> is the hexadecimal
  text of two 32-byte integers, both between zero and the group order.
\<close>

lemma derScalar_range:
  assumes "scalar_ok S N" and "derScalar S sig bs = Ok s"
  shows "\<exists>n. 0 < n \<and> n < N \<and> ScalarBytes S s = be_bytes 32 n"
proof -
  have len: "length (stripZeros bs) \<le> 32" and set: "SetByteSlice S (stripZeros bs) = (s, False)"
    and nz: "\<not> IsZero S s"
    using assms(2) by (auto simp: derScalar_def Let_def split: if_splits prod.splits)
  with assms(1) have "be_nat bs < N"
    unfolding scalar_ok_def by (metis be_nat_stripZeros not_le snd_conv)
  with assms(1) len set nz show ?thesis
    unfolding scalar_ok_def by (metis be_nat_stripZeros fst_conv gr_zeroI)
qed

theorem der_signature_sound:
  assumes S: "scalar_ok S N" and ok: "ConvertDERSignature S sig = Ok out"
  shows "\<exists>r s. 0 < r \<and> r < N \<and> 0 < s \<and> s < N \<and>
    out = hexEncode (be_bytes 32 r @ be_bytes 32 s)"
proof -
  from ok obtain r s rb sb where "derScalar S sig rb = Ok r" "derScalar S sig sb = Ok s"
    and out: "out = hexEncode (pad 32 (ScalarBytes S r) @ pad 32 (ScalarBytes S s))"
    by (auto simp: ConvertDERSignature_def Let_def split: if_splits option.splits)
  with derScalar_range [OF S] obtain m n where
    "0 < m" "m < N" "ScalarBytes S r = be_bytes 32 m" "0 < n" "n < N" "ScalarBytes S s = be_bytes 32 n"
    by meson
  with out show ?thesis by (intro exI [of _ m] exI [of _ n]) simp
qed

theorem der_signature_sound_witness:
  "\<exists>r s. 0 < r \<and> r < 1000 \<and> 0 < s \<and> s < 1000 \<and>
    hexEncode (be_bytes 32 1 @ be_bytes 32 5) = hexEncode (be_bytes 32 r @ be_bytes 32 s)"
proof -
  have "ConvertDERSignature sampleSecp (hexEncode (derBytes [1] [5])) =
      Ok (hexEncode (be_bytes 32 (be_nat [1]) @ be_bytes 32 (be_nat [5])))"
    by (rule ConvertDERSignature_derBytes [OF sampleSecp_scalar]) simp_all
  from der_signature_sound [OF sampleSecp_scalar this] show ?thesis by simp
qed

text \<open>
  C35. A crash of the decoder: when the integer \<open>R\<close> is well-formed and ends the signature, the
  index of the byte after it is out of range. The check of line 49 lets \<open>offset\<close> be the size.
\<close>

theorem der_signature_panic:
  assumes S: "scalar_ok S N"
    and R: "4 \<le> length R" "length R \<le> 33" "length (stripZeros R) \<le> 32" "0 < be_nat R" "be_nat R < N"
  shows "ConvertDERSignature S (hexEncode ([0x30, of_nat (2 + length R), 0x02, of_nat (length R)] @ R)) =
    Panic ''index out of range''"
proof -
  define b1 bR :: byte where "b1 = of_nat (2 + length R)" and "bR = of_nat (length R)"
  let ?raw = "[0x30, b1, 0x02, bR] @ R"
  let ?sig = "hexEncode ?raw"
  have u: "unat b1 = 2 + length R" "unat bR = length R"
    using R(2) unfolding b1_def bR_def by (simp_all only: unat_of_nat_byte, simp_all)
  then have ui: "uint b1 = 2 + int (length R)"
    by (metis of_nat_add of_nat_numeral uint_nat)
  have ne: "R \<noteq> []" using R(1) by auto
  have chk: "signChecks ?sig 4 n = Ok ()" for n
    by (rule signChecks_Ok [OF hexDecode_hexEncode]) simp
  from derScalar_Ok [OF S R(3-5)] obtain r where "derScalar S ?sig R = Ok r" by blast
  moreover have "subslice ?raw 4 (4 + length R) = Ok R" by (simp add: subslice_def)
  ultimately have "ConvertDERSignature S ?sig = Panic ''index out of range''"
    using R(1,2) ne u ui chk
    by (simp add: ConvertDERSignature_def Let_def elemAt_def del: hexEncode.simps)
  then show ?thesis by (simp only: b1_def bR_def)
qed

theorem der_signature_panic_witness:
  "ConvertDERSignature sampleSecp (hexEncode [0x30, 6, 2, 4, 0, 0, 1, 2]) = Panic ''index out of range''"
  using der_signature_panic [OF sampleSecp_scalar, of "[0, 0, 1, 2]"] by simp

lemma converted_key:
  assumes S: "pubkey_ok S" and key: "length key = 33" "ParsePubKey S key = Inr k"
  shows "\<exists>flow. ConvertRosettaPublicKey S key = Ok flow \<and> length flow = 64 \<and>
    ConvertFlowPublicKey S flow = Ok key"
proof -
  from S obtain xy where xy: "SerializeUncompressed S k = 4 # xy" "length xy = 64"
    "ParsePubKey S (SerializeUncompressed S k) = Inr k" unfolding pubkey_ok_def by blast
  moreover have "SerializeCompressed S k = key" using S key unfolding pubkey_ok_def by blast
  ultimately show ?thesis
    using key by (simp add: ConvertRosettaPublicKey_def ConvertFlowPublicKey_def subslice_def)
qed

text \<open>
  Round trip of public keys: a compressed key that \<^verbatim>\<open>secp256k1\<close> accepts converts to
  the 64 bytes of Flow's format and back to itself.
\<close>

theorem public_key_roundtrip:
  assumes S: "pubkey_ok S" and key: "length key = 33" "ParsePubKey S key = Inr k"
  shows "\<exists>flow. ConvertRosettaPublicKey S key = Ok flow \<and> length flow = 64 \<and>
    ConvertFlowPublicKey S flow = Ok key"
  by (rule converted_key [OF S key])

theorem public_key_roundtrip_witness:
  "\<exists>flow. ConvertRosettaPublicKey sampleSecp (3 # replicate 32 7) = Ok flow \<and> length flow = 64 \<and>
     ConvertFlowPublicKey sampleSecp flow = Ok (3 # replicate 32 7)"
proof (rule public_key_roundtrip)
  show "pubkey_ok sampleSecp"
    by (auto simp: pubkey_ok_def sampleSecp_def split: if_splits)
qed (simp_all add: sampleSecp_def)

end
