(* ===== verification/IndexDB.thy ===== *)
theory IndexDB
  imports Model
begin

section \<open>Package indexdb: the index of the chain\<close>

text \<open>
  \<^verbatim>\<open>indexdb/indexdb.go\<close>: the store of blocks and balances. Badger and the protobuf run
  time are not part of the repository: \<open>env\<close> holds the operations of theirs that the package
  calls, and \<open>env_ok\<close> states what their documentation promises (a sorted map from byte strings
  to byte strings, iteration in key order in both directions, atomic transactions, decoding
  inverse to encoding). A transaction is a view of the database with the pending writes; an
  iterator is the list of the items it walks. The mutex of \<^verbatim>\<open>Store\<close> protects two
  pointers that are replaced and never written through, so the methods are modelled as sequential.
  A method that changes the store returns the new store beside its outcome.
\<close>

subsection \<open>The environment: Badger and protobuf\<close>

datatype kverr = ErrKeyNotFound | KVOther string

text \<open>An iterated item: its key and the result of reading its value.\<close>

type_synonym item = "bytes \<times> (kverr, bytes) sum"

record 'db env =
  kvOpen :: "string \<Rightarrow> (string, 'db) sum"
  kvMap :: "'db \<Rightarrow> (bytes \<times> bytes) list"
  kvGet :: "'db \<Rightarrow> bytes \<Rightarrow> (kverr, bytes) sum"
  kvSeek :: "'db \<Rightarrow> bytes \<Rightarrow> item list"
  kvSeekReverse :: "'db \<Rightarrow> bytes \<Rightarrow> item list"
  kvStaleValue :: "'db \<Rightarrow> bytes \<Rightarrow> (kverr, bytes) sum"
  kvSet :: "'db \<Rightarrow> bytes \<Rightarrow> bytes \<Rightarrow> (kverr, 'db) sum"
  kvDelete :: "'db \<Rightarrow> bytes \<Rightarrow> (kverr, 'db) sum"
  kvCommit :: "'db \<Rightarrow> 'db \<Rightarrow> (kverr, 'db) sum"
  kvBatchDelete :: "'db \<Rightarrow> bytes list \<Rightarrow> 'db \<times> (string \<times> kverr) option"
  marshalBlock :: "IndexedBlock \<Rightarrow> (string, bytes) sum"
  unmarshalBlock :: "bytes \<Rightarrow> (string, IndexedBlock) sum"
  marshalMeta :: "BlockMeta \<Rightarrow> (string, bytes) sum"
  unmarshalMeta :: "bytes \<Rightarrow> (string, BlockMeta) sum"

text \<open>
  \<open>kvMap\<close> is the content of a view. Badger refuses empty keys and keys that start with
  \<^verbatim>\<open>!badger!\<close>, so the laws of the writes are about keys with another first byte.
  \<open>kvStaleValue\<close> is the value of an item that is read after its iterator has moved on, about
  which nothing is promised; \<open>kvBatchDelete\<close> gives the database after a write batch, with the
  failing step and its error if there is one.
\<close>

definition ordinary_key :: "bytes \<Rightarrow> bool" where
  "ordinary_key k \<longleftrightarrow> k \<noteq> [] \<and> hd k \<noteq> 33"

definition env_ok :: "'db env \<Rightarrow> bool" where
  "env_ok E \<longleftrightarrow>
     (\<forall>d. sorted_wrt (<) (map fst (kvMap E d))) \<and>
     (\<forall>d k. kvGet E d k = (case map_of (kvMap E d) k of None \<Rightarrow> Inl ErrKeyNotFound | Some v \<Rightarrow> Inr v)) \<and>
     (\<forall>d k. kvSeek E d k = map (\<lambda>(k', v). (k', Inr v)) (filter (\<lambda>(k', v). k \<le> k') (kvMap E d))) \<and>
     (\<forall>d k. kvSeekReverse E d k =
        map (\<lambda>(k', v). (k', Inr v)) (rev (filter (\<lambda>(k', v). k' \<le> k) (kvMap E d)))) \<and>
     (\<forall>d k v. ordinary_key k \<longrightarrow>
        (\<exists>d'. kvSet E d k v = Inr d' \<and> map_of (kvMap E d') = (map_of (kvMap E d))(k \<mapsto> v))) \<and>
     (\<forall>d k. ordinary_key k \<longrightarrow>
        (\<exists>d'. kvDelete E d k = Inr d' \<and> map_of (kvMap E d') = (map_of (kvMap E d))(k := None))) \<and>
     (\<forall>d t. kvCommit E d t = Inr t) \<and>
     (\<forall>d ks. (\<forall>k\<in>set ks. ordinary_key k) \<longrightarrow>
        (\<exists>d'. kvBatchDelete E d ks = (d', None) \<and>
              map_of (kvMap E d') = (\<lambda>k. if k \<in> set ks then None else map_of (kvMap E d) k))) \<and>
     (\<forall>b bs. marshalBlock E b = Inr bs \<longrightarrow> unmarshalBlock E bs = Inr b) \<and>
     (\<forall>m. \<exists>bs. marshalMeta E m = Inr bs \<and> unmarshalMeta E bs = Inr m)"

subsection \<open>Errors\<close>

text \<open>Errors of the closures that run inside a transaction, and of the methods around them.\<close>

datatype txn_error =
    KV kverr
  | Unmarshal string
  | InvalidBalance bytes int
  | ProxyWithoutBalance bytes

datatype db_error =
    ErrBlockNotIndexed
  | Failed string txn_error
  | Wrapped string db_error
  | Plain txn_error
  | EncodeError string string

fun liftKV :: "(kverr, 'a) sum \<Rightarrow> (txn_error, 'a) outcome" where
  "liftKV (Inl e) = Err (KV e)"
| "liftKV (Inr x) = Ok x"

fun liftCodec :: "(string, 'a) sum \<Rightarrow> (txn_error, 'a) outcome" where
  "liftCodec (Inl e) = Err (Unmarshal e)"
| "liftCodec (Inr x) = Ok x"

text \<open>The reading of the result of a single \<^verbatim>\<open>Get\<close>: a missing key is a block not indexed.\<close>

fun notIndexed :: "(txn_error \<Rightarrow> db_error) \<Rightarrow> txn_error \<Rightarrow> db_error" where
  "notIndexed w e = (if e = KV ErrKeyNotFound then ErrBlockNotIndexed else w e)"

subsection \<open>Keys\<close>

definition accountPrefix :: byte where "accountPrefix = of_char (CHR ''a'')"
definition blockPrefix :: byte where "blockPrefix = of_char (CHR ''b'')"
definition hash2HeightPrefix :: byte where "hash2HeightPrefix = of_char (CHR ''c'')"
definition height2HashPrefix :: byte where "height2HashPrefix = of_char (CHR ''d'')"
definition isProxyPrefix :: byte where "isProxyPrefix = of_char (CHR ''p'')"

definition accountKey :: "bytes \<Rightarrow> u64 \<Rightarrow> bytes" where
  "accountKey acct height = accountPrefix # pad 8 acct @ putU64 height"

definition blockKey :: "u64 \<Rightarrow> bytes" where
  "blockKey height = blockPrefix # putU64 height"

definition hash2heightKey :: "bytes \<Rightarrow> bytes" where
  "hash2heightKey hash = hash2HeightPrefix # hash"

definition height2hashKey :: "u64 \<Rightarrow> bytes" where
  "height2hashKey height = height2HashPrefix # putU64 height"

definition isProxyKey :: "bytes \<Rightarrow> u64 \<Rightarrow> bytes" where
  "isProxyKey acct height = isProxyPrefix # pad 8 acct @ putU64 height"

definition genesisKey :: bytes where "genesisKey = map of_char ''genesis''"
definition latestKey :: bytes where "latestKey = map of_char ''latest''"

subsection \<open>Data\<close>

record AccountInfo =
  aiChanges :: "(u64 \<times> u64) list"
  aiProxy :: bool

record BalanceData =
  bdBalance :: u64
  bdHash :: bytes
  bdHeight :: u64

record BlockData =
  bkBlock :: IndexedBlock
  bkHash :: bytes
  bkHeight :: u64
  bkParentHash :: bytes
  bkParentHeight :: u64

record 'db Store =
  db :: 'db
  genesis :: "BlockMeta option"
  latest :: "BlockMeta option"

definition NewStore :: "'db env \<Rightarrow> string \<Rightarrow> (db_error, 'db Store) outcome" where
  "NewStore E dir =
     (case kvOpen E dir of
        Inl err \<Rightarrow> Fatal ''Failed to open the index database''
      | Inr d \<Rightarrow> Ok \<lparr>db = d, genesis = None, latest = None\<rparr>)"

text \<open>
  \<open>scan\<close> is a forward iterator positioned on a prefix and walked while
  \<^verbatim>\<open>ValidForPrefix\<close> holds.
\<close>

definition scan :: "'db env \<Rightarrow> 'db \<Rightarrow> bytes \<Rightarrow> item list" where
  "scan E d p = takeWhile (\<lambda>(k, v). prefix p k) (kvSeek E d p)"

subsection \<open>Lookups\<close>

definition HashForHeight :: "'db env \<Rightarrow> 'db Store \<Rightarrow> u64 \<Rightarrow> (db_error, bytes) outcome" where
  "HashForHeight E s height =
     mapErr (notIndexed (Failed ''indexdb: failed to get hash for height''))
       (liftKV (kvGet E (db s) (height2hashKey height)))"

definition HeightForHash :: "'db env \<Rightarrow> 'db Store \<Rightarrow> bytes \<Rightarrow> (db_error, u64) outcome" where
  "HeightForHash E s hash =
     mapErr (notIndexed (Failed ''indexdb: failed to get height for hash''))
       (andThen (liftKV (kvGet E (db s) (hash2heightKey hash))) getU64)"

definition blockByHeight :: "'db env \<Rightarrow> 'db Store \<Rightarrow> u64 \<Rightarrow> (db_error, IndexedBlock) outcome" where
  "blockByHeight E s height =
     mapErr (notIndexed Plain)
       (andThen (liftKV (kvGet E (db s) (blockKey height))) (\<lambda>val. liftCodec (unmarshalBlock E val)))"

definition balanceByHeight :: "'db env \<Rightarrow> 'db Store \<Rightarrow> bytes \<Rightarrow> u64 \<Rightarrow> (db_error, u64) outcome" where
  "balanceByHeight E s acct height =
     (let key = accountKey acct height in
      mapErr (Failed ''indexdb: failed to get balance for account'')
        (case kvSeekReverse E (db s) key of
           [] \<Rightarrow> Ok 0
         | (k, v) # _ \<Rightarrow>
             if \<not> prefix (take 9 key) k then Ok 0
             else andThen (liftKV v) getU64))"

definition HasBalance :: "'db env \<Rightarrow> 'db Store \<Rightarrow> bytes \<Rightarrow> u64 \<Rightarrow> (db_error, bool) outcome" where
  "HasBalance E s acct height =
     (let key = accountKey acct height in
      case kvSeekReverse E (db s) key of
        [] \<Rightarrow> Ok False
      | (k, v) # _ \<Rightarrow> Ok (prefix (take 9 key) k))"

definition withParentInfo ::
  "'db env \<Rightarrow> 'db Store \<Rightarrow> bytes \<Rightarrow> u64 \<Rightarrow> BlockData \<Rightarrow> (db_error, BlockData) outcome" where
  "withParentInfo E s hash height data =
     (case genesis s of
        None \<Rightarrow> Panic ''nil pointer dereference''
      | Some g \<Rightarrow>
          if height \<noteq> bmHeight g then
            andThen (HashForHeight E s (height - 1)) (\<lambda>ph.
              Ok (data\<lparr>bkParentHash := ph, bkParentHeight := height - 1\<rparr>))
          else Ok (data\<lparr>bkParentHash := hash, bkParentHeight := height\<rparr>))"

definition BalanceByHash ::
  "'db env \<Rightarrow> 'db Store \<Rightarrow> bytes \<Rightarrow> bytes \<Rightarrow> (db_error, BalanceData) outcome" where
  "BalanceByHash E s acct hash =
     andThen (HeightForHash E s hash) (\<lambda>height.
     andThen (balanceByHeight E s acct height) (\<lambda>balance.
     Ok \<lparr>bdBalance = balance, bdHash = hash, bdHeight = height\<rparr>))"

definition BalanceByHeight ::
  "'db env \<Rightarrow> 'db Store \<Rightarrow> bytes \<Rightarrow> u64 \<Rightarrow> (db_error, BalanceData) outcome" where
  "BalanceByHeight E s acct height =
     andThen (balanceByHeight E s acct height) (\<lambda>balance.
     andThen (HashForHeight E s height) (\<lambda>hash.
     Ok \<lparr>bdBalance = balance, bdHash = hash, bdHeight = height\<rparr>))"

definition BlockByHash :: "'db env \<Rightarrow> 'db Store \<Rightarrow> bytes \<Rightarrow> (db_error, BlockData) outcome" where
  "BlockByHash E s hash =
     andThen (HeightForHash E s hash) (\<lambda>height.
     andThen (blockByHeight E s height) (\<lambda>block.
     withParentInfo E s hash height
       \<lparr>bkBlock = block, bkHash = hash, bkHeight = height, bkParentHash = [], bkParentHeight = 0\<rparr>))"

definition BlockByHeight :: "'db env \<Rightarrow> 'db Store \<Rightarrow> u64 \<Rightarrow> (db_error, BlockData) outcome" where
  "BlockByHeight E s height =
     andThen (HashForHeight E s height) (\<lambda>hash.
     andThen (blockByHeight E s height) (\<lambda>block.
     withParentInfo E s hash height
       \<lparr>bkBlock = block, bkHash = hash, bkHeight = height, bkParentHash = [], bkParentHeight = 0\<rparr>))"

text \<open>
  \<^verbatim>\<open>Genesis\<close> and \<^verbatim>\<open>Latest\<close> read the cached pointer, or the stored value,
  which they cache; nil if nothing is stored, and any other failure terminates the process.
\<close>

definition readMeta :: "'db env \<Rightarrow> 'db Store \<Rightarrow> bytes \<Rightarrow> (txn_error, BlockMeta) outcome" where
  "readMeta E s key =
     andThen (liftKV (kvGet E (db s) key)) (\<lambda>val. liftCodec (unmarshalMeta E val))"

definition Genesis :: "'db env \<Rightarrow> 'db Store \<Rightarrow> 'db Store \<times> (db_error, BlockMeta option) outcome" where
  "Genesis E s =
     (case genesis s of
        Some g \<Rightarrow> (s, Ok (Some (Clone g)))
      | None \<Rightarrow>
          (case readMeta E s genesisKey of
             Ok g \<Rightarrow> (s\<lparr>genesis := Some g\<rparr>, Ok (Some (Clone g)))
           | Err e \<Rightarrow>
               (s, if e \<noteq> KV ErrKeyNotFound then Fatal ''Failed to get genesis block from the index database''
                   else Ok None)
           | Panic p \<Rightarrow> (s, Panic p)
           | Fatal m \<Rightarrow> (s, Fatal m)))"

definition Latest :: "'db env \<Rightarrow> 'db Store \<Rightarrow> 'db Store \<times> (db_error, BlockMeta option) outcome" where
  "Latest E s =
     (case latest s of
        Some l \<Rightarrow> (s, Ok (Some (Clone l)))
      | None \<Rightarrow>
          (case readMeta E s latestKey of
             Ok l \<Rightarrow> (s\<lparr>latest := Some l\<rparr>, Ok (Some (Clone l)))
           | Err e \<Rightarrow>
               (s, if e \<noteq> KV ErrKeyNotFound then Fatal ''Failed to get latest block from the index database''
                   else Ok None)
           | Panic p \<Rightarrow> (s, Panic p)
           | Fatal m \<Rightarrow> (s, Fatal m)))"

subsection \<open>Enumerations of the accounts\<close>

definition acctOf :: "bytes \<Rightarrow> (txn_error, bytes) outcome" where
  "acctOf key = subslice key 1 9"

fun accountsLoop :: "item list \<Rightarrow> (bytes, bool) gomap \<Rightarrow> (txn_error, (bytes, bool) gomap) outcome" where
  "accountsLoop [] accts = Ok accts"
| "accountsLoop ((key, v) # its) accts =
     andThen (acctOf key) (\<lambda>acct. accountsLoop its (mput accts acct False))"

fun proxiesLoop :: "item list \<Rightarrow> (bytes, bool) gomap \<Rightarrow> (txn_error, (bytes, bool) gomap) outcome" where
  "proxiesLoop [] accts = Ok accts"
| "proxiesLoop ((key, v) # its) accts =
     andThen (acctOf key) (\<lambda>acct.
       if \<not> mhas accts acct then Err (ProxyWithoutBalance acct)
       else proxiesLoop its (mput accts acct True))"

definition Accounts :: "'db env \<Rightarrow> 'db Store \<Rightarrow> (db_error, (bytes, bool) gomap) outcome" where
  "Accounts E s =
     mapErr (Failed ''indexdb: failed to get all accounts'')
       (andThen (accountsLoop (scan E (db s) [accountPrefix]) []) (\<lambda>accts.
        proxiesLoop (scan E (db s) [isProxyPrefix]) accts))"

fun infoLoop ::
  "item list \<Rightarrow> (string, AccountInfo) gomap \<Rightarrow> (txn_error, (string, AccountInfo) gomap) outcome" where
  "infoLoop [] data = Ok data"
| "infoLoop ((key, v) # its) data =
     andThen (acctOf key) (\<lambda>a.
       let acct = hexEncode a;
           info = mget \<lparr>aiChanges = [], aiProxy = False\<rparr> data acct
       in andThen (andThen (liftKV v) getU64) (\<lambda>balance.
          andThen (andThen (subslice key 9 (length key)) getU64) (\<lambda>height.
          infoLoop its (mput data acct (info\<lparr>aiChanges := aiChanges info @ [(height, balance)]\<rparr>)))))"

fun infoProxyLoop ::
  "item list \<Rightarrow> (string, AccountInfo) gomap \<Rightarrow> (txn_error, (string, AccountInfo) gomap) outcome" where
  "infoProxyLoop [] data = Ok data"
| "infoProxyLoop ((key, v) # its) data =
     andThen (acctOf key) (\<lambda>a.
       case map_of data (hexEncode a) of
         None \<Rightarrow> Err (ProxyWithoutBalance a)
       | Some info \<Rightarrow> infoProxyLoop its (mput data (hexEncode a) (info\<lparr>aiProxy := True\<rparr>)))"

definition AccountsInfo :: "'db env \<Rightarrow> 'db Store \<Rightarrow> (db_error, (string, AccountInfo) gomap) outcome" where
  "AccountsInfo E s =
     andThen
       (mapErr (Failed ''indexdb: failed to process indexed accounts'')
          (infoLoop (scan E (db s) [accountPrefix]) [])) (\<lambda>data.
     mapErr (Failed ''indexdb: failed to process proxy accounts'')
       (infoProxyLoop (scan E (db s) [isProxyPrefix]) data))"

subsection \<open>Writes\<close>

text \<open>\<^verbatim>\<open>db.Update\<close>: the closure runs on a view, which is committed if it succeeds.\<close>

definition updateDB ::
  "'db env \<Rightarrow> 'db \<Rightarrow> ('db \<Rightarrow> (txn_error, 'db) outcome) \<Rightarrow> (txn_error, 'db) outcome" where
  "updateDB E d f = andThen (f d) (\<lambda>t. liftKV (kvCommit E d t))"

fun setAll :: "'db env \<Rightarrow> 'db \<Rightarrow> (bytes \<times> bytes) list \<Rightarrow> (txn_error, 'db) outcome" where
  "setAll E t [] = Ok t"
| "setAll E t ((k, v) # kvs) = andThen (liftKV (kvSet E t k v)) (\<lambda>t'. setAll E t' kvs)"

fun deleteAll :: "'db env \<Rightarrow> 'db \<Rightarrow> bytes list \<Rightarrow> (txn_error, 'db) outcome" where
  "deleteAll E t [] = Ok t"
| "deleteAll E t (k # ks) = andThen (liftKV (kvDelete E t k)) (\<lambda>t'. deleteAll E t' ks)"

text \<open>
  The balance changes of a block, as a Go map of signed 64-bit integers, and the keys of the
  proxy accounts it creates.
\<close>

definition indexOp ::
  "u64 \<Rightarrow> Operation \<Rightarrow> (bytes, u64) gomap \<times> bytes list \<Rightarrow> (db_error, (bytes, u64) gomap \<times> bytes list) outcome" where
  "indexOp height op st =
     (case st of (accts, proxyAccts) \<Rightarrow>
        if opType op \<in> {FEE, TRANSFER, PROXY_TRANSFER} then
          (let accts1 =
                 (if length (opAccount op) > 0
                  then mput accts (opAccount op) (mget 0 accts (opAccount op) - opAmount op) else accts);
               accts2 =
                 (if length (opReceiver op) > 0
                  then mput accts1 (opReceiver op) (mget 0 accts1 (opReceiver op) + opAmount op) else accts1)
           in Ok (accts2, proxyAccts))
        else if opType op = CREATE_ACCOUNT then
          Ok (if \<not> mhas accts (opAccount op) then mput accts (opAccount op) 0 else accts,
              if length (opProxyPublicKey op) > 0 then proxyAccts @ [isProxyKey (opAccount op) height]
              else proxyAccts)
        else Fatal ''Unknown transaction operation type'')"

fun indexOps ::
  "u64 \<Rightarrow> Operation list \<Rightarrow> (bytes, u64) gomap \<times> bytes list \<Rightarrow> (db_error, (bytes, u64) gomap \<times> bytes list) outcome" where
  "indexOps height [] st = Ok st"
| "indexOps height (op # ops) st = andThen (indexOp height op st) (indexOps height ops)"

definition blockOps :: "IndexedBlock \<Rightarrow> Operation list" where
  "blockOps block = concat (map itOperations (ibTransactions block))"

definition currentBalance :: "'db env \<Rightarrow> 'db \<Rightarrow> bytes \<Rightarrow> (txn_error, u64) outcome" where
  "currentBalance E t key =
     (case kvSeekReverse E t key of
        [] \<Rightarrow> Ok 0
      | (k, v) # rest \<Rightarrow>
          if prefix (take 9 key) k then
            (if k = key then
               (case rest of
                  [] \<Rightarrow> Ok 0
                | (k', _) # _ \<Rightarrow>
                    if prefix (take 9 key) k' then andThen (liftKV (kvStaleValue E t k)) getU64 else Ok 0)
             else andThen (liftKV v) getU64)
          else Ok 0)"

fun applyUpdates :: "'db env \<Rightarrow> 'db \<Rightarrow> (u64 \<times> bytes) list \<Rightarrow> (txn_error, 'db) outcome" where
  "applyUpdates E t [] = Ok t"
| "applyUpdates E t ((diff, key) # us) =
     andThen (currentBalance E t key) (\<lambda>cur.
       let val = cur + diff in
       if sint val < 0 then Err (InvalidBalance (take 8 (drop 1 key)) (sint val))
       else andThen (liftKV (kvSet E t key (putU64 val))) (\<lambda>t'. applyUpdates E t' us))"

text \<open>The writes of a block, lines 447--475 and 520--537.\<close>

definition indexWrites :: "bytes list \<Rightarrow> u64 \<Rightarrow> bytes \<Rightarrow> bytes \<Rightarrow> bytes \<Rightarrow> (bytes \<times> bytes) list" where
  "indexWrites proxyAccts height hash blockValue latestEnc =
     map (\<lambda>k. (k, [of_char (CHR ''1'')])) proxyAccts @
     [(blockKey height, blockValue), (hash2heightKey hash, putU64 height),
      (height2hashKey height, hash), (latestKey, latestEnc)]"

definition Index ::
  "'db env \<Rightarrow> ((bytes \<times> u64) list \<Rightarrow> (bytes \<times> u64) list) \<Rightarrow> 'db Store \<Rightarrow> u64 \<Rightarrow> bytes \<Rightarrow> IndexedBlock
     \<Rightarrow> 'db Store \<times> (db_error, unit) outcome" where
  "Index E ord s height hash block =
     (case latest s of
        None \<Rightarrow> (s, Panic ''nil pointer dereference'')
      | Some l \<Rightarrow>
         if bmHeight l \<ge> height then (s, Ok ())
         else if height \<noteq> bmHeight l + 1 then (s, Fatal ''Invalid index request for height'')
         else
           (case andThen (indexOps height (blockOps block) ([], [])) (\<lambda>(accts, proxyAccts).
                   case marshalBlock E block of
                     Inl _ \<Rightarrow> Fatal ''Failed to encode model.IndexedBlock''
                   | Inr blockValue \<Rightarrow>
                  (let newLatest = \<lparr>bmHash = hash, bmHeight = height, bmParent = [], bmTimestamp = ibTimestamp block\<rparr>
                   in case marshalMeta E newLatest of
                     Inl _ \<Rightarrow> Fatal ''Failed to encode model.BlockMeta''
                   | Inr latestEnc \<Rightarrow>
                     (let updates = map (\<lambda>(acct, diff). (diff, accountKey acct height)) (ord accts)
                      in mapErr (Failed ''indexdb: got error indexing block'')
                          (andThen (updateDB E (db s) (\<lambda>t.
                             andThen (applyUpdates E t updates) (\<lambda>t'.
                             setAll E t' (indexWrites proxyAccts height hash blockValue latestEnc))))
                           (\<lambda>d. Ok (d, newLatest)))))) of
              Ok (d, newLatest) \<Rightarrow>
                (if bmHeight newLatest = bmHeight l + 1 then s\<lparr>db := d, latest := Some newLatest\<rparr>
                 else s\<lparr>db := d\<rparr>, Ok ())
            | Err e \<Rightarrow> (s, Err e)
            | Panic p \<Rightarrow> (s, Panic p)
            | Fatal m \<Rightarrow> (s, Fatal m)))"

definition SetGenesis :: "'db env \<Rightarrow> 'db Store \<Rightarrow> BlockMeta \<Rightarrow> 'db Store \<times> (db_error, unit) outcome" where
  "SetGenesis E s val0 =
     (let val = Clone val0 in
      case marshalMeta E val of
        Inl err \<Rightarrow> (s, Err (EncodeError ''indexdb: failed to encode genesis value'' err))
      | Inr gen \<Rightarrow>
         (case marshalBlock E \<lparr>ibTimestamp = bmTimestamp val, ibTransactions = []\<rparr> of
            Inl _ \<Rightarrow> (s, Fatal ''Failed to encode model.IndexedBlock'')
          | Inr blockValue \<Rightarrow>
             (case mapErr (Failed ''indexdb: failed to set genesis value'')
                 (updateDB E (db s) (\<lambda>t.
                    setAll E t
                      [(genesisKey, gen), (blockKey (bmHeight val), blockValue),
                       (hash2heightKey (bmHash val), putU64 (bmHeight val)),
                       (height2hashKey (bmHeight val), bmHash val), (latestKey, gen)])) of
                Ok d \<Rightarrow> (s\<lparr>db := d, genesis := Some val, latest := Some val\<rparr>, Ok ())
              | Err e \<Rightarrow> (s, Err e)
              | Panic p \<Rightarrow> (s, Panic p)
              | Fatal m \<Rightarrow> (s, Fatal m))))"

subsection \<open>Deletions\<close>

fun keysAbove :: "u64 \<Rightarrow> item list \<Rightarrow> (txn_error, bytes list) outcome" where
  "keysAbove base [] = Ok []"
| "keysAbove base ((key, v) # its) =
     andThen (andThen (subslice key 9 (length key)) getU64) (\<lambda>height.
     andThen (keysAbove base its) (\<lambda>ks.
     Ok (if height > base then key # ks else ks)))"

text \<open>The scan of the height keys: the keys to delete, and the last height that stays.\<close>

fun blocksAbove :: "u64 \<Rightarrow> item list \<Rightarrow> bytes list \<times> u64 \<Rightarrow> (txn_error, bytes list \<times> u64) outcome" where
  "blocksAbove base [] (ks, lastH) = Ok (ks, lastH)"
| "blocksAbove base ((key, v) # its) (ks, lastH) =
     andThen (andThen (subslice key 1 (length key)) getU64) (\<lambda>height.
       if height > base then
         andThen (liftKV v) (\<lambda>hash.
           blocksAbove base its (ks @ [key, blockKey height, hash2heightKey hash], lastH))
       else blocksAbove base its (ks, height))"

definition resetKeys :: "'db env \<Rightarrow> 'db \<Rightarrow> u64 \<Rightarrow> (db_error, bytes list \<times> u64) outcome" where
  "resetKeys E d base =
     andThen (mapErr (Failed ''indexdb: failed to get account balance keys to delete'')
       (keysAbove base (scan E d [accountPrefix]))) (\<lambda>accountKeys.
     andThen (mapErr (Failed ''indexdb: failed to get proxy account keys to delete'')
       (keysAbove base (scan E d [isProxyPrefix]))) (\<lambda>proxyKeys.
     mapErr (Failed ''indexdb: failed to get keys to delete'')
       (blocksAbove base (scan E d [height2HashPrefix]) (accountKeys @ proxyKeys, 0))))"

text \<open>The end of \<^verbatim>\<open>ResetTo\<close>, lines 748--774, on the store after the deletions.\<close>

definition resetLatest :: "'db env \<Rightarrow> 'db Store \<Rightarrow> u64 \<Rightarrow> 'db Store \<times> (db_error, unit) outcome" where
  "resetLatest E s lastH =
     (case andThen (mapErr (Wrapped ''indexdb: failed to get block'') (blockByHeight E s lastH)) (\<lambda>block.
           andThen (mapErr (Wrapped ''indexdb: failed to get block hash'') (HashForHeight E s lastH)) (\<lambda>hash.
             let newLatest = \<lparr>bmHash = hash, bmHeight = lastH, bmParent = [], bmTimestamp = ibTimestamp block\<rparr>
             in case marshalMeta E newLatest of
                  Inl _ \<Rightarrow> Fatal ''Failed to encode model.BlockMeta''
                | Inr latestEnc \<Rightarrow>
                    mapErr (Failed ''indexdb: failed to set latest value'')
                      (andThen (updateDB E (db s) (\<lambda>t. liftKV (kvSet E t latestKey latestEnc)))
                        (\<lambda>d. Ok (d, newLatest))))) of
        Ok (d, newLatest) \<Rightarrow> (s\<lparr>db := d, latest := Some newLatest\<rparr>, Ok ())
      | Err e \<Rightarrow> (s, Err e)
      | Panic p \<Rightarrow> (s, Panic p)
      | Fatal m \<Rightarrow> (s, Fatal m))"

definition ResetTo :: "'db env \<Rightarrow> 'db Store \<Rightarrow> u64 \<Rightarrow> 'db Store \<times> (db_error, unit) outcome" where
  "ResetTo E s0 base =
     (case Latest E s0 of
        (s, Ok None) \<Rightarrow> (s, Panic ''nil pointer dereference'')
      | (s, Ok (Some l)) \<Rightarrow>
          if bmHeight l \<le> base then (s, Ok ())
          else
            (case resetKeys E (db s) base of
               Ok (delKeys, lastH) \<Rightarrow>
                 (case kvBatchDelete E (db s) (sort delKeys) of
                    (d, Some (msg, e)) \<Rightarrow> (s\<lparr>db := d\<rparr>, Err (Failed msg (KV e)))
                  | (d, None) \<Rightarrow> resetLatest E (s\<lparr>db := d\<rparr>) lastH)
             | Err e \<Rightarrow> (s, Err e)
             | Panic p \<Rightarrow> (s, Panic p)
             | Fatal m \<Rightarrow> (s, Fatal m))
      | (s, Err e) \<Rightarrow> (s, Err e)
      | (s, Panic p) \<Rightarrow> (s, Panic p)
      | (s, Fatal m) \<Rightarrow> (s, Fatal m))"

fun proxyKeysLoop :: "item list \<Rightarrow> (bytes, bytes) gomap \<Rightarrow> (txn_error, (bytes, bytes) gomap) outcome" where
  "proxyKeysLoop [] accts = Ok accts"
| "proxyKeysLoop ((key, v) # its) accts =
     andThen (acctOf key) (\<lambda>acct. proxyKeysLoop its (mput accts acct key))"

fun balanceKeysLoop :: "(bytes, bytes) gomap \<Rightarrow> item list \<Rightarrow> (txn_error, bytes list) outcome" where
  "balanceKeysLoop accts [] = Ok []"
| "balanceKeysLoop accts ((key, v) # its) =
     andThen (acctOf key) (\<lambda>acct.
     andThen (balanceKeysLoop accts its) (\<lambda>ks.
     Ok (if mhas accts acct then key # ks else ks)))"

definition PurgeProxyAccounts ::
  "'db env \<Rightarrow> ((bytes \<times> bytes) list \<Rightarrow> (bytes \<times> bytes) list) \<Rightarrow> 'db Store \<Rightarrow> 'db Store \<times> (db_error, unit) outcome" where
  "PurgeProxyAccounts E ord s =
     (case andThen (proxyKeysLoop (scan E (db s) [isProxyPrefix]) []) (\<lambda>accts.
           andThen (balanceKeysLoop accts (scan E (db s) [accountPrefix])) (\<lambda>ks.
           updateDB E (db s) (\<lambda>t.
             andThen (deleteAll E t (map snd (ord accts))) (\<lambda>t'. deleteAll E t' ks)))) of
        Ok d \<Rightarrow> (s\<lparr>db := d\<rparr>, Ok ())
      | Err e \<Rightarrow> (s, Fatal ''Failed to purge proxy accounts data'')
      | Panic p \<Rightarrow> (s, Panic p)
      | Fatal m \<Rightarrow> (s, Fatal m))"

end
