(* ===== verification/IndexKeys.thy ===== *)
theory IndexKeys
  imports IndexDB
begin

section \<open>Keys, iterators and transactions of the index\<close>

text \<open>
  The facts about \<^verbatim>\<open>indexdb\<close> that do not mention the chain: the keys as an injective
  encoding of a datatype, what a scan and a reverse seek return under the laws \<open>env_ok\<close>, and the
  content of the database after a list of writes or deletions.
\<close>

subsection \<open>The laws, one at a time\<close>

abbreviation content :: "'db env \<Rightarrow> 'db \<Rightarrow> bytes \<Rightarrow> bytes option" where
  "content E d \<equiv> map_of (kvMap E d)"

lemma env_sorted: "env_ok E \<Longrightarrow> sorted_wrt (<) (map fst (kvMap E d))"
  by (simp add: env_ok_def)

lemma env_get:
  "env_ok E \<Longrightarrow> kvGet E d k = (case content E d k of None \<Rightarrow> Inl ErrKeyNotFound | Some v \<Rightarrow> Inr v)"
  by (simp add: env_ok_def)

lemma env_seek:
  "env_ok E \<Longrightarrow> kvSeek E d k = map (\<lambda>(k', v). (k', Inr v)) (filter (\<lambda>(k', v). k \<le> k') (kvMap E d))"
  by (simp add: env_ok_def)

lemma env_seekReverse:
  "env_ok E \<Longrightarrow> kvSeekReverse E d k =
     map (\<lambda>(k', v). (k', Inr v)) (rev (filter (\<lambda>(k', v). k' \<le> k) (kvMap E d)))"
  by (simp add: env_ok_def)

lemma env_set:
  "env_ok E \<Longrightarrow> ordinary_key k \<Longrightarrow>
   \<exists>d'. kvSet E d k v = Inr d' \<and> content E d' = (content E d)(k \<mapsto> v)"
  unfolding env_ok_def by blast

lemma env_delete:
  "env_ok E \<Longrightarrow> ordinary_key k \<Longrightarrow>
   \<exists>d'. kvDelete E d k = Inr d' \<and> content E d' = (content E d)(k := None)"
  unfolding env_ok_def by blast

lemma env_commit: "env_ok E \<Longrightarrow> kvCommit E d t = Inr t"
  by (simp add: env_ok_def)

lemma env_batch:
  "env_ok E \<Longrightarrow> \<forall>k\<in>set ks. ordinary_key k \<Longrightarrow>
   \<exists>d'. kvBatchDelete E d ks = (d', None) \<and>
        content E d' = (\<lambda>k. if k \<in> set ks then None else content E d k)"
  unfolding env_ok_def by blast

lemma env_block: "env_ok E \<Longrightarrow> marshalBlock E b = Inr bs \<Longrightarrow> unmarshalBlock E bs = Inr b"
  by (simp add: env_ok_def)

lemma env_meta: "env_ok E \<Longrightarrow> \<exists>bs. marshalMeta E m = Inr bs \<and> unmarshalMeta E bs = Inr m"
  by (simp add: env_ok_def)

lemma env_distinct: "env_ok E \<Longrightarrow> distinct (map fst (kvMap E d))"
  using env_sorted [of E d] by (simp only: strict_sorted_iff)

lemma env_content:
  "env_ok E \<Longrightarrow> content E d k = Some v \<longleftrightarrow> (k, v) \<in> set (kvMap E d)"
  by (rule map_of_eq_Some_iff) (rule env_distinct)

subsection \<open>Keys as a datatype\<close>

datatype key =
    KAccount bytes u64
  | KBlock u64
  | KHash bytes
  | KHeight u64
  | KProxy bytes u64
  | KGenesis
  | KLatest

fun encKey :: "key \<Rightarrow> bytes" where
  "encKey (KAccount a h) = accountKey a h"
| "encKey (KBlock h) = blockKey h"
| "encKey (KHash x) = hash2heightKey x"
| "encKey (KHeight h) = height2hashKey h"
| "encKey (KProxy a h) = isProxyKey a h"
| "encKey KGenesis = genesisKey"
| "encKey KLatest = latestKey"

fun wfKey :: "key \<Rightarrow> bool" where
  "wfKey (KAccount a h) \<longleftrightarrow> length a = 8"
| "wfKey (KProxy a h) \<longleftrightarrow> length a = 8"
| "wfKey _ \<longleftrightarrow> True"

lemmas prefix_defs =
  accountPrefix_def blockPrefix_def hash2HeightPrefix_def height2HashPrefix_def isProxyPrefix_def

lemmas key_defs =
  accountKey_def blockKey_def hash2heightKey_def height2hashKey_def isProxyKey_def genesisKey_def
  latestKey_def

lemma prefix_values:
  "accountPrefix = 97" "blockPrefix = 98" "hash2HeightPrefix = 99" "height2HashPrefix = 100"
  "isProxyPrefix = 112"
  by (simp_all add: prefix_defs)

lemma metaKey_values:
  "genesisKey = [103, 101, 110, 101, 115, 105, 115]" "latestKey = [108, 97, 116, 101, 115, 116]"
  by (simp_all add: key_defs)

lemma encKey_inject [simp]: "wfKey j \<Longrightarrow> wfKey k \<Longrightarrow> encKey j = encKey k \<longleftrightarrow> j = k"
  by (cases j; cases k)
    (simp_all add: accountKey_def blockKey_def hash2heightKey_def height2hashKey_def isProxyKey_def
      metaKey_values prefix_values)

lemma ordinary_encKey [simp]: "ordinary_key (encKey k)"
  by (cases k)
    (simp_all add: ordinary_key_def accountKey_def blockKey_def hash2heightKey_def
      height2hashKey_def isProxyKey_def metaKey_values prefix_values)

lemma prefix_encKey:
  "prefix [accountPrefix] (encKey k) \<longleftrightarrow> (\<exists>a h. k = KAccount a h)"
  "prefix [isProxyPrefix] (encKey k) \<longleftrightarrow> (\<exists>a h. k = KProxy a h)"
  "prefix [height2HashPrefix] (encKey k) \<longleftrightarrow> (\<exists>h. k = KHeight h)"
  by (cases k; simp add: accountKey_def blockKey_def hash2heightKey_def height2hashKey_def
      isProxyKey_def metaKey_values prefix_values)+

lemma take_accountKey: "take 9 (accountKey a h) = accountPrefix # pad 8 a"
  by (simp add: accountKey_def)

lemma prefix_account_encKey:
  assumes "length a = 8" "wfKey k" "prefix (accountPrefix # pad 8 a) (encKey k)"
  shows "\<exists>h. k = KAccount a h"
proof -
  from assms(3) have "prefix [accountPrefix] (encKey k)" by (cases "encKey k") auto
  then obtain b h where k: "k = KAccount b h" unfolding prefix_encKey by blast
  with assms have "prefix a (b @ putU64 h)" "length b = length a" by (simp_all add: accountKey_def)
  then have "a = b" by (metis append_eq_append_conv prefix_def append.assoc)
  with k show ?thesis by simp
qed

lemma accountKey_le:
  "length a = 8 \<Longrightarrow> accountKey a h \<le> accountKey a h' \<longleftrightarrow> h \<le> h'"
  by (simp add: accountKey_def)

lemma height2hashKey_less [simp]: "height2hashKey h < height2hashKey h' \<longleftrightarrow> h < h'"
  by (simp add: height2hashKey_def)

lemma accountKey_parts:
  "length a = 8 \<Longrightarrow> acctOf (accountKey a h) = Ok a"
  "length a = 8 \<Longrightarrow> acctOf (isProxyKey a h) = Ok a"
  "length a = 8 \<Longrightarrow> andThen (subslice (accountKey a h) 9 (length (accountKey a h))) getU64 = Ok h"
  "length a = 8 \<Longrightarrow> andThen (subslice (isProxyKey a h) 9 (length (isProxyKey a h))) getU64 = Ok h"
  "andThen (subslice (height2hashKey h) 1 (length (height2hashKey h))) getU64 = Ok h"
  by (simp_all add: acctOf_def accountKey_def isProxyKey_def height2hashKey_def subslice_def)

subsection \<open>Scans\<close>

text \<open>The keys with a given first byte are contiguous, so a scan returns all of them.\<close>

lemma takeWhile_filter_prefix:
  "sorted_wrt (<) (map fst xs) \<Longrightarrow>
   takeWhile (\<lambda>(k, v). prefix [c] k) (filter (\<lambda>(k, v). [c] \<le> k) xs) =
   filter (\<lambda>(k, v). prefix [c] k) xs" for xs :: "(bytes \<times> 'b) list"
proof (induction xs)
  case Nil
  then show ?case by simp
next
  case (Cons x xs)
  obtain k v where x: "x = (k, v)" by force
  have rest: "sorted_wrt (<) (map fst xs)" and above: "\<And>k' v'. (k', v') \<in> set xs \<Longrightarrow> k < k'"
    using Cons.prems x by force+
  have ge: "prefix [c] k \<Longrightarrow> [c] \<le> k" for k :: bytes
    by (auto simp: prefix_def)
  show ?case
  proof (cases "[c] \<le> k \<and> \<not> prefix [c] k")
    case True
    have "\<not> prefix [c] k'" if "(k', v') \<in> set xs" for k' v'
    proof
      assume "prefix [c] k'"
      then obtain r where "k' = [c] @ r" by (auto simp: prefix_def)
      with above [OF that] have "k \<le> [c] @ r" by simp
      with between_prefix [of "[c]" "[]" k r] True show False by simp
    qed
    then have "filter (\<lambda>(k, v). prefix [c] k) xs = []" by (auto simp: filter_empty_conv)
    with True x show ?thesis by simp
  next
    case False
    then show ?thesis using Cons.IH [OF rest] x ge [of k] by (cases "prefix [c] k") auto
  qed
qed

lemma scan_eq:
  "env_ok E \<Longrightarrow>
   scan E d [c] = map (\<lambda>(k, v). (k, Inr v)) (filter (\<lambda>(k, v). prefix [c] k) (kvMap E d))"
proof -
  assume E: "env_ok E"
  have "takeWhile ((\<lambda>(k, v). prefix [c] k) \<circ> (\<lambda>(k, v). (k, Inr v :: (kverr, bytes) sum))) xs =
      takeWhile (\<lambda>(k, v). prefix [c] k) xs" for xs :: "(bytes \<times> bytes) list"
    by (rule takeWhile_cong) auto
  then show ?thesis
    unfolding scan_def env_seek [OF E] takeWhile_map
    by (simp only: takeWhile_filter_prefix [OF env_sorted [OF E]])
qed

subsection \<open>Reverse seeks\<close>

lemma seekReverse_head:
  assumes E: "env_ok E"
  shows "(kvSeekReverse E d key = [] \<and> (\<forall>k. content E d k \<noteq> None \<longrightarrow> \<not> k \<le> key)) \<or>
    (\<exists>k v rest. kvSeekReverse E d key = (k, Inr v) # rest \<and> content E d k = Some v \<and> k \<le> key \<and>
       (\<forall>k'. content E d k' \<noteq> None \<longrightarrow> k' \<le> key \<longrightarrow> k' \<le> k))"
proof (cases "filter (\<lambda>(k', v). k' \<le> key) (kvMap E d)" rule: rev_cases)
  case Nil
  then have "\<not> k \<le> key" if "content E d k = Some v" for k v
    using that unfolding env_content [OF E] filter_empty_conv by auto
  with Nil show ?thesis by (auto simp: env_seekReverse [OF E])
next
  case (snoc ys y)
  obtain k v where y: "y = (k, v)" by force
  have mem: "(k, v) \<in> set (kvMap E d)" "k \<le> key"
  proof -
    have "y \<in> set (filter (\<lambda>(k', v). k' \<le> key) (kvMap E d))" unfolding snoc by simp
    with y show "(k, v) \<in> set (kvMap E d)" "k \<le> key" by simp_all
  qed
  have "sorted_wrt (\<lambda>p q. fst p < fst q) (kvMap E d)"
    using env_sorted [OF E, of d] by (simp add: sorted_wrt_map)
  then have "sorted_wrt (\<lambda>p q. fst p < fst q) (ys @ [y])"
    unfolding snoc [symmetric] by (rule sorted_wrt_filter)
  then have max: "k' \<le> k" if "(k', v') \<in> set (ys @ [y])" for k' v'
    using that y by (force simp: sorted_wrt_append)
  have "k' \<le> k" if "content E d k' = Some v'" "k' \<le> key" for k' v'
    using that max [of k' v'] unfolding env_content [OF E] snoc [symmetric] by simp
  moreover have "content E d k = Some v" using mem env_content [OF E] by blast
  ultimately show ?thesis using snoc y mem by (auto simp: env_seekReverse [OF E])
qed

text \<open>What the keys of a view look like; the reverse seek of the balance lookups.\<close>

definition keys_ok :: "(bytes \<Rightarrow> bytes option) \<Rightarrow> bool" where
  "keys_ok m \<longleftrightarrow> (\<forall>b. m b \<noteq> None \<longrightarrow> (\<exists>k. wfKey k \<and> b = encKey k))"

lemma seek_account:
  assumes E: "env_ok E" and keys: "keys_ok (content E d)" and a: "length a = 8"
  obtains (change) h' v rest where
      "kvSeekReverse E d (accountKey a h) = (accountKey a h', Inr v) # rest" "h' \<le> h"
      "content E d (accountKey a h') = Some v"
      "\<And>h''. h' < h'' \<Longrightarrow> h'' \<le> h \<Longrightarrow> content E d (accountKey a h'') = None"
  | (none) "\<And>h'. h' \<le> h \<Longrightarrow> content E d (accountKey a h') = None"
      "\<And>k v rest. kvSeekReverse E d (accountKey a h) = (k, v) # rest \<Longrightarrow>
         \<not> prefix (take 9 (accountKey a h)) k"
proof (cases "\<exists>h'\<le>h. content E d (accountKey a h') \<noteq> None")
  case True
  then obtain h1 where h1: "h1 \<le> h" "content E d (accountKey a h1) \<noteq> None" by blast
  then have "accountKey a h1 \<le> accountKey a h" using a by (simp add: accountKey_le)
  with h1(2) seekReverse_head [OF E, of d "accountKey a h"] obtain k v rest where
    seek: "kvSeekReverse E d (accountKey a h) = (k, Inr v) # rest" "content E d k = Some v"
    and k: "k \<le> accountKey a h" "accountKey a h1 \<le> k"
    and max: "\<And>k'. content E d k' \<noteq> None \<Longrightarrow> k' \<le> accountKey a h \<Longrightarrow> k' \<le> k" by blast
  have "prefix (accountPrefix # pad 8 a) k"
    using k between_prefix [of "accountPrefix # pad 8 a" "putU64 h1" k "putU64 h"]
    by (simp add: accountKey_def)
  with keys seek(2) obtain h' where k': "k = accountKey a h'"
    unfolding keys_ok_def by (metis prefix_account_encKey [OF a] encKey.simps(1) option.distinct(1))
  have "content E d (accountKey a h'') = None" if "h' < h''" "h'' \<le> h" for h''
  proof (rule ccontr)
    assume "content E d (accountKey a h'') \<noteq> None"
    with max [of "accountKey a h''"] that k' have "h'' \<le> h'" using a by (simp add: accountKey_le)
    with that show False by simp
  qed
  then show ?thesis
    using change [of h' v rest] seek k k' a by (simp add: accountKey_le)
next
  case False
  have "\<not> prefix (take 9 (accountKey a h)) k"
    if seek: "kvSeekReverse E d (accountKey a h) = (k, w) # rest" for k w rest
  proof
    assume pre: "prefix (take 9 (accountKey a h)) k"
    from seek seekReverse_head [OF E, of d "accountKey a h"]
    have k: "content E d k \<noteq> None" "k \<le> accountKey a h" by auto
    with keys pre obtain h' where "k = accountKey a h'"
      unfolding keys_ok_def take_accountKey by (metis prefix_account_encKey [OF a] encKey.simps(1))
    with k False a show False by (simp add: accountKey_le)
  qed
  with False show ?thesis using none by blast
qed

subsection \<open>Writes and deletions\<close>

lemma setAll_content:
  assumes E: "env_ok E"
  shows "\<forall>(k, v)\<in>set kvs. ordinary_key k \<Longrightarrow>
    \<exists>t'. setAll E t kvs = Ok t' \<and> content E t' = content E t ++ map_of (rev kvs)"
proof (induction kvs arbitrary: t)
  case Nil
  then show ?case by simp
next
  case (Cons kv kvs)
  obtain k v where kv: "kv = (k, v)" by force
  with Cons.prems have "ordinary_key k" by simp
  from env_set [OF E this] obtain t1 where
    "kvSet E t k v = Inr t1" "content E t1 = (content E t)(k \<mapsto> v)" by blast
  moreover from this(2) have "content E t1 ++ map_of (rev kvs) = content E t ++ map_of (rev (kv # kvs))"
    using kv by (auto simp: map_add_def fun_eq_iff split: option.splits)
  moreover from Cons.IH [of t1] Cons.prems obtain t' where
    "setAll E t1 kvs = Ok t'" "content E t' = content E t1 ++ map_of (rev kvs)" by auto
  ultimately show ?case using kv by simp
qed

lemma deleteAll_content:
  assumes E: "env_ok E"
  shows "\<forall>k\<in>set ks. ordinary_key k \<Longrightarrow>
    \<exists>t'. deleteAll E t ks = Ok t' \<and>
         content E t' = (\<lambda>k. if k \<in> set ks then None else content E t k)"
proof (induction ks arbitrary: t)
  case Nil
  then show ?case by simp
next
  case (Cons k ks)
  from env_delete [OF E, of k t] Cons.prems obtain t1 where
    "kvDelete E t k = Inr t1" "content E t1 = (content E t)(k := None)" by auto
  with Cons.IH [of t1] Cons.prems show ?case by (auto simp: fun_eq_iff)
qed

lemma updateDB_Ok: "env_ok E \<Longrightarrow> f d = Ok t \<Longrightarrow> updateDB E d f = Ok t"
  by (simp add: updateDB_def env_commit)

end
