(* ===== verification/IndexSpec.thy ===== *)
theory IndexSpec
  imports IndexKeys
begin

section \<open>What the index represents\<close>

text \<open>
  The abstract chain behind the database: a genesis block and the list of the blocks indexed
  after it, each with its hash. \<open>blkAt\<close> gives the block of a height, \<open>balanceAt\<close> the balance
  of an account at a height (the sum of the changes of the blocks up to it, in the 64-bit
  arithmetic of the code), \<open>spec\<close> the value that belongs to each key, and \<open>represents\<close> relates
  a store to the chain it holds.
\<close>

type_synonym blk = "bytes \<times> IndexedBlock"

subsection \<open>Balance changes\<close>

definition opDiff :: "bytes \<Rightarrow> Operation \<Rightarrow> u64" where
  "opDiff a x =
     (if opType x \<in> {FEE, TRANSFER, PROXY_TRANSFER} then
        (if opReceiver x = a then opAmount x else 0) - (if opAccount x = a then opAmount x else 0)
      else 0)"

definition opTouches :: "bytes \<Rightarrow> Operation \<Rightarrow> bool" where
  "opTouches a x \<longleftrightarrow>
     (opType x \<in> {FEE, TRANSFER, PROXY_TRANSFER} \<and> (opAccount x = a \<or> opReceiver x = a)) \<or>
     (opType x = CREATE_ACCOUNT \<and> opAccount x = a)"

definition opCreatesProxy :: "bytes \<Rightarrow> Operation \<Rightarrow> bool" where
  "opCreatesProxy a x \<longleftrightarrow> opType x = CREATE_ACCOUNT \<and> opAccount x = a \<and> opProxyPublicKey x \<noteq> []"

definition blockDiff :: "bytes \<Rightarrow> IndexedBlock \<Rightarrow> u64" where
  "blockDiff a b = sum_list (map (opDiff a) (blockOps b))"

definition blockTouches :: "bytes \<Rightarrow> IndexedBlock \<Rightarrow> bool" where
  "blockTouches a b \<longleftrightarrow> list_ex (opTouches a) (blockOps b)"

definition blockCreatesProxy :: "bytes \<Rightarrow> IndexedBlock \<Rightarrow> bool" where
  "blockCreatesProxy a b \<longleftrightarrow> list_ex (opCreatesProxy a) (blockOps b)"

text \<open>The operations the indexer produces: known types, and addresses of eight bytes or none.\<close>

definition op_ok :: "Operation \<Rightarrow> bool" where
  "op_ok x \<longleftrightarrow>
     (if opType x = CREATE_ACCOUNT then length (opAccount x) = 8
      else opType x \<in> {FEE, TRANSFER, PROXY_TRANSFER} \<and>
           length (opAccount x) \<in> {0, 8} \<and> length (opReceiver x) \<in> {0, 8})"

definition block_ok :: "IndexedBlock \<Rightarrow> bool" where
  "block_ok b \<longleftrightarrow> list_all op_ok (blockOps b)"

subsection \<open>The chain\<close>

definition genesisBlk :: "BlockMeta \<Rightarrow> blk" where
  "genesisBlk g = (bmHash g, \<lparr>ibTimestamp = bmTimestamp g, ibTransactions = []\<rparr>)"

definition chainOf :: "BlockMeta \<Rightarrow> blk list \<Rightarrow> blk list" where
  "chainOf g bs = genesisBlk g # bs"

definition baseHeight :: "BlockMeta \<Rightarrow> nat" where
  "baseHeight g = unat (bmHeight g)"

definition tipHeight :: "BlockMeta \<Rightarrow> blk list \<Rightarrow> nat" where
  "tipHeight g bs = baseHeight g + length bs"

definition blkAt :: "BlockMeta \<Rightarrow> blk list \<Rightarrow> nat \<Rightarrow> blk option" where
  "blkAt g bs n =
     (if baseHeight g \<le> n \<and> n \<le> tipHeight g bs then Some (chainOf g bs ! (n - baseHeight g)) else None)"

definition heightOf :: "BlockMeta \<Rightarrow> blk list \<Rightarrow> bytes \<Rightarrow> nat option" where
  "heightOf g bs x =
     map_option (\<lambda>i. baseHeight g + i)
       (map_of (zip (map fst (chainOf g bs)) [0..<length (chainOf g bs)]) x)"

definition latestOf :: "BlockMeta \<Rightarrow> blk list \<Rightarrow> BlockMeta" where
  "latestOf g bs =
     \<lparr>bmHash = fst (last (chainOf g bs)), bmHeight = of_nat (tipHeight g bs), bmParent = [],
      bmTimestamp = ibTimestamp (snd (last (chainOf g bs)))\<rparr>"

definition diffAt :: "BlockMeta \<Rightarrow> blk list \<Rightarrow> bytes \<Rightarrow> nat \<Rightarrow> u64" where
  "diffAt g bs a n = (case blkAt g bs n of None \<Rightarrow> 0 | Some b \<Rightarrow> blockDiff a (snd b))"

definition balanceAt :: "BlockMeta \<Rightarrow> blk list \<Rightarrow> bytes \<Rightarrow> nat \<Rightarrow> u64" where
  "balanceAt g bs a n = (\<Sum>i\<le>n. diffAt g bs a i)"

fun encoded :: "(string, bytes) sum \<Rightarrow> bytes option" where
  "encoded (Inl e) = None"
| "encoded (Inr v) = Some v"

fun spec :: "'db env \<Rightarrow> BlockMeta \<Rightarrow> BlockMeta \<Rightarrow> blk list \<Rightarrow> key \<Rightarrow> bytes option" where
  "spec E g l bs (KAccount a h) =
     (case blkAt g bs (unat h) of
        None \<Rightarrow> None
      | Some b \<Rightarrow> if blockTouches a (snd b) then Some (putU64 (balanceAt g bs a (unat h))) else None)"
| "spec E g l bs (KBlock h) = Option.bind (blkAt g bs (unat h)) (\<lambda>b. encoded (marshalBlock E (snd b)))"
| "spec E g l bs (KHash x) = map_option (\<lambda>n. putU64 (of_nat n)) (heightOf g bs x)"
| "spec E g l bs (KHeight h) = map_option fst (blkAt g bs (unat h))"
| "spec E g l bs (KProxy a h) =
     (case blkAt g bs (unat h) of
        None \<Rightarrow> None
      | Some b \<Rightarrow> if blockCreatesProxy a (snd b) then Some [of_char (CHR ''1'')] else None)"
| "spec E g l bs KGenesis = encoded (marshalMeta E g)"
| "spec E g l bs KLatest = encoded (marshalMeta E l)"

definition chain_ok :: "'db env \<Rightarrow> BlockMeta \<Rightarrow> blk list \<Rightarrow> bool" where
  "chain_ok E g bs \<longleftrightarrow>
     distinct (map fst (chainOf g bs)) \<and> tipHeight g bs < 2 ^ 64 \<and>
     (\<forall>b\<in>set bs. block_ok (snd b)) \<and>
     (\<forall>b\<in>set (chainOf g bs). encoded (marshalBlock E (snd b)) \<noteq> None) \<and>
     (\<forall>a n. length a = 8 \<longrightarrow> 0 \<le> sint (balanceAt g bs a n))"

text \<open>
  The pointers of the store may be nil (a database that has just been opened) or hold the metadata
  of the database. The stored latest block agrees with the tip of the chain in the sense of
  \<^verbatim>\<open>BlockMeta.Equal\<close>, which leaves the parent out.
\<close>

definition represents :: "'db env \<Rightarrow> 'db Store \<Rightarrow> BlockMeta \<Rightarrow> BlockMeta \<Rightarrow> blk list \<Rightarrow> bool" where
  "represents E s g l bs \<longleftrightarrow>
     env_ok E \<and> keys_ok (content E (db s)) \<and>
     (\<forall>k. wfKey k \<longrightarrow> content E (db s) (encKey k) = spec E g l bs k) \<and>
     chain_ok E g bs \<and> Equal (Some l) (Some (latestOf g bs)) \<and>
     genesis s \<in> {None, Some g} \<and> latest s \<in> {None, Some l}"

subsection \<open>Lemmas on the chain\<close>

lemma last_chainOf_snoc [simp]: "last (chainOf g (bs @ [b])) = b"
  by (simp add: chainOf_def)

lemma tipHeight_snoc [simp]: "tipHeight g (bs @ [b]) = Suc (tipHeight g bs)"
  by (simp add: tipHeight_def)

lemma baseHeight_le_tip [simp]: "baseHeight g \<le> tipHeight g bs"
  by (simp add: tipHeight_def)

lemma blkAt_snoc:
  "blkAt g (bs @ [b]) n = (if n = Suc (tipHeight g bs) then Some b else blkAt g bs n)"
  by (auto simp: blkAt_def chainOf_def tipHeight_def nth_append nth_Cons' Suc_diff_le)

lemma blkAt_None: "blkAt g bs n = None \<longleftrightarrow> n < baseHeight g \<or> tipHeight g bs < n"
  by (auto simp: blkAt_def)

lemma blkAt_take:
  "j \<le> length bs \<Longrightarrow>
   blkAt g (take j bs) n = (if n \<le> baseHeight g + j then blkAt g bs n else None)"
  by (auto simp: blkAt_def chainOf_def tipHeight_def nth_Cons' min_def)

lemma blkAt_tip: "blkAt g bs (tipHeight g bs) = Some (last (chainOf g bs))"
  by (simp add: blkAt_def tipHeight_def chainOf_def last_conv_nth nth_Cons')

lemma blkAt_mem: "blkAt g bs n = Some b \<Longrightarrow> b \<in> set (chainOf g bs)"
  by (auto simp: blkAt_def tipHeight_def chainOf_def nth_Cons' split: if_splits)

lemma blkAt_genesis: "blkAt g bs (baseHeight g) = Some (genesisBlk g)"
  by (simp add: blkAt_def chainOf_def)

lemma untouched_diff: "\<not> opTouches a x \<Longrightarrow> opDiff a x = 0"
  by (auto simp: opTouches_def opDiff_def)

lemma untouched_blockDiff: "\<not> blockTouches a b \<Longrightarrow> blockDiff a b = 0"
proof -
  have "\<forall>x\<in>set xs. \<not> opTouches a x \<Longrightarrow> sum_list (map (opDiff a) xs) = 0" for xs
    by (induction xs) (simp_all add: untouched_diff)
  then show "\<not> blockTouches a b \<Longrightarrow> blockDiff a b = 0"
    by (simp add: blockTouches_def blockDiff_def list_ex_iff)
qed

lemma creates_touches: "blockCreatesProxy a b \<Longrightarrow> blockTouches a b"
  by (auto simp: blockCreatesProxy_def blockTouches_def list_ex_iff opCreatesProxy_def opTouches_def)

lemma genesis_untouched [simp]: "\<not> blockTouches a (snd (genesisBlk g))"
  by (simp add: blockTouches_def blockOps_def genesisBlk_def)

lemma diffAt_untouched:
  "(\<And>b. blkAt g bs n = Some b \<Longrightarrow> \<not> blockTouches a (snd b)) \<Longrightarrow> diffAt g bs a n = 0"
  by (auto simp: diffAt_def untouched_blockDiff split: option.splits)

lemma balanceAt_untouched:
  assumes "m \<le> n" "\<And>i b. m < i \<Longrightarrow> i \<le> n \<Longrightarrow> blkAt g bs i = Some b \<Longrightarrow> \<not> blockTouches a (snd b)"
  shows "balanceAt g bs a n = balanceAt g bs a m"
  using assms
proof (induction n)
  case 0
  then show ?case by simp
next
  case (Suc n)
  show ?case
  proof (cases "m = Suc n")
    case False
    with Suc.prems have "m \<le> n" by simp
    moreover have "diffAt g bs a (Suc n) = 0"
      using Suc.prems(2) [of "Suc n"] \<open>m \<le> n\<close> by (intro diffAt_untouched) simp
    ultimately show ?thesis using Suc by (simp add: balanceAt_def)
  qed simp
qed

lemma balanceAt_zero:
  assumes "\<And>i b. i \<le> n \<Longrightarrow> blkAt g bs i = Some b \<Longrightarrow> \<not> blockTouches a (snd b)"
  shows "balanceAt g bs a n = 0"
  unfolding balanceAt_def by (rule sum.neutral) (use assms in \<open>auto intro: diffAt_untouched\<close>)

lemma balanceAt_cong:
  "(\<And>i. i \<le> n \<Longrightarrow> blkAt g bs i = blkAt g cs i) \<Longrightarrow> balanceAt g bs a n = balanceAt g cs a n"
  by (auto simp: balanceAt_def diffAt_def intro: sum.cong)

lemma balanceAt_snoc_old:
  "n \<le> tipHeight g bs \<Longrightarrow> balanceAt g (bs @ [b]) a n = balanceAt g bs a n"
  by (rule balanceAt_cong) (simp add: blkAt_snoc)

lemma balanceAt_beyond:
  "tipHeight g bs \<le> n \<Longrightarrow> balanceAt g bs a n = balanceAt g bs a (tipHeight g bs)"
  by (rule balanceAt_untouched) (auto simp: blkAt_def)

lemma balanceAt_snoc_new:
  assumes "tipHeight g bs < n"
  shows "balanceAt g (bs @ [b]) a n = balanceAt g bs a (tipHeight g bs) + blockDiff a (snd b)"
proof -
  have "balanceAt g (bs @ [b]) a n = balanceAt g (bs @ [b]) a (Suc (tipHeight g bs))"
    using balanceAt_beyond [of g "bs @ [b]" n a] assms by simp
  also have "\<dots> = balanceAt g (bs @ [b]) a (tipHeight g bs) + blockDiff a (snd b)"
    by (simp add: balanceAt_def [of g "bs @ [b]"] diffAt_def blkAt_snoc)
  finally show ?thesis by (simp add: balanceAt_snoc_old)
qed

lemma balanceAt_take:
  assumes "j \<le> length bs"
  shows "balanceAt g (take j bs) a n = balanceAt g bs a (min n (baseHeight g + j))"
proof (cases "n \<le> baseHeight g + j")
  case True
  then show ?thesis using assms by (auto intro: balanceAt_cong simp: blkAt_take)
next
  case False
  have tip: "tipHeight g (take j bs) = baseHeight g + j" using assms by (simp add: tipHeight_def)
  with False have "balanceAt g (take j bs) a n = balanceAt g (take j bs) a (baseHeight g + j)"
    using balanceAt_beyond [of g "take j bs" n a] by simp
  also have "\<dots> = balanceAt g bs a (baseHeight g + j)"
    using assms by (intro balanceAt_cong) (simp add: blkAt_take)
  finally show ?thesis using False by simp
qed

lemma balanceAt_Nil [simp]: "balanceAt g [] a n = 0"
proof (rule balanceAt_zero)
  fix i b assume "blkAt g [] i = Some b"
  then have "b = genesisBlk g" using blkAt_mem [of g "[]" i b] by (simp add: chainOf_def)
  then show "\<not> blockTouches a (snd b)" by simp
qed

lemma balanceAt_tip: "balanceAt g bs a (tipHeight g bs) = sum_list (map (\<lambda>b. blockDiff a (snd b)) bs)"
  by (induction bs rule: rev_induct) (simp_all add: balanceAt_snoc_new)

end
