(* ===== verification/IndexCorrect.thy ===== *)
theory IndexCorrect
  imports IndexSpec
begin

section \<open>Correctness of the index\<close>

text \<open>
  The operations of \<^verbatim>\<open>indexdb\<close> on a store that represents a chain: the lookups return
  the data of the chain, \<^verbatim>\<open>SetGenesis\<close> and \<^verbatim>\<open>Index\<close> build it up,
  \<^verbatim>\<open>ResetTo\<close> cuts it back.
\<close>

subsection \<open>Lookups\<close>

lemma represents_env [dest]: "represents E s g l bs \<Longrightarrow> env_ok E"
  by (simp add: represents_def)

lemma represents_content:
  "represents E s g l bs \<Longrightarrow> wfKey k \<Longrightarrow> content E (db s) (encKey k) = spec E g l bs k"
  by (simp add: represents_def)

lemma represents_get:
  "represents E s g l bs \<Longrightarrow> wfKey k \<Longrightarrow>
   kvGet E (db s) (encKey k) = (case spec E g l bs k of None \<Rightarrow> Inl ErrKeyNotFound | Some v \<Rightarrow> Inr v)"
  by (simp add: env_get [OF represents_env] represents_content)

lemma represents_chain: "represents E s g l bs \<Longrightarrow> chain_ok E g bs"
  by (simp add: represents_def)

lemma heightOf_Some:
  assumes "distinct (map fst (chainOf g bs))"
  shows "heightOf g bs x = Some n \<longleftrightarrow> (\<exists>b. blkAt g bs n = Some b \<and> fst b = x)"
proof -
  let ?c = "chainOf g bs"
  have len: "length ?c = Suc (length bs)" by (simp add: chainOf_def)
  have "map_of (zip (map fst ?c) [0..<length ?c]) x = Some i \<longleftrightarrow> i < length ?c \<and> fst (?c ! i) = x" for i
    using assms by (auto simp: map_of_eq_Some_iff set_zip intro: exI [of _ i])
  then have h: "heightOf g bs x = Some n \<longleftrightarrow> (\<exists>i\<le>length bs. fst (?c ! i) = x \<and> n = baseHeight g + i)"
    unfolding heightOf_def map_option_eq_Some len by auto
  show ?thesis
  proof (cases "baseHeight g \<le> n")
    case True
    then obtain j where "n = baseHeight g + j" using le_Suc_ex by blast
    then show ?thesis unfolding h blkAt_def tipHeight_def by (auto intro: prod.exhaust_sel)
  next
    case False
    then show ?thesis unfolding h blkAt_def by auto
  qed
qed

lemma HashForHeight_represents:
  assumes "represents E s g l bs"
  shows "HashForHeight E s h =
    (case blkAt g bs (unat h) of None \<Rightarrow> Err ErrBlockNotIndexed | Some b \<Rightarrow> Ok (fst b))"
  using represents_get [OF assms, of "KHeight h"]
  by (simp add: HashForHeight_def split: option.splits)

lemma HeightForHash_represents:
  assumes "represents E s g l bs"
  shows "HeightForHash E s x =
    (case heightOf g bs x of None \<Rightarrow> Err ErrBlockNotIndexed | Some n \<Rightarrow> Ok (of_nat n))"
  using represents_get [OF assms, of "KHash x"]
  by (simp add: HeightForHash_def split: option.splits)

lemma blockByHeight_represents:
  assumes "represents E s g l bs"
  shows "blockByHeight E s h =
    (case blkAt g bs (unat h) of None \<Rightarrow> Err ErrBlockNotIndexed | Some b \<Rightarrow> Ok (snd b))"
proof (cases "blkAt g bs (unat h)")
  case None
  then show ?thesis using represents_get [OF assms, of "KBlock h"] by (simp add: blockByHeight_def)
next
  case (Some b)
  then have "encoded (marshalBlock E (snd b)) \<noteq> None"
    using represents_chain [OF assms] blkAt_mem by (auto simp: chain_ok_def)
  then obtain v where v: "marshalBlock E (snd b) = Inr v" by (cases "marshalBlock E (snd b)") auto
  with Some represents_get [OF assms, of "KBlock h"] env_block [OF represents_env [OF assms] v]
  show ?thesis by (simp add: blockByHeight_def)
qed

text \<open>What the reverse seek of an account finds in a represented chain.\<close>

lemma account_content:
  assumes "represents E s g l bs" "length a = 8"
  shows "content E (db s) (accountKey a h) =
    (case blkAt g bs (unat h) of
       None \<Rightarrow> None
     | Some b \<Rightarrow> if blockTouches a (snd b) then Some (putU64 (balanceAt g bs a (unat h))) else None)"
  using represents_content [OF assms(1), of "KAccount a h"] assms(2) by simp

definition account_view :: "'db env \<Rightarrow> 'db \<Rightarrow> BlockMeta \<Rightarrow> blk list \<Rightarrow> bytes \<Rightarrow> bool" where
  "account_view E d g bs a \<longleftrightarrow>
     env_ok E \<and> keys_ok (content E d) \<and> length a = 8 \<and>
     (\<forall>h. content E d (accountKey a h) =
       (case blkAt g bs (unat h) of
          None \<Rightarrow> None
        | Some b \<Rightarrow> if blockTouches a (snd b) then Some (putU64 (balanceAt g bs a (unat h))) else None))"

lemma represents_view: "represents E s g l bs \<Longrightarrow> length a = 8 \<Longrightarrow> account_view E (db s) g bs a"
  by (simp add: account_view_def account_content) (simp add: represents_def)

lemma view_untouched:
  "account_view E d g bs a \<Longrightarrow> content E d (accountKey a h) = None \<Longrightarrow>
   blkAt g bs (unat h) = Some b \<Longrightarrow> \<not> blockTouches a (snd b)"
  by (auto simp: account_view_def split: if_splits)

lemma seek_view:
  assumes view: "account_view E d g bs a"
  obtains (change) h' rest where
      "kvSeekReverse E d (accountKey a h) =
         (accountKey a h', Inr (putU64 (balanceAt g bs a (unat h)))) # rest"
      "h' \<le> h" "\<exists>b. blkAt g bs (unat h') = Some b \<and> blockTouches a (snd b)"
      "prefix (take 9 (accountKey a h)) (accountKey a h')"
  | (none) "\<And>i b. i \<le> unat h \<Longrightarrow> blkAt g bs i = Some b \<Longrightarrow> \<not> blockTouches a (snd b)"
      "balanceAt g bs a (unat h) = 0"
      "\<And>k v rest. kvSeekReverse E d (accountKey a h) = (k, v) # rest \<Longrightarrow>
         \<not> prefix (take 9 (accountKey a h)) k"
proof -
  have E: "env_ok E" and keys: "keys_ok (content E d)" and a: "length a = 8"
    using view by (simp_all add: account_view_def)
  have word: "unat (of_nat i :: u64) = i" if "i \<le> unat (h :: u64)" for i h
    using that unsigned_less [of h, where 'a = nat] by (simp add: unat_of_nat)
  show ?thesis
  proof (cases rule: seek_account [OF E keys a, of h])
    case (1 h' v rest)
    from 1(3) view obtain b where b: "blkAt g bs (unat h') = Some b" "blockTouches a (snd b)"
      "v = putU64 (balanceAt g bs a (unat h'))"
      by (auto simp: account_view_def split: option.splits if_splits)
    have "balanceAt g bs a (unat h) = balanceAt g bs a (unat h')"
    proof (rule balanceAt_untouched)
      show "unat h' \<le> unat h" using 1(2) by (simp add: word_le_nat_alt)
      fix i b assume i: "unat h' < i" "i \<le> unat h" "blkAt g bs i = Some b"
      then have "content E d (accountKey a (of_nat i)) = None"
        using 1(4) [of "of_nat i"] word [of i h] by (simp add: word_less_nat_alt word_le_nat_alt)
      then show "\<not> blockTouches a (snd b)"
        using view_untouched [OF view, of "of_nat i" b] i word [of i h] by simp
    qed
    moreover have "prefix (take 9 (accountKey a h)) (accountKey a h')"
      unfolding take_accountKey by (simp add: accountKey_def)
    ultimately show ?thesis using change [of h' rest] 1 b by simp
  next
    case 2
    have "\<not> blockTouches a (snd b)" if "i \<le> unat h" "blkAt g bs i = Some b" for i b
      using view_untouched [OF view, of "of_nat i" b] 2(1) [of "of_nat i"] word [of i h] that
      by (simp add: word_le_nat_alt)
    then show ?thesis using none 2(2) balanceAt_zero by blast
  qed
qed

lemma balanceByHeight_represents:
  assumes "represents E s g l bs" and "length a = 8"
  shows "balanceByHeight E s a h = Ok (balanceAt g bs a (unat h))"
proof (cases rule: seek_view [OF represents_view [OF assms], of h])
  case (1 h' rest)
  then show ?thesis by (simp add: balanceByHeight_def Let_def)
next
  case 2
  then show ?thesis
    by (auto simp: balanceByHeight_def Let_def split: list.split prod.split)
qed

lemma HasBalance_represents:
  assumes "represents E s g l bs" and "length a = 8"
  shows "HasBalance E s a h =
    Ok (\<exists>i\<le>unat h. \<exists>b. blkAt g bs i = Some b \<and> blockTouches a (snd b))"
proof (cases rule: seek_view [OF represents_view [OF assms], of h])
  case (1 h' rest)
  moreover have "unat h' \<le> unat h" using 1(2) by (simp add: word_le_nat_alt)
  ultimately show ?thesis by (auto simp: HasBalance_def Let_def)
next
  case 2
  then show ?thesis by (auto simp: HasBalance_def Let_def split: list.split prod.split)
qed

subsection \<open>The changes of a block\<close>

definition proxyKeysOf :: "u64 \<Rightarrow> Operation list \<Rightarrow> bytes list" where
  "proxyKeysOf h xs =
     map (\<lambda>x. isProxyKey (opAccount x) h)
       (filter (\<lambda>x. opType x = CREATE_ACCOUNT \<and> opProxyPublicKey x \<noteq> []) xs)"

definition map_ok :: "(bytes, u64) gomap \<Rightarrow> bool" where
  "map_ok m \<longleftrightarrow> distinct (map fst m) \<and> (\<forall>a\<in>mkeys m. length a = 8)"

lemma indexOp_ok:
  assumes x: "op_ok x" and m: "map_ok m"
  shows "\<exists>m'. indexOp h x (m, p) = Ok (m', p @ proxyKeysOf h [x]) \<and> map_ok m' \<and>
    (\<forall>a. length a = 8 \<longrightarrow> mget 0 m' a = mget 0 m a + opDiff a x \<and>
         (a \<in> mkeys m' \<longleftrightarrow> a \<in> mkeys m \<or> opTouches a x))"
proof (cases "opType x = CREATE_ACCOUNT")
  case True
  let ?m = "if \<not> mhas m (opAccount x) then mput m (opAccount x) 0 else m"
  have "indexOp h x (m, p) = Ok (?m, p @ proxyKeysOf h [x])"
    using True by (simp add: indexOp_def proxyKeysOf_def)
  moreover have "map_ok ?m"
    using m x True by (simp add: map_ok_def distinct_update op_ok_def)
  moreover have "mget 0 ?m a = mget 0 m a + opDiff a x \<and> (a \<in> mkeys ?m \<longleftrightarrow> a \<in> mkeys m \<or> opTouches a x)" for a
    using True by (auto simp: mget_update opDiff_def opTouches_def map_of_None_mkeys mget_no_key)
  ultimately show ?thesis by blast
next
  case False
  then have ty: "opType x \<in> {FEE, TRANSFER, PROXY_TRANSFER}"
    and len: "length (opAccount x) \<in> {0, 8}" "length (opReceiver x) \<in> {0, 8}"
    using x by (auto simp: op_ok_def)
  let ?m1 = "if length (opAccount x) > 0
      then mput m (opAccount x) (mget 0 m (opAccount x) - opAmount x) else m"
  let ?m2 = "if length (opReceiver x) > 0
      then mput ?m1 (opReceiver x) (mget 0 ?m1 (opReceiver x) + opAmount x) else ?m1"
  have "indexOp h x (m, p) = Ok (?m2, p @ proxyKeysOf h [x])"
    using ty False by (simp add: indexOp_def Let_def proxyKeysOf_def)
  moreover have "map_ok ?m2" using m len by (auto simp: map_ok_def distinct_update)
  moreover have "mget 0 ?m2 a = mget 0 m a + opDiff a x \<and> (a \<in> mkeys ?m2 \<longleftrightarrow> a \<in> mkeys m \<or> opTouches a x)"
    if "length a = 8" for a
    using that ty False by (auto simp: mget_update opDiff_def opTouches_def)
  ultimately show ?thesis by blast
qed

lemma indexOps_ok:
  "list_all op_ok xs \<Longrightarrow> map_ok m \<Longrightarrow>
   \<exists>m'. indexOps h xs (m, p) = Ok (m', p @ proxyKeysOf h xs) \<and> map_ok m' \<and>
     (\<forall>a. length a = 8 \<longrightarrow> mget 0 m' a = mget 0 m a + sum_list (map (opDiff a) xs) \<and>
          (a \<in> mkeys m' \<longleftrightarrow> a \<in> mkeys m \<or> list_ex (opTouches a) xs))"
proof (induction xs arbitrary: m p)
  case Nil
  then show ?case by (simp add: proxyKeysOf_def)
next
  case (Cons x xs)
  then have x: "op_ok x" and xs: "list_all op_ok xs" by simp_all
  from indexOp_ok [OF x Cons.prems(2), of h p] obtain m1 where
    1: "indexOp h x (m, p) = Ok (m1, p @ proxyKeysOf h [x])" "map_ok m1"
    "\<And>a. length a = 8 \<Longrightarrow> mget 0 m1 a = mget 0 m a + opDiff a x \<and>
         (a \<in> mkeys m1 \<longleftrightarrow> a \<in> mkeys m \<or> opTouches a x)" by blast
  from Cons.IH [OF xs 1(2), of "p @ proxyKeysOf h [x]"] obtain m2 where
    2: "indexOps h xs (m1, p @ proxyKeysOf h [x]) = Ok (m2, (p @ proxyKeysOf h [x]) @ proxyKeysOf h xs)"
    "map_ok m2"
    "\<And>a. length a = 8 \<Longrightarrow> mget 0 m2 a = mget 0 m1 a + sum_list (map (opDiff a) xs) \<and>
         (a \<in> mkeys m2 \<longleftrightarrow> a \<in> mkeys m1 \<or> list_ex (opTouches a) xs)" by blast
  have "(p @ proxyKeysOf h [x]) @ proxyKeysOf h xs = p @ proxyKeysOf h (x # xs)"
    by (simp add: proxyKeysOf_def)
  with 1 2 show ?case by (auto simp: add.assoc)
qed

lemma block_changes:
  assumes "block_ok b"
  shows "\<exists>m. indexOps h (blockOps b) ([], []) = Ok (m, proxyKeysOf h (blockOps b)) \<and> map_ok m \<and>
    (\<forall>a. length a = 8 \<longrightarrow> mget 0 m a = blockDiff a b \<and> (a \<in> mkeys m \<longleftrightarrow> blockTouches a b))"
proof -
  have "list_all op_ok (blockOps b)" "map_ok []" using assms by (simp_all add: block_ok_def map_ok_def)
  from indexOps_ok [OF this, of h "[]"] show ?thesis
    by (simp add: blockDiff_def blockTouches_def)
qed

subsection \<open>The transaction of a block\<close>

lemma word_Suc_tip:
  "Suc (tipHeight g bs) < 2 ^ 64 \<Longrightarrow> unat (of_nat (Suc (tipHeight g bs)) :: u64) = Suc (tipHeight g bs)"
  by (simp add: unat_of_nat del: of_nat_Suc)

lemma currentBalance_view:
  assumes view: "account_view E t g bs a" and h: "unat h = Suc (tipHeight g bs)"
  shows "currentBalance E t (accountKey a h) = Ok (balanceAt g bs a (tipHeight g bs))"
proof -
  have tip: "balanceAt g bs a (unat h) = balanceAt g bs a (tipHeight g bs)"
    using h balanceAt_beyond [of g bs "unat h" a] by simp
  show ?thesis
  proof (cases rule: seek_view [OF view, of h])
    case (1 h' rest)
    from 1(3) have "unat h' \<le> tipHeight g bs" by (auto simp: blkAt_def split: if_splits)
    with h have "h' \<noteq> h" by auto
    moreover have "length a = 8" using view by (simp add: account_view_def)
    ultimately have "accountKey a h' \<noteq> accountKey a h" by (simp add: accountKey_def)
    with 1 tip show ?thesis by (simp add: currentBalance_def)
  next
    case 2
    with tip show ?thesis by (auto simp: currentBalance_def split: list.split prod.split)
  qed
qed

lemma account_view_other:
  assumes "account_view E t g bs a" "content E t' = (content E t)(accountKey b h \<mapsto> v)"
    "length b = 8" "a \<noteq> b"
  shows "account_view E t' g bs a"
proof -
  have "accountKey a h' \<noteq> accountKey b h" for h'
    using assms by (simp add: account_view_def accountKey_def)
  moreover have "keys_ok (content E t')"
    using assms(1-3) unfolding account_view_def keys_ok_def
    by (metis encKey.simps(1) fun_upd_apply wfKey.simps(1))
  ultimately show ?thesis using assms(1,2) by (simp add: account_view_def)
qed

definition newBalances :: "BlockMeta \<Rightarrow> blk list \<Rightarrow> u64 \<Rightarrow> (bytes \<times> u64) list \<Rightarrow> (bytes \<times> bytes) list" where
  "newBalances g bs h xs =
     map (\<lambda>(a, d). (accountKey a h, putU64 (balanceAt g bs a (tipHeight g bs) + d))) xs"

text \<open>
  The updates of the accounts succeed if no new balance is negative as a signed integer, and fail
  on an account with a negative one otherwise.
\<close>

lemma applyUpdates_view:
  assumes E: "env_ok E" and h: "unat h = Suc (tipHeight g bs)"
  shows "distinct (map fst xs) \<Longrightarrow> \<forall>a\<in>mkeys xs. account_view E t g bs a \<Longrightarrow>
    (if \<forall>(a, d)\<in>set xs. 0 \<le> sint (balanceAt g bs a (tipHeight g bs) + d)
     then \<exists>t'. applyUpdates E t (map (\<lambda>(a, d). (d, accountKey a h)) xs) = Ok t' \<and>
               content E t' = content E t ++ map_of (rev (newBalances g bs h xs))
     else \<exists>a d. (a, d) \<in> set xs \<and> sint (balanceAt g bs a (tipHeight g bs) + d) < 0 \<and>
            applyUpdates E t (map (\<lambda>(a, d). (d, accountKey a h)) xs) =
              Err (InvalidBalance a (sint (balanceAt g bs a (tipHeight g bs) + d))))"
proof (induction xs arbitrary: t)
  case Nil
  then show ?case by (simp add: newBalances_def)
next
  case (Cons x xs)
  obtain a d where x: "x = (a, d)" by force
  let ?v = "balanceAt g bs a (tipHeight g bs) + d"
  have view: "account_view E t g bs a" using Cons.prems x by (simp add: mkeys_def)
  then have a: "length a = 8" by (simp add: account_view_def)
  have cur: "currentBalance E t (accountKey a h) = Ok (balanceAt g bs a (tipHeight g bs))"
    by (rule currentBalance_view [OF view h])
  show ?case
  proof (cases "0 \<le> sint ?v")
    case False
    then have "applyUpdates E t (map (\<lambda>(a, d). (d, accountKey a h)) (x # xs)) =
        Err (InvalidBalance a (sint ?v))"
      using a x cur by (simp add: Let_def accountKey_def [of a])
    with False x show ?thesis by auto
  next
    case True
    have "ordinary_key (accountKey a h)" using ordinary_encKey [of "KAccount a h"] by simp
    from env_set [OF E this] obtain t1 where t1: "kvSet E t (accountKey a h) (putU64 ?v) = Inr t1"
      "content E t1 = (content E t)(accountKey a h \<mapsto> putU64 ?v)" by blast
    have "account_view E t1 g bs b" if "b \<in> mkeys xs" for b
      using Cons.prems x that by (intro account_view_other [OF _ t1(2) a]) (auto simp: mkeys_def)
    note IH = Cons.IH [OF _ ballI, OF _ this]
    have step: "applyUpdates E t (map (\<lambda>(a, d). (d, accountKey a h)) (x # xs)) =
        applyUpdates E t1 (map (\<lambda>(a, d). (d, accountKey a h)) xs)"
      using True x cur t1(1) by (simp add: Let_def)
    have "content E t1 ++ map_of (rev (newBalances g bs h xs)) =
        content E t ++ map_of (rev (newBalances g bs h (x # xs)))"
      using t1(2) x by (auto simp: newBalances_def map_add_def fun_eq_iff split: option.splits)
    with IH step Cons.prems x True show ?thesis by (auto simp: mkeys_def split: if_splits)
  qed
qed

lemma map_of_rev_distinct: "distinct (map fst xs) \<Longrightarrow> map_of (rev xs) = map_of xs"
  by (subst map_of_inject_set) (simp_all add: rev_map [symmetric])

lemma newBalances_lookup:
  assumes "map_ok xs" "wfKey k"
  shows "map_of (rev (newBalances g bs h xs)) (encKey k) =
    (case k of
       KAccount a h' \<Rightarrow>
         if h' = h then map_option (\<lambda>d. putU64 (balanceAt g bs a (tipHeight g bs) + d)) (map_of xs a)
         else None
     | _ \<Rightarrow> None)"
proof -
  have keys: "\<forall>x\<in>set xs. length (fst x) = 8"
    using assms(1) by (simp add: map_ok_def mkeys_def)
  have "map fst (newBalances g bs h xs) = map (\<lambda>a. accountKey a h) (map fst xs)"
    by (simp add: newBalances_def split_beta)
  moreover have "inj_on (\<lambda>a. accountKey a h) (set (map fst xs))"
    using keys by (auto simp: inj_on_def accountKey_def)
  ultimately have "distinct (map fst (newBalances g bs h xs))"
    using assms(1) by (simp only: distinct_map map_ok_def)
  then have "map_of (rev (newBalances g bs h xs)) = map_of (newBalances g bs h xs)"
    by (rule map_of_rev_distinct)
  moreover have "map_of (newBalances g bs h xs) (encKey k) = (case k of
       KAccount a h' \<Rightarrow>
         if h' = h then map_option (\<lambda>d. putU64 (balanceAt g bs a (tipHeight g bs) + d)) (map_of xs a)
         else None
     | _ \<Rightarrow> None)"
    using keys
  proof (induction xs)
    case Nil
    then show ?case by (simp add: newBalances_def split: key.split)
  next
    case (Cons x xs)
    obtain a d where x: "x = (a, d)" by force
    with Cons.prems have "length a = 8" by simp
    then have "encKey k = accountKey a h \<longleftrightarrow> k = KAccount a h"
      using encKey_inject [OF assms(2), of "KAccount a h"] by simp
    with Cons x show ?case by (cases k) (auto simp: newBalances_def split: if_splits)
  qed
  ultimately show ?thesis by simp
qed

lemma proxies_lookup:
  assumes "block_ok b" "wfKey k"
  shows "map_of (rev (map (\<lambda>k. (k, v)) (proxyKeysOf h (blockOps b)))) (encKey k) =
    (case k of KProxy a h' \<Rightarrow> if h' = h \<and> blockCreatesProxy a b then Some v else None | _ \<Rightarrow> None)"
proof -
  have "encKey k \<in> set (proxyKeysOf h (blockOps b)) \<longleftrightarrow>
      (\<exists>a. k = KProxy a h \<and> blockCreatesProxy a b)"
  proof
    assume "encKey k \<in> set (proxyKeysOf h (blockOps b))"
    then obtain x where x: "x \<in> set (blockOps b)" "opType x = CREATE_ACCOUNT" "opProxyPublicKey x \<noteq> []"
      "encKey k = encKey (KProxy (opAccount x) h)"
      by (auto simp: proxyKeysOf_def)
    with assms have "length (opAccount x) = 8" by (auto simp: block_ok_def list_all_iff op_ok_def)
    with x(4) assms(2) have "k = KProxy (opAccount x) h" by (simp del: encKey.simps)
    with x show "\<exists>a. k = KProxy a h \<and> blockCreatesProxy a b"
      by (auto simp: blockCreatesProxy_def list_ex_iff opCreatesProxy_def)
  next
    assume "\<exists>a. k = KProxy a h \<and> blockCreatesProxy a b"
    then show "encKey k \<in> set (proxyKeysOf h (blockOps b))"
      by (auto simp: blockCreatesProxy_def list_ex_iff opCreatesProxy_def proxyKeysOf_def)
  qed
  moreover have "map_of (rev (map (\<lambda>k. (k, v)) ks)) k = (if k \<in> set ks then Some v else None)"
    for ks :: "bytes list" and k
    by (induction ks rule: rev_induct) auto
  ultimately show ?thesis by (auto split: key.splits)
qed

lemma indexWrites_lookup:
  assumes "block_ok b" "wfKey k"
  shows "map_of (rev (indexWrites (proxyKeysOf h (blockOps b)) h hash bv le)) (encKey k) =
    (case k of
       KLatest \<Rightarrow> Some le
     | KHeight h' \<Rightarrow> if h' = h then Some hash else None
     | KHash x \<Rightarrow> if x = hash then Some (putU64 h) else None
     | KBlock h' \<Rightarrow> if h' = h then Some bv else None
     | KProxy a h' \<Rightarrow> if h' = h \<and> blockCreatesProxy a b then Some [of_char (CHR ''1'')] else None
     | _ \<Rightarrow> None)"
proof -
  let ?p = "map (\<lambda>k. (k, [of_char (CHR ''1'')])) (proxyKeysOf h (blockOps b))"
  have split: "rev (indexWrites (proxyKeysOf h (blockOps b)) h hash bv le) =
      [(encKey KLatest, le), (encKey (KHeight h), hash), (encKey (KHash hash), putU64 h),
       (encKey (KBlock h), bv)] @ rev ?p"
    by (simp add: indexWrites_def)
  show ?thesis
    unfolding split using proxies_lookup [OF assms, of "[of_char (CHR ''1'')]" h] assms(2)
    by (cases k) (simp_all del: encKey.simps)
qed

lemma indexWrites_ordinary:
  "\<forall>(k, v)\<in>set (indexWrites (proxyKeysOf h xs) h hash bv le). ordinary_key k"
proof -
  have "k \<in> range encKey" if "(k, v) \<in> set (indexWrites (proxyKeysOf h xs) h hash bv le)" for k v
    using that unfolding indexWrites_def proxyKeysOf_def
    by (auto simp flip: encKey.simps)
  then show ?thesis by (metis (no_types, lifting) case_prodI2 ordinary_encKey rangeE)
qed

subsection \<open>Index appends a block\<close>

definition metaOf :: "u64 \<Rightarrow> bytes \<Rightarrow> IndexedBlock \<Rightarrow> BlockMeta" where
  "metaOf h hash b = \<lparr>bmHash = hash, bmHeight = h, bmParent = [], bmTimestamp = ibTimestamp b\<rparr>"

lemma keys_ok_add:
  assumes "keys_ok m" "\<And>k v. (k, v) \<in> set kvs \<Longrightarrow> \<exists>j. wfKey j \<and> k = encKey j"
  shows "keys_ok (m ++ map_of kvs)"
  unfolding keys_ok_def
proof (intro allI impI)
  fix b assume "(m ++ map_of kvs) b \<noteq> None"
  then consider "m b \<noteq> None" | v where "map_of kvs b = Some v"
    by (auto simp: map_add_def split: option.splits)
  then show "\<exists>k. wfKey k \<and> b = encKey k"
    by cases (use assms(1) in \<open>simp add: keys_ok_def\<close>, metis map_of_SomeD assms(2))
qed

lemma newBalances_keys:
  "map_ok xs \<Longrightarrow> (k, v) \<in> set (rev (newBalances g bs h xs)) \<Longrightarrow> \<exists>j. wfKey j \<and> k = encKey j"
  by (force simp: newBalances_def map_ok_def mkeys_def intro: exI [of _ "KAccount _ _"])

lemma indexWrites_keys:
  assumes "block_ok b" "(k, v) \<in> set (rev (indexWrites (proxyKeysOf h (blockOps b)) h hash bv le))"
  shows "\<exists>j. wfKey j \<and> k = encKey j"
proof -
  have "length (opAccount x) = 8" if "x \<in> set (blockOps b)" "opType x = CREATE_ACCOUNT" for x
    using assms(1) that by (auto simp: block_ok_def list_all_iff op_ok_def)
  with assms(2) consider "k = latestKey" | "k = height2hashKey h" | "k = hash2heightKey hash"
    | "k = blockKey h" | a where "length a = 8" "k = isProxyKey a h"
    by (auto simp: indexWrites_def proxyKeysOf_def)
  then show ?thesis
    by cases (metis encKey.simps wfKey.simps)+
qed

lemma spec_snoc:
  assumes k: "wfKey k" and fresh: "hash \<notin> fst ` set (chainOf g bs)"
    and dist: "distinct (map fst (chainOf g bs))" and h: "unat h = Suc (tipHeight g bs)"
    and bv: "marshalBlock E b = Inr bv" and le: "marshalMeta E l' = Inr le"
  shows "spec E g l' (bs @ [(hash, b)]) k =
    (case k of
       KLatest \<Rightarrow> Some le
     | KHeight h' \<Rightarrow> if h' = h then Some hash else spec E g l bs k
     | KHash x \<Rightarrow> if x = hash then Some (putU64 h) else spec E g l bs k
     | KBlock h' \<Rightarrow> if h' = h then Some bv else spec E g l bs k
     | KProxy a h' \<Rightarrow>
         if h' = h \<and> blockCreatesProxy a b then Some [of_char (CHR ''1'')] else spec E g l bs k
     | KAccount a h' \<Rightarrow>
         if h' = h \<and> blockTouches a b
         then Some (putU64 (balanceAt g bs a (tipHeight g bs) + blockDiff a b)) else spec E g l bs k
     | KGenesis \<Rightarrow> spec E g l bs k)"
proof (cases k)
  case (KHash x)
  have d2: "distinct (map fst (chainOf g (bs @ [(hash, b)])))"
    using dist fresh by (auto simp: chainOf_def)
  have "heightOf g (bs @ [(hash, b)]) x =
      (if x = hash then Some (Suc (tipHeight g bs)) else heightOf g bs x)"
  proof (cases "x = hash")
    case True
    then show ?thesis using heightOf_Some [OF d2] by (simp add: blkAt_snoc)
  next
    case False
    have "heightOf g (bs @ [(hash, b)]) x = Some n \<longleftrightarrow> heightOf g bs x = Some n" for n
      using False unfolding heightOf_Some [OF d2] heightOf_Some [OF dist]
      by (auto simp: blkAt_snoc blkAt_None [of g bs "Suc (tipHeight g bs)", simplified])
    with False show ?thesis by (metis option.exhaust)
  qed
  moreover have "(of_nat (Suc (tipHeight g bs)) :: u64) = h"
    by (simp add: h [symmetric] del: of_nat_Suc)
  ultimately show ?thesis using KHash by simp
next
  case (KAccount a h')
  have "h' = h \<longleftrightarrow> unat h' = Suc (tipHeight g bs)" using h by (metis word_unat_eq_iff)
  moreover have "blkAt g bs (Suc (tipHeight g bs)) = None" by (simp add: blkAt_None)
  moreover have "balanceAt g (bs @ [(hash, b)]) a n = balanceAt g bs a n"
    if "blkAt g bs n \<noteq> None" for n
    using that by (intro balanceAt_snoc_old) (auto simp: blkAt_def split: if_splits)
  ultimately show ?thesis using KAccount
    by (auto simp: blkAt_snoc balanceAt_snoc_new split: option.splits)
next
  case (KProxy a h')
  have "h' = h \<longleftrightarrow> unat h' = Suc (tipHeight g bs)" using h by (metis word_unat_eq_iff)
  moreover have "blkAt g bs (Suc (tipHeight g bs)) = None" by (simp add: blkAt_None)
  ultimately show ?thesis using KProxy by (auto simp: blkAt_snoc split: option.splits)
next
  case (KBlock h')
  have "h' = h \<longleftrightarrow> unat h' = Suc (tipHeight g bs)" using h by (metis word_unat_eq_iff)
  with KBlock bv show ?thesis by (auto simp: blkAt_snoc)
next
  case (KHeight h')
  have "h' = h \<longleftrightarrow> unat h' = Suc (tipHeight g bs)" using h by (metis word_unat_eq_iff)
  with KHeight show ?thesis by (auto simp: blkAt_snoc)
qed (simp_all add: le)

lemma chain_ok_snoc:
  assumes "chain_ok E g bs" "block_ok b" "marshalBlock E b = Inr bv"
    "hash \<notin> fst ` set (chainOf g bs)" "Suc (tipHeight g bs) < 2 ^ 64"
    "\<And>a. length a = 8 \<Longrightarrow> 0 \<le> sint (balanceAt g bs a (tipHeight g bs) + blockDiff a b)"
  shows "chain_ok E g (bs @ [(hash, b)])"
proof -
  have "0 \<le> sint (balanceAt g (bs @ [(hash, b)]) a n)" if "length a = 8" for a n
  proof (cases "n \<le> tipHeight g bs")
    case True
    then show ?thesis using assms(1) that by (simp add: balanceAt_snoc_old chain_ok_def)
  next
    case False
    then show ?thesis using assms(6) [OF that] by (simp add: balanceAt_snoc_new)
  qed
  then show ?thesis using assms(1-5) by (auto simp: chain_ok_def chainOf_def)
qed

text \<open>The transaction of \<^verbatim>\<open>Index\<close>, from line 476 to line 538.\<close>

lemma index_txn:
  assumes rep: "represents E s g l bs" and b: "block_ok b" "marshalBlock E b = Inr bv"
    and fresh: "hash \<notin> fst ` set (chainOf g bs)" and h: "unat h = Suc (tipHeight g bs)"
    and le: "marshalMeta E (metaOf h hash b) = Inr le"
    and xs: "map_ok xs" "\<And>a. length a = 8 \<Longrightarrow> mget 0 xs a = blockDiff a b \<and> (a \<in> mkeys xs \<longleftrightarrow> blockTouches a b)"
  defines "run \<equiv> updateDB E (db s) (\<lambda>t.
      andThen (applyUpdates E t (map (\<lambda>(a, d). (d, accountKey a h)) xs)) (\<lambda>t'.
      setAll E t' (indexWrites (proxyKeysOf h (blockOps b)) h hash bv le)))"
  shows "if \<forall>a. length a = 8 \<longrightarrow> 0 \<le> sint (balanceAt g bs a (tipHeight g bs) + blockDiff a b)
    then \<exists>d. run = Ok d \<and> represents E (s\<lparr>db := d, latest := Some (metaOf h hash b)\<rparr>) g (metaOf h hash b) (bs @ [(hash, b)])
    else \<exists>a. length a = 8 \<and> sint (balanceAt g bs a (tipHeight g bs) + blockDiff a b) < 0 \<and>
      run = Err (InvalidBalance a (sint (balanceAt g bs a (tipHeight g bs) + blockDiff a b)))"
proof -
  let ?bal = "\<lambda>a. balanceAt g bs a (tipHeight g bs)"
  let ?w = "indexWrites (proxyKeysOf h (blockOps b)) h hash bv le"
  have E: "env_ok E" and chain: "chain_ok E g bs" and keys: "keys_ok (content E (db s))"
    using rep by (simp_all add: represents_def)
  have d: "d = blockDiff a b" "length a = 8" "blockTouches a b" if "(a, d) \<in> set xs" for a d
  proof -
    have "map_of xs a = Some d" using that xs(1) by (simp add: map_ok_def)
    then show "length a = 8" "d = blockDiff a b" "blockTouches a b"
      using xs that mget_eqI [of xs a d 0] by (force simp: map_ok_def mkeys_def)+
  qed
  have all: "(\<forall>(a, d)\<in>set xs. 0 \<le> sint (?bal a + d)) \<longleftrightarrow>
      (\<forall>a. length a = 8 \<longrightarrow> 0 \<le> sint (?bal a + blockDiff a b))"
  proof -
    have "0 \<le> sint (?bal a + blockDiff a b)" if "length a = 8" "\<not> blockTouches a b" for a
      using that chain by (simp add: untouched_blockDiff chain_ok_def)
    moreover have "(a, blockDiff a b) \<in> set xs" if "length a = 8" "blockTouches a b" for a
    proof -
      from that xs(2) obtain d where "(a, d) \<in> set xs" by (force simp: mkeys_def)
      with d(1) show ?thesis by blast
    qed
    ultimately show ?thesis using d by fastforce
  qed
  have "\<forall>a\<in>mkeys xs. account_view E (db s) g bs a"
    using xs(1) represents_view [OF rep] by (simp add: map_ok_def)
  note upd = applyUpdates_view [OF E h _ this, unfolded all]
  show ?thesis
  proof (cases "\<forall>a. length a = 8 \<longrightarrow> 0 \<le> sint (?bal a + blockDiff a b)")
    case True
    with upd xs(1) obtain t1 where
      t1: "applyUpdates E (db s) (map (\<lambda>(a, d). (d, accountKey a h)) xs) = Ok t1"
      "content E t1 = content E (db s) ++ map_of (rev (newBalances g bs h xs))"
      by (auto simp: map_ok_def)
    from setAll_content [OF E indexWrites_ordinary, of t1 h "blockOps b" hash bv le] obtain t2 where
      t2: "setAll E t1 ?w = Ok t2" "content E t2 = content E t1 ++ map_of (rev ?w)" by blast
    have run: "run = Ok t2" unfolding run_def by (rule updateDB_Ok [OF E]) (simp add: t1 t2)
    have "keys_ok (content E t2)"
      unfolding t1(2) t2(2) using keys newBalances_keys [OF xs(1)] indexWrites_keys [OF b(1)]
      by (intro keys_ok_add) blast+
    moreover have "content E t2 (encKey k) = spec E g (metaOf h hash b) (bs @ [(hash, b)]) k"
      if k: "wfKey k" for k
    proof -
      have acc: "map_of xs a = (if blockTouches a b then Some (blockDiff a b) else None)"
        if "length a = 8" for a
        using xs(2) [OF that] map_of_None_mkeys [of xs a] mget_eqI [of xs a _ 0]
        by (cases "map_of xs a") auto
      show ?thesis
        unfolding t1(2) t2(2) map_add_def newBalances_lookup [OF xs(1) k] indexWrites_lookup [OF b(1) k]
          spec_snoc [OF k fresh _ h b(2) le, of l, OF chain [unfolded chain_ok_def, THEN conjunct1]]
          represents_content [OF rep k]
        using k acc by (cases k) (simp_all del: spec.simps)
    qed
    moreover have "chain_ok E g (bs @ [(hash, b)])"
      using chain_ok_snoc [OF chain b fresh] True unsigned_less [of h, where 'a = nat] h by simp
    moreover have "Equal (Some (metaOf h hash b)) (Some (latestOf g (bs @ [(hash, b)])))"
      by (simp add: metaOf_def latestOf_def h [symmetric] del: of_nat_Suc)
    ultimately have "represents E (s\<lparr>db := t2, latest := Some (metaOf h hash b)\<rparr>) g (metaOf h hash b) (bs @ [(hash, b)])"
      using rep by (simp add: represents_def)
    with run True show ?thesis by auto
  next
    case False
    with upd xs(1) obtain a d where
      ad: "(a, d) \<in> set xs" "sint (?bal a + d) < 0"
      "applyUpdates E (db s) (map (\<lambda>(a, d). (d, accountKey a h)) xs) = Err (InvalidBalance a (sint (?bal a + d)))"
      by (auto simp: map_ok_def)
    with False d [OF ad(1)] show ?thesis by (auto simp: run_def updateDB_def)
  qed
qed

lemma range_order_map_ok: "range_order ord \<Longrightarrow> map_ok m \<Longrightarrow> map_ok (ord m)"
  by (simp add: map_ok_def range_order_distinct range_order_mkeys)

lemma range_order_mget:
  "range_order ord \<Longrightarrow> map_ok m \<Longrightarrow> mget z (ord m) a = mget z m a"
  by (simp add: mget_def range_order_map_of map_ok_def)

lemma next_height:
  assumes "represents E s g l bs" "Suc (tipHeight g bs) < 2 ^ 64"
  shows "bmHeight l = of_nat (tipHeight g bs)" "unat (bmHeight l + 1) = Suc (tipHeight g bs)"
    "bmHeight l < bmHeight l + 1"
proof -
  show l: "bmHeight l = of_nat (tipHeight g bs)" using assms(1) by (simp add: represents_def latestOf_def)
  then have "bmHeight l + 1 = of_nat (Suc (tipHeight g bs))" by simp
  with assms(2) show u: "unat (bmHeight l + 1) = Suc (tipHeight g bs)"
    by (simp add: unat_of_nat del: of_nat_Suc)
  from l assms(2) have "unat (bmHeight l) = tipHeight g bs" by (simp add: unat_of_nat)
  with u show "bmHeight l < bmHeight l + 1" by (simp add: word_less_nat_alt)
qed

lemma Index_represents:
  assumes rep: "represents E s g l bs" and lat: "latest s = Some l" and ord: "range_order ord"
    and b: "block_ok b" "encoded (marshalBlock E b) \<noteq> None"
    and fresh: "hash \<notin> fst ` set (chainOf g bs)" and bound: "Suc (tipHeight g bs) < 2 ^ 64"
  shows "if \<forall>a. length a = 8 \<longrightarrow> 0 \<le> sint (balanceAt g bs a (tipHeight g bs) + blockDiff a b)
    then \<exists>s'. Index E ord s (bmHeight l + 1) hash b = (s', Ok ()) \<and>
           latest s' = Some (metaOf (bmHeight l + 1) hash b) \<and> genesis s' = genesis s \<and>
           represents E s' g (metaOf (bmHeight l + 1) hash b) (bs @ [(hash, b)])
    else \<exists>a. length a = 8 \<and> sint (balanceAt g bs a (tipHeight g bs) + blockDiff a b) < 0 \<and>
           Index E ord s (bmHeight l + 1) hash b =
             (s, Err (Failed ''indexdb: got error indexing block''
                (InvalidBalance a (sint (balanceAt g bs a (tipHeight g bs) + blockDiff a b)))))"
proof -
  let ?h = "bmHeight l + 1"
  note h = next_height [OF rep bound]
  from b(2) obtain bv where bv: "marshalBlock E b = Inr bv" by (cases "marshalBlock E b") auto
  from env_meta [OF represents_env [OF rep]] obtain le where
    le: "marshalMeta E (metaOf ?h hash b) = Inr le" by blast
  from block_changes [OF b(1), of ?h] obtain m where
    m: "indexOps ?h (blockOps b) ([], []) = Ok (m, proxyKeysOf ?h (blockOps b))" "map_ok m"
    "\<And>a. length a = 8 \<Longrightarrow> mget 0 m a = blockDiff a b \<and> (a \<in> mkeys m \<longleftrightarrow> blockTouches a b)" by blast
  have xs: "map_ok (ord m)"
    "\<And>a. length a = 8 \<Longrightarrow> mget 0 (ord m) a = blockDiff a b \<and> (a \<in> mkeys (ord m) \<longleftrightarrow> blockTouches a b)"
    using m ord by (simp_all add: range_order_map_ok range_order_mget range_order_mkeys)
  note txn = index_txn [OF rep b(1) bv fresh h(2) le xs]
  have meta: "\<lparr>bmHash = hash, bmHeight = ?h, bmParent = [], bmTimestamp = ibTimestamp b\<rparr> = metaOf ?h hash b"
    by (simp add: metaOf_def)
  show ?thesis
  proof (cases "\<forall>a. length a = 8 \<longrightarrow> 0 \<le> sint (balanceAt g bs a (tipHeight g bs) + blockDiff a b)")
    case True
    with txn obtain d where d:
      "updateDB E (db s) (\<lambda>t.
        andThen (applyUpdates E t (map (\<lambda>(a, d). (d, accountKey a ?h)) (ord m))) (\<lambda>t'.
        setAll E t' (indexWrites (proxyKeysOf ?h (blockOps b)) ?h hash bv le))) = Ok d"
      "represents E (s\<lparr>db := d, latest := Some (metaOf ?h hash b)\<rparr>) g (metaOf ?h hash b) (bs @ [(hash, b)])"
      by auto
    have "bmHeight (metaOf ?h hash b) = bmHeight l + 1" by (simp add: metaOf_def)
    with d(1) have "Index E ord s ?h hash b = (s\<lparr>db := d, latest := Some (metaOf ?h hash b)\<rparr>, Ok ())"
      using h(3) by (simp add: Index_def lat m(1) bv meta le Let_def linorder_not_le)
    with True d(2) show ?thesis by auto
  next
    case False
    with txn obtain a where a: "length a = 8" "sint (balanceAt g bs a (tipHeight g bs) + blockDiff a b) < 0"
      "updateDB E (db s) (\<lambda>t.
        andThen (applyUpdates E t (map (\<lambda>(a, d). (d, accountKey a ?h)) (ord m))) (\<lambda>t'.
        setAll E t' (indexWrites (proxyKeysOf ?h (blockOps b)) ?h hash bv le))) =
       Err (InvalidBalance a (sint (balanceAt g bs a (tipHeight g bs) + blockDiff a b)))"
      by auto
    then have "Index E ord s ?h hash b = (s, Err (Failed ''indexdb: got error indexing block''
        (InvalidBalance a (sint (balanceAt g bs a (tipHeight g bs) + blockDiff a b)))))"
      using h(3) by (simp add: Index_def lat m(1) bv meta le Let_def linorder_not_le)
    with False a show ?thesis by auto
  qed
qed

subsection \<open>SetGenesis starts a chain\<close>

lemma SetGenesis_represents:
  assumes E: "env_ok E" and empty: "kvMap E (db s) = []"
    and enc: "encoded (marshalBlock E \<lparr>ibTimestamp = bmTimestamp g, ibTransactions = []\<rparr>) \<noteq> None"
  shows "\<exists>s'. SetGenesis E s g = (s', Ok ()) \<and> genesis s' = Some g \<and> latest s' = Some g \<and>
    represents E s' g g []"
proof -
  have g: "Clone g = g" by (simp add: Clone_def)
  from enc obtain bv where
    bv: "marshalBlock E \<lparr>ibTimestamp = bmTimestamp g, ibTransactions = []\<rparr> = Inr bv"
    by (cases "marshalBlock E \<lparr>ibTimestamp = bmTimestamp g, ibTransactions = []\<rparr>") auto
  from env_meta [OF E] obtain ge where ge: "marshalMeta E g = Inr ge" by blast
  let ?w = "[(encKey KGenesis, ge), (encKey (KBlock (bmHeight g)), bv),
    (encKey (KHash (bmHash g)), putU64 (bmHeight g)), (encKey (KHeight (bmHeight g)), bmHash g),
    (encKey KLatest, ge)]"
  from setAll_content [OF E, of ?w "db s"] obtain d where
    d: "setAll E (db s) ?w = Ok d" "content E d = map_of (rev ?w)"
    using empty ordinary_encKey by (auto simp del: encKey.simps)
  have at: "blkAt g [] (unat h) = (if h = bmHeight g then Some (genesisBlk g) else None)" for h
    by (auto simp: blkAt_def tipHeight_def baseHeight_def chainOf_def word_unat_eq_iff)
  have "content E d (encKey k) = spec E g g [] k" if "wfKey k" for k
    unfolding d(2) using that bv ge
    by (cases k) (simp_all add: at genesisBlk_def heightOf_def chainOf_def baseHeight_def
        blockTouches_def blockCreatesProxy_def blockOps_def del: encKey.simps)
  moreover have "keys_ok (content E d)"
  proof -
    have "keys_ok (Map.empty ++ map_of (rev ?w))"
      by (rule keys_ok_add) (auto simp: keys_ok_def simp del: encKey.simps, (metis wfKey.simps)+)
    then show ?thesis by (simp add: d(2))
  qed
  moreover have "chain_ok E g []"
  proof -
    show ?thesis
      using bv unsigned_less [of "bmHeight g", where 'a = nat]
      by (simp add: chain_ok_def chainOf_def tipHeight_def baseHeight_def genesisBlk_def)
  qed
  moreover have "Equal (Some g) (Some (latestOf g []))"
    by (simp add: latestOf_def chainOf_def genesisBlk_def tipHeight_def baseHeight_def)
  ultimately have "represents E (s\<lparr>db := d, genesis := Some g, latest := Some g\<rparr>) g g []"
    using E by (simp add: represents_def)
  moreover have "SetGenesis E s g = (s\<lparr>db := d, genesis := Some g, latest := Some g\<rparr>, Ok ())"
    using updateDB_Ok [OF E, of "\<lambda>t. setAll E t ?w" "db s" d] d(1)
    by (simp add: SetGenesis_def g ge bv)
  ultimately show ?thesis by simp
qed

end
