(* ===== verification/IndexReset.thy ===== *)
theory IndexReset
  imports IndexCorrect
begin

section \<open>Cutting the index back\<close>

text \<open>
  \<^verbatim>\<open>ResetTo\<close> on a represented chain: the scans collect exactly the keys of the blocks
  above the base height, and what remains represents the chain cut at that height. The cached
  pointers of a store that has just been opened are filled by \<^verbatim>\<open>Genesis\<close> and
  \<^verbatim>\<open>Latest\<close>.
\<close>

subsection \<open>The cached metadata\<close>

lemma Clone_id [simp]: "Clone b = b"
  by (simp add: Clone_def)

lemma readMeta_represents:
  assumes rep: "represents E s g l bs"
  shows "readMeta E s genesisKey = Ok g" "readMeta E s latestKey = Ok l"
proof -
  have "readMeta E s (encKey k) = Ok m" if "wfKey k" "spec E g l bs k = encoded (marshalMeta E m)" for k m
  proof -
    from env_meta [OF represents_env [OF rep]] obtain v where
      "marshalMeta E m = Inr v" "unmarshalMeta E v = Inr m" by blast
    with represents_get [OF rep that(1)] that(2) show ?thesis by (simp add: readMeta_def del: encKey.simps)
  qed
  from this [of KGenesis g] this [of KLatest l] show "readMeta E s genesisKey = Ok g" "readMeta E s latestKey = Ok l"
    by simp_all
qed

lemma Latest_represents:
  "represents E s g l bs \<Longrightarrow> Latest E s = (s\<lparr>latest := Some l\<rparr>, Ok (Some l))"
  using readMeta_represents(2) [of E s g l bs]
  by (auto simp: Latest_def represents_def split: option.splits)

lemma Genesis_represents:
  "represents E s g l bs \<Longrightarrow> Genesis E s = (s\<lparr>genesis := Some g\<rparr>, Ok (Some g))"
  using readMeta_represents(1) [of E s g l bs]
  by (auto simp: Genesis_def represents_def split: option.splits)

lemma represents_cache:
  "represents E s g l bs \<Longrightarrow> represents E (s\<lparr>latest := Some l\<rparr>) g l bs"
  "represents E s g l bs \<Longrightarrow> represents E (s\<lparr>genesis := Some g\<rparr>) g l bs"
  by (simp_all add: represents_def)

subsection \<open>The items of a scan\<close>

lemma scan_mem:
  assumes "env_ok E"
  shows "(k, v) \<in> set (scan E d [c]) \<longleftrightarrow> prefix [c] k \<and> (\<exists>w. v = Inr w \<and> content E d k = Some w)"
  by (auto simp: scan_eq [OF assms] env_content [OF assms])

lemma scan_keys:
  assumes rep: "represents E s g l bs"
  shows "fst ` set (scan E (db s) [accountPrefix]) =
      {encKey (KAccount a h) | a h. length a = 8 \<and> spec E g l bs (KAccount a h) \<noteq> None}"
    and "fst ` set (scan E (db s) [isProxyPrefix]) =
      {encKey (KProxy a h) | a h. length a = 8 \<and> spec E g l bs (KProxy a h) \<noteq> None}"
proof -
  have E: "env_ok E" and keys: "keys_ok (content E (db s))" using rep by (simp_all add: represents_def)
  have fst: "fst ` set (scan E (db s) [c]) = {k. prefix [c] k \<and> content E (db s) k \<noteq> None}" for c
  proof (rule set_eqI)
    fix k
    have "k \<in> fst ` set (scan E (db s) [c]) \<longleftrightarrow> (\<exists>v. (k, v) \<in> set (scan E (db s) [c]))" by force
    then show "k \<in> fst ` set (scan E (db s) [c]) \<longleftrightarrow> k \<in> {k. prefix [c] k \<and> content E (db s) k \<noteq> None}"
      unfolding scan_mem [OF E] by auto
  qed
  have mem: "prefix [c] k \<and> content E (db s) k \<noteq> None \<longleftrightarrow>
      (\<exists>j. wfKey j \<and> k = encKey j \<and> prefix [c] (encKey j) \<and> spec E g l bs j \<noteq> None)" for c k
    using keys represents_content [OF rep] unfolding keys_ok_def by metis
  show "fst ` set (scan E (db s) [accountPrefix]) =
      {encKey (KAccount a h) | a h. length a = 8 \<and> spec E g l bs (KAccount a h) \<noteq> None}"
    unfolding fst mem prefix_encKey by (force simp del: spec.simps encKey.simps)
  show "fst ` set (scan E (db s) [isProxyPrefix]) =
      {encKey (KProxy a h) | a h. length a = 8 \<and> spec E g l bs (KProxy a h) \<noteq> None}"
    unfolding fst mem prefix_encKey by (force simp del: spec.simps encKey.simps)
qed

lemma keysAbove_Ok:
  assumes "\<forall>k\<in>fst ` set its. \<exists>h. height k = Ok h"
    and height: "\<And>k. (height k :: (txn_error, u64) outcome) = andThen (subslice k 9 (length k)) getU64"
  shows "\<exists>ks. keysAbove base its = Ok ks \<and> set ks = {k \<in> fst ` set its. \<exists>h. height k = Ok h \<and> base < h}"
  using assms(1)
proof (induction its)
  case Nil
  then show ?case by simp
next
  case (Cons it its)
  obtain k v where it: "it = (k, v)" by force
  from Cons obtain ks where
    ks: "keysAbove base its = Ok ks" "set ks = {k \<in> fst ` set its. \<exists>h. height k = Ok h \<and> base < h}"
    by auto
  from Cons.prems it obtain h where h: "height k = Ok h" by auto
  then have "keysAbove base (it # its) = Ok (if h > base then k # ks else ks)"
    using ks it by (simp add: height [symmetric] del: andThen_Ok_iff andThen_Ok_rev)
  moreover have "set (if h > base then k # ks else ks) =
      {k' \<in> fst ` set (it # its). \<exists>h. height k' = Ok h \<and> base < h}"
    using ks(2) h it by auto
  ultimately show ?case by blast
qed

text \<open>The heights of the chain in the order of their keys.\<close>

definition hashAt :: "BlockMeta \<Rightarrow> blk list \<Rightarrow> u64 \<Rightarrow> bytes" where
  "hashAt g bs h = fst (the (blkAt g bs (unat h)))"

lemma scan_heights:
  assumes rep: "represents E s g l bs"
  shows "\<exists>hs. scan E (db s) [height2HashPrefix] = map (\<lambda>h. (height2hashKey h, Inr (hashAt g bs h))) hs \<and>
    sorted_wrt (<) hs \<and> set hs = {h. blkAt g bs (unat h) \<noteq> None}"
proof -
  have E: "env_ok E" and keys: "keys_ok (content E (db s))" using rep by (simp_all add: represents_def)
  let ?f = "\<lambda>h. (height2hashKey h, Inr (hashAt g bs h) :: (kverr, bytes) sum)"
  have mem: "x \<in> set (scan E (db s) [height2HashPrefix]) \<longleftrightarrow> (\<exists>h. x = ?f h \<and> blkAt g bs (unat h) \<noteq> None)" for x
  proof -
    have c: "content E (db s) (height2hashKey h) = map_option fst (blkAt g bs (unat h))" for h
      using represents_content [OF rep, of "KHeight h"] by simp
    have p: "\<exists>h. k = height2hashKey h" if "prefix [height2HashPrefix] k" "content E (db s) k = Some w" for k w
      using keys that unfolding keys_ok_def by (metis prefix_encKey(3) encKey.simps(4) option.distinct(1))
    obtain k v where x: "x = (k, v)" by force
    show ?thesis
    proof
      assume "x \<in> set (scan E (db s) [height2HashPrefix])"
      then obtain w where w: "prefix [height2HashPrefix] k" "v = Inr w" "content E (db s) k = Some w"
        using x scan_mem [OF E] by blast
      from p [OF w(1,3)] obtain h where h: "k = height2hashKey h" by blast
      with w(3) c have "map_option fst (blkAt g bs (unat h)) = Some w" by simp
      with x w h show "\<exists>h. x = ?f h \<and> blkAt g bs (unat h) \<noteq> None" by (auto simp: hashAt_def)
    next
      assume "\<exists>h. x = ?f h \<and> blkAt g bs (unat h) \<noteq> None"
      then obtain h b where "x = ?f h" "blkAt g bs (unat h) = Some b" by auto
      then show "x \<in> set (scan E (db s) [height2HashPrefix])"
        using c [of h] by (simp add: scan_mem [OF E] hashAt_def) (simp add: height2hashKey_def)
    qed
  qed
  then have "\<forall>x\<in>set (scan E (db s) [height2HashPrefix]). \<exists>h. x = ?f h" by blast
  then have "\<exists>hs. scan E (db s) [height2HashPrefix] = map ?f hs" by (rule ex_map_conv [THEN iffD2])
  then obtain hs where hs: "scan E (db s) [height2HashPrefix] = map ?f hs" by blast
  have inj: "?f h = ?f h' \<longleftrightarrow> h = h'" for h h' by (auto simp: height2hashKey_def)
  have "set hs = {h. blkAt g bs (unat h) \<noteq> None}"
    using mem [of "?f _"] unfolding hs by (auto simp: inj image_iff height2hashKey_def)
  moreover have "sorted_wrt (<) (map fst (scan E (db s) [height2HashPrefix]))"
    using env_sorted [OF E, of "db s"]
    by (simp add: scan_eq [OF E] sorted_wrt_map sorted_wrt_filter split_beta)
  then have "sorted_wrt (<) hs" unfolding hs by (simp add: sorted_wrt_map)
  ultimately show ?thesis using hs by blast
qed

lemma blocksAbove_Ok:
  "blocksAbove base (map (\<lambda>h. (height2hashKey h, Inr (f h))) hs) (ks, l0) =
   Ok (ks @ concat (map (\<lambda>h. [height2hashKey h, blockKey h, hash2heightKey (f h)]) (filter (\<lambda>h. h > base) hs)),
       last (l0 # filter (\<lambda>h. h \<le> base) hs))"
proof (induction hs arbitrary: ks l0)
  case Nil
  then show ?case by simp
next
  case (Cons h hs)
  show ?case
    using Cons.IH
    by (auto simp: accountKey_parts(5) linorder_not_less simp del: andThen_Ok_iff andThen_Ok_rev One_nat_def)
qed

lemma last_filter_le:
  "sorted_wrt (<) hs \<Longrightarrow> base \<in> set hs \<Longrightarrow> last (l0 # filter (\<lambda>h. h \<le> base) hs) = base"
  for base :: "'a :: linorder"
proof (induction hs arbitrary: l0)
  case Nil
  then show ?case by simp
next
  case (Cons h hs)
  show ?case
  proof (cases "h = base")
    case True
    with Cons.prems have "filter (\<lambda>h. h \<le> base) hs = []" by (auto simp: filter_empty_conv)
    with True show ?thesis by simp
  next
    case False
    with Cons.prems have "base \<in> set hs" "h < base" by auto
    with Cons show ?thesis by auto
  qed
qed

subsection \<open>The keys that are deleted\<close>

definition resetSet :: "'db env \<Rightarrow> BlockMeta \<Rightarrow> BlockMeta \<Rightarrow> blk list \<Rightarrow> u64 \<Rightarrow> key set" where
  "resetSet E g l bs base =
     {KAccount a h | a h. length a = 8 \<and> base < h \<and> spec E g l bs (KAccount a h) \<noteq> None} \<union>
     {KProxy a h | a h. length a = 8 \<and> base < h \<and> spec E g l bs (KProxy a h) \<noteq> None} \<union>
     (\<Union>h\<in>{h. base < h \<and> blkAt g bs (unat h) \<noteq> None}. {KHeight h, KBlock h, KHash (hashAt g bs h)})"

lemma resetSet_wf: "k \<in> resetSet E g l bs base \<Longrightarrow> wfKey k"
  by (auto simp: resetSet_def simp del: spec.simps)

lemma resetSet_enc:
  assumes "wfKey k"
  shows "encKey k \<in> encKey ` resetSet E g l bs base \<longleftrightarrow> k \<in> resetSet E g l bs base"
proof
  assume "encKey k \<in> encKey ` resetSet E g l bs base"
  then obtain k' where "k' \<in> resetSet E g l bs base" "encKey k = encKey k'" by blast
  with encKey_inject [OF assms resetSet_wf [OF this(1)]] show "k \<in> resetSet E g l bs base" by simp
qed simp

lemma resetKeys_scans:
  assumes rep: "represents E s g l bs"
  shows "\<exists>ks hs. resetKeys E (db s) base = Ok (ks, last (0 # filter (\<lambda>h. h \<le> base) hs)) \<and>
    set ks = encKey ` resetSet E g l bs base \<and> sorted_wrt (<) hs \<and>
    set hs = {h. blkAt g bs (unat h) \<noteq> None}"
proof -
  define height :: "bytes \<Rightarrow> (txn_error, u64) outcome"
    where "height k = andThen (subslice k 9 (length k)) getU64" for k
  have ha: "height (encKey (KAccount a h)) = Ok h" "height (encKey (KProxy a h)) = Ok h" if "length a = 8" for a h
    using that by (simp_all only: height_def encKey.simps accountKey_parts)
  obtain ka where ka: "keysAbove base (scan E (db s) [accountPrefix]) = Ok ka"
    "set ka = {k \<in> fst ` set (scan E (db s) [accountPrefix]). \<exists>h. height k = Ok h \<and> base < h}"
    using keysAbove_Ok [of "scan E (db s) [accountPrefix]" height base] ha(1)
    unfolding scan_keys(1) [OF rep] height_def by blast
  obtain kp where kp: "keysAbove base (scan E (db s) [isProxyPrefix]) = Ok kp"
    "set kp = {k \<in> fst ` set (scan E (db s) [isProxyPrefix]). \<exists>h. height k = Ok h \<and> base < h}"
    using keysAbove_Ok [of "scan E (db s) [isProxyPrefix]" height base] ha(2)
    unfolding scan_keys(2) [OF rep] height_def by blast
  obtain hs where hs: "scan E (db s) [height2HashPrefix] = map (\<lambda>h. (height2hashKey h, Inr (hashAt g bs h))) hs"
    "sorted_wrt (<) hs" "set hs = {h. blkAt g bs (unat h) \<noteq> None}"
    using scan_heights [OF rep] by blast
  let ?kb = "concat (map (\<lambda>h. [height2hashKey h, blockKey h, hash2heightKey (hashAt g bs h)]) (filter (\<lambda>h. h > base) hs))"
  have "resetKeys E (db s) base = Ok ((ka @ kp) @ ?kb, last (0 # filter (\<lambda>h. h \<le> base) hs))"
    by (simp add: resetKeys_def ka(1) kp(1) hs(1) blocksAbove_Ok)
  moreover have "set ka = encKey ` {KAccount a h | a h. length a = 8 \<and> base < h \<and> spec E g l bs (KAccount a h) \<noteq> None}"
    unfolding ka(2) scan_keys(1) [OF rep] using ha(1) by (force simp del: spec.simps encKey.simps)
  moreover have "set kp = encKey ` {KProxy a h | a h. length a = 8 \<and> base < h \<and> spec E g l bs (KProxy a h) \<noteq> None}"
    unfolding kp(2) scan_keys(2) [OF rep] using ha(2) by (force simp del: spec.simps encKey.simps)
  moreover have "set ?kb = encKey ` (\<Union>h\<in>{h. base < h \<and> blkAt g bs (unat h) \<noteq> None}.
      {KHeight h, KBlock h, KHash (hashAt g bs h)})"
    using hs(3) by (auto simp: image_UN)
  ultimately show ?thesis
    using hs(2,3) by (intro exI [of _ "(ka @ kp) @ ?kb"] exI [of _ hs]) (auto simp: resetSet_def image_Un)
qed

lemma resetKeys_represents:
  assumes "represents E s g l bs" and "blkAt g bs (unat base) \<noteq> None"
  shows "\<exists>ks. resetKeys E (db s) base = Ok (ks, base) \<and> set ks = encKey ` resetSet E g l bs base"
  using resetKeys_scans [OF assms(1), of base] assms(2) last_filter_le by fastforce

subsection \<open>What remains\<close>

lemma take_distinct:
  "distinct (map fst (chainOf g bs)) \<Longrightarrow> distinct (map fst (chainOf g (take j bs)))"
  by (auto simp: chainOf_def take_map [symmetric] dest: in_set_takeD)

lemma heightOf_take:
  assumes "distinct (map fst (chainOf g bs))" "j \<le> length bs"
  shows "heightOf g (take j bs) x =
    (case heightOf g bs x of None \<Rightarrow> None | Some n \<Rightarrow> if n \<le> baseHeight g + j then Some n else None)"
proof -
  have eq: "heightOf g (take j bs) x = Some n \<longleftrightarrow> heightOf g bs x = Some n \<and> n \<le> baseHeight g + j" for n
    unfolding heightOf_Some [OF take_distinct [OF assms(1)]] heightOf_Some [OF assms(1)]
    using assms(2) by (auto simp: blkAt_take split: if_splits)
  show ?thesis
  proof (cases "heightOf g (take j bs) x")
    case None
    then have "\<not> (heightOf g bs x = Some n \<and> n \<le> baseHeight g + j)" for n using eq [of n] by simp
    then show ?thesis using None by (simp split: option.split)
  next
    case (Some n)
    with eq [of n] show ?thesis by simp
  qed
qed

lemma spec_take:
  assumes k: "wfKey k" "k \<noteq> KLatest" and dist: "distinct (map fst (chainOf g bs))"
    and j: "j \<le> length bs" "unat base = baseHeight g + j" and tip: "tipHeight g bs < 2 ^ 64"
  shows "(if k \<in> resetSet E g l bs base then None else spec E g l bs k) = spec E g l' (take j bs) k"
proof (cases k)
  case (KAccount a h)
  then show ?thesis using k j
    by (auto simp: resetSet_def blkAt_take balanceAt_take word_less_nat_alt min_def split: option.splits)
next
  case (KProxy a h)
  then show ?thesis using k j
    by (auto simp: resetSet_def blkAt_take word_less_nat_alt split: option.splits)
next
  case (KBlock h)
  then show ?thesis using k j
    by (cases "blkAt g bs (unat h)") (auto simp: resetSet_def blkAt_take word_less_nat_alt)
next
  case (KHeight h)
  then show ?thesis using k j
    by (cases "blkAt g bs (unat h)") (auto simp: resetSet_def blkAt_take word_less_nat_alt)
next
  case (KHash x)
  have "k \<in> resetSet E g l bs base \<longleftrightarrow> (\<exists>n. heightOf g bs x = Some n \<and> baseHeight g + j < n)"
  proof
    assume "k \<in> resetSet E g l bs base"
    then obtain h where "base < h" "blkAt g bs (unat h) \<noteq> None" "x = hashAt g bs h"
      using KHash by (auto simp: resetSet_def)
    then show "\<exists>n. heightOf g bs x = Some n \<and> baseHeight g + j < n"
      using j by (intro exI [of _ "unat h"]) (auto simp: heightOf_Some [OF dist] hashAt_def word_less_nat_alt)
  next
    assume "\<exists>n. heightOf g bs x = Some n \<and> baseHeight g + j < n"
    then obtain n b where n: "blkAt g bs n = Some b" "fst b = x" "baseHeight g + j < n"
      unfolding heightOf_Some [OF dist] by blast
    moreover from this(1) tip have "unat (of_nat n :: u64) = n"
      by (auto simp: blkAt_def unat_of_nat split: if_splits)
    ultimately have "base < of_nat n" "blkAt g bs (unat (of_nat n :: u64)) \<noteq> None" "x = hashAt g bs (of_nat n)"
      using j by (simp_all add: word_less_nat_alt hashAt_def)
    then show "k \<in> resetSet E g l bs base" using KHash by (auto simp: resetSet_def)
  qed
  then show ?thesis using KHash by (auto simp: heightOf_take [OF dist j(1)] split: option.splits)
next
  case KGenesis
  then show ?thesis by (auto simp: resetSet_def)
qed (use k in simp)

lemma chain_ok_take:
  assumes "chain_ok E g bs" "j \<le> length bs"
  shows "chain_ok E g (take j bs)"
proof -
  have "distinct (map fst (chainOf g (take j bs)))"
    using assms take_distinct by (simp add: chain_ok_def)
  moreover have "tipHeight g (take j bs) \<le> tipHeight g bs" by (simp add: tipHeight_def)
  moreover have "set (chainOf g (take j bs)) \<subseteq> set (chainOf g bs)"
    by (auto simp: chainOf_def dest: in_set_takeD)
  ultimately show ?thesis
    using assms unfolding chain_ok_def
    by (auto simp: balanceAt_take dest: in_set_takeD)
qed

lemma latestOf_take:
  assumes "j \<le> length bs" "unat base = baseHeight g + j" "blkAt g bs (unat base) = Some (hash, b)"
  shows "Equal (Some (metaOf base hash b)) (Some (latestOf g (take j bs)))"
proof -
  have tip: "tipHeight g (take j bs) = unat base" using assms by (simp add: tipHeight_def)
  have "blkAt g (take j bs) (unat base) = Some (hash, b)" using assms by (simp add: blkAt_take)
  with blkAt_tip [of g "take j bs"] tip have "last (chainOf g (take j bs)) = (hash, b)" by simp
  with tip show ?thesis by (simp add: latestOf_def metaOf_def)
qed

text \<open>The whole of \<^verbatim>\<open>ResetTo\<close>.\<close>

lemma ResetTo_represents:
  assumes rep: "represents E s g l bs" and j: "j < length bs" "unat base = baseHeight g + j"
  shows "\<exists>s' l'. ResetTo E s base = (s', Ok ()) \<and> latest s' = Some l' \<and> genesis s' = genesis s \<and>
    represents E s' g l' (take j bs)"
proof -
  let ?s = "s\<lparr>latest := Some l\<rparr>"
  have E: "env_ok E" and chain: "chain_ok E g bs" and keys: "keys_ok (content E (db s))"
    using rep by (simp_all add: represents_def)
  then have dist: "distinct (map fst (chainOf g bs))" and tip: "tipHeight g bs < 2 ^ 64"
    by (simp_all add: chain_ok_def)
  have base: "blkAt g bs (unat base) \<noteq> None" using j by (auto simp: blkAt_def tipHeight_def)
  then obtain hash b where hb: "blkAt g bs (unat base) = Some (hash, b)" by auto
  have "bmHeight l = of_nat (tipHeight g bs)" using rep by (simp add: represents_def latestOf_def)
  with tip have "unat (bmHeight l) = tipHeight g bs" by (simp add: unat_of_nat)
  then have above: "base < bmHeight l" using j by (simp add: word_less_nat_alt tipHeight_def)
  from resetKeys_represents [OF rep base] obtain ks where
    ks: "resetKeys E (db s) base = Ok (ks, base)" "set ks = encKey ` resetSet E g l bs base" by blast
  have "\<forall>k\<in>set (sort ks). ordinary_key k" using ks(2) by auto
  from env_batch [OF E this, of "db s"] obtain d where
    d: "kvBatchDelete E (db s) (sort ks) = (d, None)"
    "content E d = (\<lambda>k. if k \<in> set ks then None else content E (db s) k)" by auto
  have inR: "encKey k \<in> set ks \<longleftrightarrow> k \<in> resetSet E g l bs base" if "wfKey k" for k
    unfolding ks(2) by (rule resetSet_enc [OF that])
  have cd: "content E d (encKey k) = spec E g l' (take j bs) k" if "wfKey k" "k \<noteq> KLatest" for k l'
    unfolding d(2) inR [OF that(1)] represents_content [OF rep that(1)]
    by (rule spec_take [OF that dist _ j(2) tip]) (use j(1) in simp)
  have bt: "blkAt g (take j bs) (unat base) = Some (hash, b)" using hb j by (simp add: blkAt_take)
  have "encoded (marshalBlock E b) \<noteq> None"
    using chain blkAt_mem [OF hb] by (auto simp: chain_ok_def)
  then obtain bv where bv: "marshalBlock E b = Inr bv" by (cases "marshalBlock E b") auto
  have "kvGet E d (blockKey base) = Inr bv" "kvGet E d (height2hashKey base) = Inr hash"
    using cd [of "KBlock base" l] cd [of "KHeight base" l] bt bv by (simp_all add: env_get [OF E])
  then have look: "blockByHeight E (?s\<lparr>db := d\<rparr>) base = Ok b" "HashForHeight E (?s\<lparr>db := d\<rparr>) base = Ok hash"
    using env_block [OF E bv] by (simp_all add: blockByHeight_def HashForHeight_def)
  let ?l = "metaOf base hash b"
  from env_meta [OF E] obtain le where le: "marshalMeta E ?l = Inr le" by blast
  from env_set [OF E, of latestKey d le] ordinary_encKey [of KLatest] obtain t where
    t: "kvSet E d latestKey le = Inr t" "content E t = (content E d)(latestKey \<mapsto> le)" by auto
  have meta: "\<lparr>bmHash = hash, bmHeight = base, bmParent = [], bmTimestamp = ibTimestamp b\<rparr> = ?l"
    by (simp add: metaOf_def)
  have "updateDB E d (\<lambda>t. liftKV (kvSet E t latestKey le)) = Ok t"
    by (rule updateDB_Ok [OF E]) (simp add: t(1))
  then have "resetLatest E (?s\<lparr>db := d\<rparr>) base = (?s\<lparr>db := t, latest := Some ?l\<rparr>, Ok ())"
    by (simp add: resetLatest_def look Let_def meta le)
  then have "ResetTo E s base = (s\<lparr>db := t, latest := Some ?l\<rparr>, Ok ())"
    using above by (simp add: ResetTo_def Latest_represents [OF rep] ks(1) d(1) linorder_not_le)
  moreover have "represents E (s\<lparr>db := t, latest := Some ?l\<rparr>) g ?l (take j bs)"
  proof -
    have "content E t (encKey k) = spec E g ?l (take j bs) k" if "wfKey k" for k
      using that cd [OF that, of ?l] encKey_inject [OF that, of KLatest] le
      by (cases "k = KLatest") (auto simp: t(2))
    moreover have "keys_ok (content E d)" using keys by (auto simp: keys_ok_def d(2) split: if_splits)
    then have "keys_ok (content E d ++ map_of [(latestKey, le)])"
      by (rule keys_ok_add) (auto intro: exI [of _ KLatest])
    then have "keys_ok (content E t)" by (simp add: t(2))
    ultimately show ?thesis
      using E chain_ok_take [OF chain, of j] latestOf_take [OF _ j(2) hb] j(1) rep
      by (simp add: represents_def)
  qed
  ultimately show ?thesis by auto
qed

end
