(* ===== verification/IndexStore.thy ===== *)
theory IndexStore
  imports IndexReset
begin

section \<open>The contract of the index and its properties\<close>

text \<open>
  The interface that the indexer and the API rely on, as a locale over an abstract store: appending
  a block, rewinding to a height, and reading a balance, each specified against the list of blocks.
  The store of \<^verbatim>\<open>indexdb\<close> is an instance (a store together with its environment and the
  iteration order of Go maps). Runs of appends and rewinds are proved once, in the locale.
\<close>

subsection \<open>Runs\<close>

datatype chain_step = Append bytes IndexedBlock | Rewind nat

fun run_store ::
  "('s \<Rightarrow> bytes \<Rightarrow> IndexedBlock \<Rightarrow> 's \<times> ('e, unit) outcome) \<Rightarrow> ('s \<Rightarrow> u64 \<Rightarrow> 's \<times> ('e, unit) outcome)
     \<Rightarrow> nat \<Rightarrow> 's \<Rightarrow> chain_step list \<Rightarrow> 's \<times> ('e, unit) outcome" where
  "run_store app rst n s [] = (s, Ok ())"
| "run_store app rst n s (Append hash b # xs) =
     (case app s hash b of (s', Ok _) \<Rightarrow> run_store app rst n s' xs | (s', e) \<Rightarrow> (s', e))"
| "run_store app rst n s (Rewind j # xs) =
     (case rst s (of_nat (n + j)) of (s', Ok _) \<Rightarrow> run_store app rst n s' xs | (s', e) \<Rightarrow> (s', e))"

fun run_chain :: "blk list \<Rightarrow> chain_step list \<Rightarrow> blk list" where
  "run_chain bs [] = bs"
| "run_chain bs (Append hash b # xs) = run_chain (bs @ [(hash, b)]) xs"
| "run_chain bs (Rewind j # xs) = run_chain (take j bs) xs"

text \<open>The accounts of a block, and the condition under which a block extends a chain.\<close>

definition blockAccounts :: "IndexedBlock \<Rightarrow> bytes list" where
  "blockAccounts b = concat (map (\<lambda>x. [opAccount x, opReceiver x]) (blockOps b))"

definition covered :: "BlockMeta \<Rightarrow> blk list \<Rightarrow> IndexedBlock \<Rightarrow> bool" where
  "covered g bs b \<longleftrightarrow>
     list_all (\<lambda>a. length a = 8 \<longrightarrow> 0 \<le> sint (balanceAt g bs a (tipHeight g bs) + blockDiff a b))
       (blockAccounts b)"

definition admissible :: "'db env \<Rightarrow> BlockMeta \<Rightarrow> blk list \<Rightarrow> bytes \<Rightarrow> IndexedBlock \<Rightarrow> bool" where
  "admissible E g bs hash b \<longleftrightarrow>
     block_ok b \<and> encoded (marshalBlock E b) \<noteq> None \<and> hash \<notin> set (map fst (chainOf g bs)) \<and>
     Suc (tipHeight g bs) < 2 ^ 64 \<and> covered g bs b"

fun valid_run :: "(blk list \<Rightarrow> bytes \<Rightarrow> IndexedBlock \<Rightarrow> bool) \<Rightarrow> blk list \<Rightarrow> chain_step list \<Rightarrow> bool" where
  "valid_run adm bs [] \<longleftrightarrow> True"
| "valid_run adm bs (Append hash b # xs) \<longleftrightarrow> adm bs hash b \<and> valid_run adm (bs @ [(hash, b)]) xs"
| "valid_run adm bs (Rewind j # xs) \<longleftrightarrow> j < length bs \<and> valid_run adm (take j bs) xs"

lemma run_chain_append: "run_chain bs (xs @ ys) = run_chain (run_chain bs xs) ys"
  by (induction bs xs rule: run_chain.induct) auto

lemma run_chain_appends: "run_chain bs (map (case_prod Append) cs) = bs @ cs"
  by (induction cs arbitrary: bs) auto

lemma valid_run_append:
  "valid_run f bs (xs @ ys) \<longleftrightarrow> valid_run f bs xs \<and> valid_run f (run_chain bs xs) ys"
  by (induction f bs xs rule: valid_run.induct) auto

subsection \<open>The interface\<close>

locale chain_store =
  fixes app :: "'s \<Rightarrow> bytes \<Rightarrow> IndexedBlock \<Rightarrow> 's \<times> ('e, unit) outcome"
    and rst :: "'s \<Rightarrow> u64 \<Rightarrow> 's \<times> ('e, unit) outcome"
    and bal :: "'s \<Rightarrow> bytes \<Rightarrow> u64 \<Rightarrow> ('e, u64) outcome"
    and config :: "'s \<Rightarrow> 'c"
    and adm :: "'c \<Rightarrow> BlockMeta \<Rightarrow> blk list \<Rightarrow> bytes \<Rightarrow> IndexedBlock \<Rightarrow> bool"
    and holds :: "'s \<Rightarrow> BlockMeta \<Rightarrow> blk list \<Rightarrow> bool"
  assumes app_law: "holds s g bs \<Longrightarrow> adm (config s) g bs hash b \<Longrightarrow>
      \<exists>s'. app s hash b = (s', Ok ()) \<and> config s' = config s \<and> holds s' g (bs @ [(hash, b)])"
    and rst_law: "holds s g bs \<Longrightarrow> j < length bs \<Longrightarrow>
      \<exists>s'. rst s (of_nat (baseHeight g + j)) = (s', Ok ()) \<and> config s' = config s \<and> holds s' g (take j bs)"
    and bal_law: "holds s g bs \<Longrightarrow> length a = 8 \<Longrightarrow> bal s a h = Ok (balanceAt g bs a (unat h))"
begin

lemma run_refines_chain:
  "holds s g bs \<Longrightarrow> valid_run (adm (config s) g) bs xs \<Longrightarrow>
   \<exists>s'. run_store app rst (baseHeight g) s xs = (s', Ok ()) \<and> config s' = config s \<and>
        holds s' g (run_chain bs xs)"
proof (induction xs arbitrary: s bs)
  case Nil
  then show ?case by simp
next
  case (Cons x xs)
  show ?case
  proof (cases x)
    case (Append hash b)
    with Cons.prems app_law [of s g bs hash b] obtain s1 where
      "app s hash b = (s1, Ok ())" "config s1 = config s" "holds s1 g (bs @ [(hash, b)])" by auto
    with Cons.IH [of s1 "bs @ [(hash, b)]"] Cons.prems Append show ?thesis by auto
  next
    case (Rewind j)
    with Cons.prems rst_law [of s g bs j] obtain s1 where
      "rst s (of_nat (baseHeight g + j)) = (s1, Ok ())" "config s1 = config s" "holds s1 g (take j bs)" by auto
    with Cons.IH [of s1 "take j bs"] Cons.prems Rewind show ?thesis by auto
  qed
qed

lemma appends_keep_history:
  assumes "holds s g bs" "valid_run (adm (config s) g) bs (map (case_prod Append) cs)" "length a = 8"
    "unat h \<le> tipHeight g bs"
  shows "\<exists>s'. run_store app rst (baseHeight g) s (map (case_prod Append) cs) = (s', Ok ()) \<and>
    bal s' a h = bal s a h"
proof -
  have "balanceAt g (bs @ cs) a (unat h) = balanceAt g bs a (unat h)"
    using assms(4) by (intro balanceAt_cong) (auto simp: blkAt_def tipHeight_def chainOf_def nth_append nth_Cons')
  with run_refines_chain [OF assms(1,2)] run_chain_appends bal_law assms(1,3) show ?thesis by metis
qed

lemma rewind_undoes:
  assumes "holds s g bs" "valid_run (adm (config s) g) bs (map (case_prod Append) cs)" "cs \<noteq> []"
    "length a = 8"
  shows "\<exists>s'. run_store app rst (baseHeight g) s (map (case_prod Append) cs @ [Rewind (length bs)]) = (s', Ok ()) \<and>
    holds s' g bs \<and> bal s' a h = bal s a h"
proof -
  let ?xs = "map (case_prod Append) cs @ [Rewind (length bs)]"
  have chain: "run_chain bs ?xs = bs" by (simp add: run_chain_append run_chain_appends)
  have "valid_run (adm (config s) g) bs ?xs"
    using assms(2,3) by (simp add: valid_run_append run_chain_appends)
  from run_refines_chain [OF assms(1) this] bal_law assms(1,4) show ?thesis
    by (metis chain)
qed

end

subsection \<open>The index as an instance\<close>

type_synonym 'db indexed =
  "'db env \<times> ((bytes \<times> u64) list \<Rightarrow> (bytes \<times> u64) list) \<times> 'db Store"

fun storeAppend :: "'db indexed \<Rightarrow> bytes \<Rightarrow> IndexedBlock \<Rightarrow> 'db indexed \<times> (db_error, unit) outcome" where
  "storeAppend (E, ord, s) hash b =
     (case latest s of
        None \<Rightarrow> ((E, ord, s), Panic ''nil pointer dereference'')
      | Some l \<Rightarrow> (case Index E ord s (bmHeight l + 1) hash b of (s', r) \<Rightarrow> ((E, ord, s'), r)))"

fun storeReset :: "'db indexed \<Rightarrow> u64 \<Rightarrow> 'db indexed \<times> (db_error, unit) outcome" where
  "storeReset (E, ord, s) base = (case ResetTo E s base of (s', r) \<Rightarrow> ((E, ord, s'), r))"

fun storeBalance :: "'db indexed \<Rightarrow> bytes \<Rightarrow> u64 \<Rightarrow> (db_error, u64) outcome" where
  "storeBalance (E, ord, s) a h = balanceByHeight E s a h"

fun storeHolds :: "'db indexed \<Rightarrow> BlockMeta \<Rightarrow> blk list \<Rightarrow> bool" where
  "storeHolds (E, ord, s) g bs \<longleftrightarrow>
     range_order ord \<and> (\<exists>l. latest s = Some l \<and> represents E s g l bs)"

lemma covered_all:
  assumes "chain_ok E g bs"
  shows "covered g bs b \<longleftrightarrow>
    (\<forall>a. length a = 8 \<longrightarrow> 0 \<le> sint (balanceAt g bs a (tipHeight g bs) + blockDiff a b))"
proof -
  have "0 \<le> sint (balanceAt g bs a (tipHeight g bs) + blockDiff a b)"
    if "length a = 8" "a \<notin> set (blockAccounts b)" for a
  proof -
    have "\<not> blockTouches a b"
      using that(2) by (auto simp: blockTouches_def list_ex_iff opTouches_def blockAccounts_def)
    then show ?thesis using assms that(1) by (simp add: untouched_blockDiff chain_ok_def)
  qed
  then show ?thesis by (auto simp: covered_def list_all_iff)
qed

lemma storeAppend_holds:
  assumes "storeHolds (E, ord, s) g bs" "admissible E g bs hash b"
  shows "\<exists>s'. storeAppend (E, ord, s) hash b = ((E, ord, s'), Ok ()) \<and> storeHolds (E, ord, s') g (bs @ [(hash, b)])"
proof -
  from assms(1) obtain l where l: "latest s = Some l" "represents E s g l bs" and ord: "range_order ord"
    by auto
  from assms(2) have "block_ok b" "encoded (marshalBlock E b) \<noteq> None" "hash \<notin> fst ` set (chainOf g bs)"
    "Suc (tipHeight g bs) < 2 ^ 64" "covered g bs b" by (simp_all add: admissible_def)
  with Index_represents [OF l(2,1) ord, of b hash] covered_all [OF represents_chain [OF l(2)]] l(1) ord
  show ?thesis by auto
qed

lemma storeReset_holds:
  assumes "storeHolds (E, ord, s) g bs" "j < length bs"
  shows "\<exists>s'. storeReset (E, ord, s) (of_nat (baseHeight g + j)) = ((E, ord, s'), Ok ()) \<and>
    storeHolds (E, ord, s') g (take j bs)"
proof -
  from assms(1) obtain l where l: "represents E s g l bs" and ord: "range_order ord" by auto
  from represents_chain [OF l] have "tipHeight g bs < 2 ^ 64" by (simp add: chain_ok_def)
  with assms(2) have "unat (of_nat (baseHeight g + j) :: u64) = baseHeight g + j"
    by (simp add: unat_of_nat tipHeight_def del: of_nat_add)
  from ResetTo_represents [OF l assms(2) this] ord show ?thesis by auto
qed

interpretation idx: chain_store storeAppend storeReset storeBalance fst admissible storeHolds
proof unfold_locales
  fix s :: "'b indexed" and g bs hash b
  assume "storeHolds s g bs" "admissible (fst s) g bs hash b"
  then show "\<exists>s'. storeAppend s hash b = (s', Ok ()) \<and> fst s' = fst s \<and> storeHolds s' g (bs @ [(hash, b)])"
    using storeAppend_holds by (cases s) fastforce
next
  fix s :: "'b indexed" and g bs j
  assume "storeHolds s g bs" "j < length bs"
  then show "\<exists>s'. storeReset s (of_nat (baseHeight g + j)) = (s', Ok ()) \<and> fst s' = fst s \<and> storeHolds s' g (take j bs)"
    using storeReset_holds by (cases s) fastforce
next
  fix s :: "'b indexed" and g bs and a :: bytes and h
  assume "storeHolds s g bs" "length a = 8"
  then show "storeBalance s a h = Ok (balanceAt g bs a (unat h))"
    using balanceByHeight_represents by (cases s) auto
qed

end
