(* ===== verification/IndexProps.thy ===== *)
theory IndexProps
  imports IndexStore
begin

section \<open>Properties of the index\<close>

text \<open>
  The properties of \<^verbatim>\<open>indexdb\<close> in terms of its own operations, and a concrete
  environment (an association list read in key order, and a self-delimiting encoding of the
  messages) at which they are instantiated.
\<close>

subsection \<open>A concrete environment\<close>

definition alistView :: "(bytes \<times> bytes) list \<Rightarrow> (bytes \<times> bytes) list" where
  "alistView d = map (\<lambda>k. (k, the (map_of d k))) (sort (remdups (map fst d)))"

fun delimit :: "bytes \<Rightarrow> bytes" where
  "delimit [] = [0]"
| "delimit (b # bs) = 1 # b # delimit bs"

fun undelimit :: "bytes \<Rightarrow> (bytes \<times> bytes) option" where
  "undelimit [] = None"
| "undelimit [t] = (if t = 0 then Some ([], []) else None)"
| "undelimit (t # b # bs) =
     (if t = 0 then Some ([], b # bs) else map_option (\<lambda>(x, r). (b # x, r)) (undelimit bs))"

definition sampleMetaEnc :: "BlockMeta \<Rightarrow> bytes" where
  "sampleMetaEnc m = putU64 (bmHeight m) @ putU64 (bmTimestamp m) @ delimit (bmHash m) @ delimit (bmParent m)"

definition sampleMetaDec :: "bytes \<Rightarrow> (string, BlockMeta) sum" where
  "sampleMetaDec bs =
     (case (getU64 bs :: (unit, u64) outcome, getU64 (drop 8 bs) :: (unit, u64) outcome, undelimit (drop 16 bs)) of
        (Ok h, Ok t, Some (x, r)) \<Rightarrow>
          (case undelimit r of
             Some (p, _) \<Rightarrow> Inr \<lparr>bmHash = x, bmHeight = h, bmParent = p, bmTimestamp = t\<rparr>
           | None \<Rightarrow> Inl ''truncated'')
      | _ \<Rightarrow> Inl ''truncated'')"

text \<open>The two accounts of the examples, and a block that creates both and pays one of them.\<close>

definition alice :: bytes where "alice = [1, 0, 0, 0, 0, 0, 0, 1]"
definition bob :: bytes where "bob = [1, 0, 0, 0, 0, 0, 0, 2]"

definition transferOp :: "bytes \<Rightarrow> bytes \<Rightarrow> u64 \<Rightarrow> Operation" where
  "transferOp from to n =
     \<lparr>opAccount = from, opAmount = n, opProxyPublicKey = [], opReceiver = to, opType = TRANSFER\<rparr>"

definition createOp :: "bytes \<Rightarrow> bytes \<Rightarrow> Operation" where
  "createOp a pk =
     \<lparr>opAccount = a, opAmount = 0, opProxyPublicKey = pk, opReceiver = [], opType = CREATE_ACCOUNT\<rparr>"

definition blockWith :: "u64 \<Rightarrow> Operation list \<Rightarrow> IndexedBlock" where
  "blockWith t xs =
     \<lparr>ibTimestamp = t,
      ibTransactions = [\<lparr>itErrorMessage = [], itEvents = [], itFailed = False, itHash = [7], itOperations = xs\<rparr>]\<rparr>"

definition block1 :: IndexedBlock where
  "block1 = blockWith 10 [createOp alice [], createOp bob [3], transferOp [] alice 50]"

definition block2 :: IndexedBlock where
  "block2 = blockWith 20 [transferOp alice bob 20]"

definition sampleBlockEnc :: "IndexedBlock \<Rightarrow> (string, bytes) sum" where
  "sampleBlockEnc b =
     (if b = block1 then Inr [1] else if b = block2 then Inr [2]
      else if ibTransactions b = [] then Inr (0 # putU64 (ibTimestamp b)) else Inl ''not in the sample'')"

definition sampleBlockDec :: "bytes \<Rightarrow> (string, IndexedBlock) sum" where
  "sampleBlockDec bs =
     (if bs = [1] then Inr block1 else if bs = [2] then Inr block2
      else (case getU64 (drop 1 bs) :: (unit, u64) outcome of
              Ok t \<Rightarrow> Inr \<lparr>ibTimestamp = t, ibTransactions = []\<rparr> | _ \<Rightarrow> Inl ''truncated''))"

definition sampleEnv :: "(bytes \<times> bytes) list env" where
  "sampleEnv =
     \<lparr>kvOpen = (\<lambda>dir. Inr []),
      kvMap = alistView,
      kvGet = (\<lambda>d k. case map_of d k of None \<Rightarrow> Inl ErrKeyNotFound | Some v \<Rightarrow> Inr v),
      kvSeek = (\<lambda>d k. map (\<lambda>(k', v). (k', Inr v)) (filter (\<lambda>(k', v). k \<le> k') (alistView d))),
      kvSeekReverse = (\<lambda>d k. map (\<lambda>(k', v). (k', Inr v)) (rev (filter (\<lambda>(k', v). k' \<le> k) (alistView d)))),
      kvStaleValue = (\<lambda>d k. Inl (KVOther ''stale item'')),
      kvSet = (\<lambda>d k v. Inr ((k, v) # d)),
      kvDelete = (\<lambda>d k. Inr (filter (\<lambda>(k', v). k' \<noteq> k) d)),
      kvCommit = (\<lambda>d t. Inr t),
      kvBatchDelete = (\<lambda>d ks. (filter (\<lambda>(k', v). k' \<notin> set ks) d, None)),
      marshalBlock = sampleBlockEnc, unmarshalBlock = sampleBlockDec,
      marshalMeta = (\<lambda>m. Inr (sampleMetaEnc m)), unmarshalMeta = sampleMetaDec\<rparr>"

lemma undelimit_delimit [simp]: "undelimit (delimit bs @ r) = Some (bs, r)"
proof (induction bs)
  case Nil
  then show ?case by (cases r) auto
qed auto

lemma sampleMeta_roundtrip: "sampleMetaDec (sampleMetaEnc m) = Inr m"
proof -
  have "undelimit (delimit (bmParent m)) = Some (bmParent m, [])"
    using undelimit_delimit [of "bmParent m" "[]"] by simp
  then show ?thesis by (simp add: sampleMetaDec_def sampleMetaEnc_def)
qed

lemma map_of_alistView: "map_of (alistView d) = map_of d"
proof
  fix k
  show "map_of (alistView d) k = map_of d k"
    using map_of_eq_None_iff [of d k]
    by (cases "map_of d k") (auto simp: alistView_def map_of_map_restrict restrict_map_def)
qed

lemma alistView_sorted: "sorted_wrt (<) (map fst (alistView d))"
  by (simp add: alistView_def comp_def strict_sorted_iff)

lemma sampleBlock_roundtrip: "sampleBlockEnc b = Inr bs \<Longrightarrow> sampleBlockDec bs = Inr b"
proof -
  have len: "0 # putU64 t \<noteq> [c]" for t c by (metis length_Cons length_putU64 list.size(3) nat.inject numeral_eq_Suc zero_neq_numeral)
  have ne: "block2 \<noteq> block1" by (simp add: block1_def block2_def blockWith_def)
  have "\<lparr>ibTimestamp = ibTimestamp b, ibTransactions = []\<rparr> = b" if "ibTransactions b = []"
    using that by simp
  then show "sampleBlockEnc b = Inr bs \<Longrightarrow> sampleBlockDec bs = Inr b"
    using len ne by (auto simp: sampleBlockEnc_def sampleBlockDec_def split: if_splits)
qed

lemma map_of_filter_key: "map_of (filter (\<lambda>(k, v). P k) d) = (\<lambda>k. if P k then map_of d k else None)"
  by (induction d) (auto simp: fun_eq_iff)

theorem sampleEnv_ok: "env_ok sampleEnv"
  unfolding env_ok_def
proof (intro conjI allI impI, goal_cases)
  case (9 b bs)
  then show ?case using sampleBlock_roundtrip by (simp add: sampleEnv_def)
qed (auto simp: sampleEnv_def alistView_sorted map_of_alistView map_of_filter_key sampleMeta_roundtrip)

definition sampleGenesis :: BlockMeta where
  "sampleGenesis = \<lparr>bmHash = [9], bmHeight = 5, bmParent = [8], bmTimestamp = 1\<rparr>"

definition sampleSteps :: "chain_step list" where
  "sampleSteps = [Append [10] block1, Append [11] block2, Rewind 1, Append [12] block2]"

lemma sampleSteps_valid: "valid_run (admissible sampleEnv sampleGenesis) [] sampleSteps"
proof -
  have ok: "block_ok block1" "block_ok block2" by code_simp+
  have c1: "covered g [] block1" for g
  proof -
    have "list_all (\<lambda>a. length a = 8 \<longrightarrow> 0 \<le> sint (blockDiff a block1)) (blockAccounts block1)" by code_simp
    then show ?thesis by (simp add: covered_def)
  qed
  have c2: "covered g [(x, block1)] block2" for g x
  proof -
    have "list_all (\<lambda>a. length a = 8 \<longrightarrow> 0 \<le> sint (blockDiff a block1 + blockDiff a block2)) (blockAccounts block2)"
      by code_simp
    then show ?thesis by (simp add: covered_def balanceAt_tip)
  qed
  have "encoded (marshalBlock sampleEnv b) \<noteq> None" if "b \<in> {block1, block2}" for b
    using that by (auto simp: sampleEnv_def sampleBlockEnc_def)
  then show ?thesis
    using ok c1 c2
    by (simp add: sampleSteps_def admissible_def chainOf_def genesisBlk_def sampleGenesis_def
        tipHeight_def baseHeight_def)
qed

definition sampleStore :: "(bytes \<times> bytes) list Store" where
  "sampleStore = fst (SetGenesis sampleEnv \<lparr>db = [], genesis = None, latest = None\<rparr> sampleGenesis)"

lemma sampleStore_represents:
  "represents sampleEnv sampleStore sampleGenesis sampleGenesis []"
  "latest sampleStore = Some sampleGenesis" "genesis sampleStore = Some sampleGenesis"
proof -
  have "kvMap sampleEnv (db \<lparr>db = [], genesis = None, latest = None\<rparr>) = []"
    by (simp add: sampleEnv_def alistView_def)
  moreover have "encoded (marshalBlock sampleEnv \<lparr>ibTimestamp = bmTimestamp sampleGenesis, ibTransactions = []\<rparr>) \<noteq> None"
    by (simp add: sampleEnv_def sampleBlockEnc_def)
  ultimately show "represents sampleEnv sampleStore sampleGenesis sampleGenesis []"
    "latest sampleStore = Some sampleGenesis" "genesis sampleStore = Some sampleGenesis"
    using SetGenesis_represents [OF sampleEnv_ok] unfolding sampleStore_def by fastforce+
qed

lemma sampleStore_holds: "storeHolds (sampleEnv, (\<lambda>m. m), sampleStore) sampleGenesis []"
  using sampleStore_represents by simp

subsection \<open>Refinement of the chain\<close>

text \<open>
  C1. Every sequence of \<^verbatim>\<open>Index\<close> calls with admissible blocks and \<^verbatim>\<open>ResetTo\<close>
  calls to heights of the chain succeeds on a store that holds a chain, and ends in a store that
  holds the chain obtained by appending and cutting the list of blocks. The iteration order of Go
  maps is arbitrary.
\<close>

theorem index_refines_chain:
  assumes "storeHolds (E, ord, s) g bs" and "valid_run (admissible E g) bs xs"
  shows "\<exists>s'. run_store storeAppend storeReset (baseHeight g) (E, ord, s) xs = (s', Ok ()) \<and>
    fst s' = E \<and> storeHolds s' g (run_chain bs xs)"
  using idx.run_refines_chain [OF assms(1)] assms(2) by simp

theorem index_refines_chain_witness:
  "\<exists>s'. run_store storeAppend storeReset (baseHeight sampleGenesis)
      (sampleEnv, (\<lambda>m. m), sampleStore) sampleSteps = (s', Ok ()) \<and>
    fst s' = sampleEnv \<and> storeHolds s' sampleGenesis (run_chain [] sampleSteps)"
  by (rule index_refines_chain [OF sampleStore_holds sampleSteps_valid])

text \<open>
  Indexing never rewrites history: after any admissible sequence of blocks, the balance of an
  account at a height that was already indexed is what it was before.
\<close>

theorem index_keeps_history:
  assumes "storeHolds (E, ord, s) g bs" and "valid_run (admissible E g) bs (map (case_prod Append) cs)"
    and "length a = 8" and "unat h \<le> tipHeight g bs"
  shows "\<exists>s'. run_store storeAppend storeReset (baseHeight g) (E, ord, s) (map (case_prod Append) cs) = (s', Ok ()) \<and>
    storeBalance s' a h = balanceByHeight E s a h"
  using idx.appends_keep_history [OF assms(1) _ assms(3,4), of cs] assms(2) by simp

lemma sampleAppends_valid:
  "valid_run (admissible sampleEnv sampleGenesis) [] (map (case_prod Append) [([10], block1), ([11], block2)])"
  using sampleSteps_valid by (simp add: sampleSteps_def)

theorem index_keeps_history_witness:
  "\<exists>s'. run_store storeAppend storeReset (baseHeight sampleGenesis) (sampleEnv, (\<lambda>m. m), sampleStore)
      (map (case_prod Append) [([10], block1), ([11], block2)]) = (s', Ok ()) \<and>
    storeBalance s' alice 5 = balanceByHeight sampleEnv sampleStore alice 5"
  by (rule index_keeps_history [OF sampleStore_holds sampleAppends_valid])
    (simp_all add: alice_def tipHeight_def baseHeight_def sampleGenesis_def)

text \<open>
  C10. \<^verbatim>\<open>ResetTo\<close> undoes \<^verbatim>\<open>Index\<close>: after any non-empty admissible sequence of
  blocks, resetting to the height before it gives a store that holds the original chain, with every
  balance at every height as before.
\<close>

theorem reset_undoes_index:
  assumes "storeHolds (E, ord, s) g bs" and "valid_run (admissible E g) bs (map (case_prod Append) cs)"
    and "cs \<noteq> []" and "length a = 8"
  shows "\<exists>s'. run_store storeAppend storeReset (baseHeight g) (E, ord, s)
      (map (case_prod Append) cs @ [Rewind (length bs)]) = (s', Ok ()) \<and>
    storeHolds s' g bs \<and> storeBalance s' a h = balanceByHeight E s a h"
  using idx.rewind_undoes [OF assms(1) _ assms(3,4), of h] assms(2) by simp

theorem reset_undoes_index_witness:
  "\<exists>s'. run_store storeAppend storeReset (baseHeight sampleGenesis) (sampleEnv, (\<lambda>m. m), sampleStore)
      (map (case_prod Append) [([10], block1), ([11], block2)] @ [Rewind (length ([] :: blk list))]) = (s', Ok ()) \<and>
    storeHolds s' sampleGenesis [] \<and> storeBalance s' bob 7 = balanceByHeight sampleEnv sampleStore bob 7"
  by (rule reset_undoes_index [OF sampleStore_holds sampleAppends_valid]) (simp_all add: bob_def)

subsection \<open>Lookups\<close>

lemma Balance_represents:
  assumes rep: "represents E s g l bs" and a: "length a = 8"
  shows "BalanceByHeight E s a h =
      (case blkAt g bs (unat h) of
         None \<Rightarrow> Err ErrBlockNotIndexed
       | Some b \<Rightarrow> Ok \<lparr>bdBalance = balanceAt g bs a (unat h), bdHash = fst b, bdHeight = h\<rparr>) \<and>
    (\<forall>b. blkAt g bs (unat h) = Some b \<longrightarrow> BalanceByHash E s a (fst b) = BalanceByHeight E s a h) \<and>
    (\<forall>x. x \<notin> fst ` set (chainOf g bs) \<longrightarrow> BalanceByHash E s a x = Err ErrBlockNotIndexed)"
proof (intro conjI allI impI)
  have dist: "distinct (map fst (chainOf g bs))" using represents_chain [OF rep] by (simp add: chain_ok_def)
  show bh: "BalanceByHeight E s a h =
      (case blkAt g bs (unat h) of
         None \<Rightarrow> Err ErrBlockNotIndexed
       | Some b \<Rightarrow> Ok \<lparr>bdBalance = balanceAt g bs a (unat h), bdHash = fst b, bdHeight = h\<rparr>)"
    by (simp add: BalanceByHeight_def balanceByHeight_represents [OF rep a]
        HashForHeight_represents [OF rep] split: option.split)
  fix b assume b: "blkAt g bs (unat h) = Some b"
  then have "heightOf g bs (fst b) = Some (unat h)" by (simp add: heightOf_Some [OF dist])
  then show "BalanceByHash E s a (fst b) = BalanceByHeight E s a h"
    unfolding bh using b
    by (simp add: BalanceByHash_def HeightForHash_represents [OF rep] balanceByHeight_represents [OF rep a])
next
  have dist: "distinct (map fst (chainOf g bs))" using represents_chain [OF rep] by (simp add: chain_ok_def)
  fix x assume x: "x \<notin> fst ` set (chainOf g bs)"
  have "heightOf g bs x = None"
  proof (rule ccontr)
    assume "heightOf g bs x \<noteq> None"
    then obtain n b where "blkAt g bs n = Some b" "fst b = x" using heightOf_Some [OF dist] by blast
    with blkAt_mem x show False by blast
  qed
  then show "BalanceByHash E s a x = Err ErrBlockNotIndexed"
    by (simp add: BalanceByHash_def HeightForHash_represents [OF rep])
qed

text \<open>
  C7. Balance lookups: on a store that represents a chain, \<^verbatim>\<open>BalanceByHeight\<close> returns the
  sum of the changes of all blocks up to the height, with the hash of the block at that height, and
  \<^verbatim>\<open>BalanceByHash\<close> returns the same data for that hash; a height or a hash outside the
  chain is reported as not indexed.
\<close>

theorem balance_lookups:
  assumes rep: "represents E s g l bs" and a: "length a = 8"
  shows "BalanceByHeight E s a h =
      (case blkAt g bs (unat h) of
         None \<Rightarrow> Err ErrBlockNotIndexed
       | Some b \<Rightarrow> Ok \<lparr>bdBalance = balanceAt g bs a (unat h), bdHash = fst b, bdHeight = h\<rparr>) \<and>
    (\<forall>b. blkAt g bs (unat h) = Some b \<longrightarrow> BalanceByHash E s a (fst b) = BalanceByHeight E s a h) \<and>
    (\<forall>x. x \<notin> fst ` set (chainOf g bs) \<longrightarrow> BalanceByHash E s a x = Err ErrBlockNotIndexed)"
  by (rule Balance_represents [OF assms])

theorem balance_lookups_witness:
  "BalanceByHeight sampleEnv sampleStore alice 5 =
     Ok \<lparr>bdBalance = 0, bdHash = [9], bdHeight = 5\<rparr> \<and>
   BalanceByHeight sampleEnv sampleStore alice 6 = Err ErrBlockNotIndexed"
proof -
  have a: "length alice = 8" by (simp add: alice_def)
  show ?thesis
    using balance_lookups [OF sampleStore_represents(1) a, of 5]
      balance_lookups [OF sampleStore_represents(1) a, of 6]
    by (simp add: blkAt_def tipHeight_def baseHeight_def sampleGenesis_def chainOf_def genesisBlk_def)
qed

lemma Block_represents:
  assumes rep: "represents E s g l bs" and gen: "genesis s = Some g"
  shows "BlockByHeight E s h =
      (case blkAt g bs (unat h) of
         None \<Rightarrow> Err ErrBlockNotIndexed
       | Some b \<Rightarrow>
           Ok (if unat h = baseHeight g
               then \<lparr>bkBlock = snd b, bkHash = fst b, bkHeight = h, bkParentHash = fst b, bkParentHeight = h\<rparr>
               else \<lparr>bkBlock = snd b, bkHash = fst b, bkHeight = h,
                     bkParentHash = fst (the (blkAt g bs (unat h - 1))), bkParentHeight = h - 1\<rparr>)) \<and>
    (\<forall>b. blkAt g bs (unat h) = Some b \<longrightarrow> BlockByHash E s (fst b) = BlockByHeight E s h)"
proof -
  have dist: "distinct (map fst (chainOf g bs))" using represents_chain [OF rep] by (simp add: chain_ok_def)
  have hg: "h = bmHeight g \<longleftrightarrow> unat h = baseHeight g" by (simp add: baseHeight_def word_unat_eq_iff)
  have parent: "HashForHeight E s (h - 1) = Ok (fst (the (blkAt g bs (unat h - 1))))"
    if "blkAt g bs (unat h) = Some b" "unat h \<noteq> baseHeight g" for b
  proof -
    from that have "0 < unat h" and "blkAt g bs (unat h - 1) \<noteq> None"
      by (auto simp: blkAt_def split: if_splits)
    moreover from this(1) have "unat (h - 1) = unat h - 1" by (intro unat_minus_one) auto
    ultimately show ?thesis
      by (auto simp: HashForHeight_represents [OF rep] split: option.splits)
  qed
  have bh: "BlockByHeight E s h =
      (case blkAt g bs (unat h) of
         None \<Rightarrow> Err ErrBlockNotIndexed
       | Some b \<Rightarrow> withParentInfo E s (fst b) h
           \<lparr>bkBlock = snd b, bkHash = fst b, bkHeight = h, bkParentHash = [], bkParentHeight = 0\<rparr>)"
    by (simp add: BlockByHeight_def HashForHeight_represents [OF rep] blockByHeight_represents [OF rep]
        split: option.split)
  have "BlockByHash E s (fst b) = BlockByHeight E s h" if "blkAt g bs (unat h) = Some b" for b
    using that heightOf_Some [OF dist, of "fst b" "unat h"]
    by (simp add: BlockByHash_def bh HeightForHash_represents [OF rep] blockByHeight_represents [OF rep])
  then show ?thesis
    using parent by (auto simp: bh withParentInfo_def gen hg split: option.split)
qed

text \<open>
  Block lookups: \<^verbatim>\<open>BlockByHeight\<close> and \<^verbatim>\<open>BlockByHash\<close> return the
  stored block with the hash and the height of its parent, the genesis block being its own parent;
  everything outside the chain is reported as not indexed.
\<close>

theorem block_lookups:
  assumes rep: "represents E s g l bs" and gen: "genesis s = Some g"
  shows "BlockByHeight E s h =
      (case blkAt g bs (unat h) of
         None \<Rightarrow> Err ErrBlockNotIndexed
       | Some b \<Rightarrow>
           Ok (if unat h = baseHeight g
               then \<lparr>bkBlock = snd b, bkHash = fst b, bkHeight = h, bkParentHash = fst b, bkParentHeight = h\<rparr>
               else \<lparr>bkBlock = snd b, bkHash = fst b, bkHeight = h,
                     bkParentHash = fst (the (blkAt g bs (unat h - 1))), bkParentHeight = h - 1\<rparr>)) \<and>
    (\<forall>b. blkAt g bs (unat h) = Some b \<longrightarrow> BlockByHash E s (fst b) = BlockByHeight E s h)"
  by (rule Block_represents [OF assms])

theorem block_lookups_witness:
  "BlockByHeight sampleEnv sampleStore 5 =
     Ok \<lparr>bkBlock = \<lparr>ibTimestamp = 1, ibTransactions = []\<rparr>, bkHash = [9], bkHeight = 5,
         bkParentHash = [9], bkParentHeight = 5\<rparr>"
  using block_lookups [OF sampleStore_represents(1,3), of 5]
  by (simp add: blkAt_def tipHeight_def baseHeight_def sampleGenesis_def chainOf_def genesisBlk_def)

text \<open>
  C30. A block that would make a balance negative (as a signed 64-bit integer) is rejected: the call
  returns the error of an account whose balance it would overdraw, and neither the database nor the
  cached latest block changes.
\<close>

theorem index_rejects_overdraft:
  assumes "represents E s g l bs" and "latest s = Some l" and "range_order ord"
    and "block_ok b" and "encoded (marshalBlock E b) \<noteq> None" and "hash \<notin> fst ` set (chainOf g bs)"
    and "Suc (tipHeight g bs) < 2 ^ 64" and "\<not> covered g bs b"
  shows "\<exists>a v. v < 0 \<and> v = sint (balanceAt g bs a (tipHeight g bs) + blockDiff a b) \<and>
    Index E ord s (bmHeight l + 1) hash b =
      (s, Err (Failed ''indexdb: got error indexing block'' (InvalidBalance a v)))"
proof -
  have "\<not> (\<forall>a. length a = 8 \<longrightarrow> 0 \<le> sint (balanceAt g bs a (tipHeight g bs) + blockDiff a b))"
    using assms(8) covered_all [OF represents_chain [OF assms(1)]] by simp
  from Index_represents [OF assms(1-7), unfolded if_not_P [OF this]] show ?thesis by blast
qed

lemma overdraft_block2: "\<not> covered sampleGenesis [] block2"
proof -
  have "\<not> list_all (\<lambda>a. length a = 8 \<longrightarrow> 0 \<le> sint (blockDiff a block2)) (blockAccounts block2)"
    by code_simp
  then show ?thesis by (simp add: covered_def)
qed

theorem index_rejects_overdraft_witness:
  "\<exists>a v. v < 0 \<and> v = sint (balanceAt sampleGenesis [] a (tipHeight sampleGenesis []) + blockDiff a block2) \<and>
    Index sampleEnv (\<lambda>m. m) sampleStore (bmHeight sampleGenesis + 1) [10] block2 =
      (sampleStore, Err (Failed ''indexdb: got error indexing block'' (InvalidBalance a v)))"
proof (rule index_rejects_overdraft [OF sampleStore_represents(1,2) range_order_id])
  show "block_ok block2" by code_simp
  show "encoded (marshalBlock sampleEnv block2) \<noteq> None" by (simp add: sampleEnv_def sampleBlockEnc_def)
  show "\<not> covered sampleGenesis [] block2" by (rule overdraft_block2)
qed (simp_all add: chainOf_def genesisBlk_def sampleGenesis_def tipHeight_def baseHeight_def)

subsection \<open>Balances as integers\<close>

definition opFlow :: "bytes \<Rightarrow> Operation \<Rightarrow> int" where
  "opFlow a x =
     (if opType x \<in> {FEE, TRANSFER, PROXY_TRANSFER} then
        (if opReceiver x = a then uint (opAmount x) else 0) - (if opAccount x = a then uint (opAmount x) else 0)
      else 0)"

definition netFlow :: "BlockMeta \<Rightarrow> blk list \<Rightarrow> bytes \<Rightarrow> nat \<Rightarrow> int" where
  "netFlow g bs a n =
     (\<Sum>i\<le>n. case blkAt g bs i of None \<Rightarrow> 0 | Some b \<Rightarrow> sum_list (map (opFlow a) (blockOps (snd b))))"

lemma balanceAt_netFlow: "balanceAt g bs a n = of_int (netFlow g bs a n)"
proof -
  have op: "opDiff a x = of_int (opFlow a x)" for x by (simp add: opDiff_def opFlow_def)
  have "sum_list (map (opDiff a) xs) = of_int (sum_list (map (opFlow a) xs))" for xs
    by (induction xs) (simp_all add: op)
  then have "diffAt g bs a i =
      of_int (case blkAt g bs i of None \<Rightarrow> 0 | Some b \<Rightarrow> sum_list (map (opFlow a) (blockOps (snd b))))" for i
    by (simp add: diffAt_def blockDiff_def split: option.split)
  then show ?thesis by (simp add: balanceAt_def netFlow_def of_int_sum)
qed

text \<open>
  C31. No wrap-around: as long as the exact integer total of an account's credits and debits fits in
  a signed 64-bit integer, the stored balance at a height is that total, which is not negative.
\<close>

theorem balance_exact:
  assumes rep: "represents E s g l bs" and a: "length a = 8"
    and fits: "- (2 ^ 63) \<le> netFlow g bs a (unat h)" "netFlow g bs a (unat h) < 2 ^ 63"
  shows "\<exists>v. balanceByHeight E s a h = Ok v \<and> uint v = netFlow g bs a (unat h) \<and> 0 \<le> netFlow g bs a (unat h)"
proof -
  let ?n = "netFlow g bs a (unat h)"
  let ?v = "balanceAt g bs a (unat h)"
  have "0 \<le> sint ?v" using represents_chain [OF rep] a by (simp add: chain_ok_def)
  moreover have "sint ?v = ?n"
    unfolding balanceAt_netFlow using fits by (simp add: signed_of_int signed_take_bit_int_eq_self)
  ultimately have "0 \<le> ?n" by simp
  then have "uint ?v = ?n"
    unfolding balanceAt_netFlow using fits by (simp add: unsigned_of_int take_bit_int_eq_self)
  with \<open>0 \<le> ?n\<close> show ?thesis using balanceByHeight_represents [OF rep a, of h] by simp
qed

theorem balance_exact_witness:
  "\<exists>v. balanceByHeight sampleEnv sampleStore alice 5 = Ok v \<and>
     uint v = netFlow sampleGenesis [] alice (unat (5 :: u64)) \<and> 0 \<le> netFlow sampleGenesis [] alice (unat (5 :: u64))"
proof (rule balance_exact [OF sampleStore_represents(1)])
  have "netFlow sampleGenesis [] alice n = 0" for n
    unfolding netFlow_def
    by (rule sum.neutral) (auto simp: blkAt_def tipHeight_def chainOf_def genesisBlk_def blockOps_def)
  then show "- (2 ^ 63) \<le> netFlow sampleGenesis [] alice (unat (5 :: u64))"
    "netFlow sampleGenesis [] alice (unat (5 :: u64)) < 2 ^ 63" by simp_all
qed (simp add: alice_def)

subsection \<open>Enumeration of the accounts\<close>

lemma accountsLoop_Ok:
  "\<forall>k\<in>fst ` set its. \<exists>a. acctOf k = Ok a \<Longrightarrow>
   \<exists>m'. accountsLoop its m = Ok m' \<and>
     map_of m' = (\<lambda>a. if \<exists>k\<in>fst ` set its. acctOf k = Ok a then Some False else map_of m a)"
proof (induction its arbitrary: m)
  case (Cons it its)
  obtain k v where it: "it = (k, v)" by force
  from Cons.prems it obtain a where a: "acctOf k = Ok a" by auto
  from Cons.IH [of "mput m a False"] Cons.prems obtain m' where
    m': "accountsLoop its (mput m a False) = Ok m'"
    "map_of m' = (\<lambda>x. if \<exists>k\<in>fst ` set its. acctOf k = Ok x then Some False else map_of (mput m a False) x)"
    by auto
  then have "accountsLoop (it # its) m = Ok m'" using it a by simp
  moreover have "map_of m' = (\<lambda>x. if \<exists>k\<in>fst ` set (it # its). acctOf k = Ok x then Some False else map_of m x)"
    unfolding m'(2) by (auto simp: it a update_conv' fun_eq_iff)
  ultimately show ?case by blast
qed simp

lemma proxiesLoop_Ok:
  "\<forall>k\<in>fst ` set its. \<exists>a. acctOf k = Ok a \<and> mhas m a \<Longrightarrow>
   \<exists>m'. proxiesLoop its m = Ok m' \<and>
     map_of m' = (\<lambda>a. if \<exists>k\<in>fst ` set its. acctOf k = Ok a then Some True else map_of m a)"
proof (induction its arbitrary: m)
  case (Cons it its)
  obtain k v where it: "it = (k, v)" by force
  from Cons.prems it obtain a where a: "acctOf k = Ok a" "mhas m a" by auto
  have "\<forall>k\<in>fst ` set its. \<exists>b. acctOf k = Ok b \<and> mhas (mput m a True) b"
  proof
    fix k assume "k \<in> fst ` set its"
    with Cons.prems obtain b where "acctOf k = Ok b" "mhas m b" by auto
    then show "\<exists>b. acctOf k = Ok b \<and> mhas (mput m a True) b"
      by (intro exI [of _ b]) (auto simp: update_conv')
  qed
  from Cons.IH [OF this] obtain m' where
    m': "proxiesLoop its (mput m a True) = Ok m'"
    "map_of m' = (\<lambda>x. if \<exists>k\<in>fst ` set its. acctOf k = Ok x then Some True else map_of (mput m a True) x)"
    by auto
  then have "proxiesLoop (it # its) m = Ok m'" using it a by simp
  moreover have "map_of m' = (\<lambda>x. if \<exists>k\<in>fst ` set (it # its). acctOf k = Ok x then Some True else map_of m x)"
    unfolding m'(2) by (auto simp: it a update_conv' fun_eq_iff)
  ultimately show ?case by blast
qed simp

definition touchedIn :: "BlockMeta \<Rightarrow> blk list \<Rightarrow> bytes \<Rightarrow> bool" where
  "touchedIn g bs a \<longleftrightarrow> list_ex (\<lambda>b. blockTouches a (snd b)) (chainOf g bs)"

definition proxyIn :: "BlockMeta \<Rightarrow> blk list \<Rightarrow> bytes \<Rightarrow> bool" where
  "proxyIn g bs a \<longleftrightarrow> list_ex (\<lambda>b. blockCreatesProxy a (snd b)) (chainOf g bs)"

lemma chain_blkAt:
  assumes "tipHeight g bs < 2 ^ 64" "b \<in> set (chainOf g bs)"
  shows "\<exists>h :: u64. blkAt g bs (unat h) = Some b"
proof -
  from assms(2) obtain i where i: "i < length (chainOf g bs)" "chainOf g bs ! i = b" by (meson in_set_conv_nth)
  then have "i \<le> length bs" by (simp add: chainOf_def)
  with assms(1) have "unat (of_nat (baseHeight g + i) :: u64) = baseHeight g + i"
    by (simp add: unat_of_nat tipHeight_def del: of_nat_add)
  with i \<open>i \<le> length bs\<close> show ?thesis
    by (intro exI [of _ "of_nat (baseHeight g + i)"]) (simp add: blkAt_def tipHeight_def)
qed

lemma scan_accounts:
  assumes rep: "represents E s g l bs" and a: "length a = 8"
  shows "(\<exists>k\<in>fst ` set (scan E (db s) [accountPrefix]). acctOf k = Ok a) \<longleftrightarrow> touchedIn g bs a"
    and "(\<exists>k\<in>fst ` set (scan E (db s) [isProxyPrefix]). acctOf k = Ok a) \<longleftrightarrow> proxyIn g bs a"
proof -
  have tip: "tipHeight g bs < 2 ^ 64" using represents_chain [OF rep] by (simp add: chain_ok_def)
  have sp: "spec E g l bs (KAccount a h) \<noteq> None \<longleftrightarrow> (\<exists>b. blkAt g bs (unat h) = Some b \<and> blockTouches a (snd b))"
    "spec E g l bs (KProxy a h) \<noteq> None \<longleftrightarrow> (\<exists>b. blkAt g bs (unat h) = Some b \<and> blockCreatesProxy a (snd b))" for h
    by (cases "blkAt g bs (unat h)"; simp)+
  have acct: "acctOf (encKey (KAccount x h)) = Ok a \<longleftrightarrow> x = a" "acctOf (encKey (KProxy x h)) = Ok a \<longleftrightarrow> x = a"
    if "length x = 8" for x h
    using that by (simp_all add: accountKey_parts)
  have "(\<exists>k\<in>fst ` set (scan E (db s) [accountPrefix]). acctOf k = Ok a) \<longleftrightarrow>
      (\<exists>h. spec E g l bs (KAccount a h) \<noteq> None)"
    unfolding scan_keys(1) [OF rep] using acct(1) a by (auto simp del: encKey.simps spec.simps)
  also have "\<dots> \<longleftrightarrow> (\<exists>h :: u64. \<exists>b. blkAt g bs (unat h) = Some b \<and> blockTouches a (snd b))"
    unfolding sp ..
  also have "\<dots> \<longleftrightarrow> touchedIn g bs a"
    unfolding touchedIn_def list_ex_iff using chain_blkAt [OF tip] blkAt_mem by blast
  finally show "(\<exists>k\<in>fst ` set (scan E (db s) [accountPrefix]). acctOf k = Ok a) \<longleftrightarrow> touchedIn g bs a" .
  have "(\<exists>k\<in>fst ` set (scan E (db s) [isProxyPrefix]). acctOf k = Ok a) \<longleftrightarrow>
      (\<exists>h. spec E g l bs (KProxy a h) \<noteq> None)"
    unfolding scan_keys(2) [OF rep] using acct(2) a by (auto simp del: encKey.simps spec.simps)
  also have "\<dots> \<longleftrightarrow> (\<exists>h :: u64. \<exists>b. blkAt g bs (unat h) = Some b \<and> blockCreatesProxy a (snd b))"
    unfolding sp ..
  also have "\<dots> \<longleftrightarrow> proxyIn g bs a"
    unfolding proxyIn_def list_ex_iff using chain_blkAt [OF tip] blkAt_mem by blast
  finally show "(\<exists>k\<in>fst ` set (scan E (db s) [isProxyPrefix]). acctOf k = Ok a) \<longleftrightarrow> proxyIn g bs a" .
qed

lemma Accounts_represents:
  assumes rep: "represents E s g l bs"
  shows "\<exists>m. Accounts E s = Ok m \<and>
    (\<forall>a. length a = 8 \<longrightarrow> map_of m a = (if touchedIn g bs a then Some (proxyIn g bs a) else None)) \<and>
    (\<forall>a \<in> mkeys m. length a = 8)"
proof -
  let ?as = "scan E (db s) [accountPrefix]" and ?ps = "scan E (db s) [isProxyPrefix]"
  have keys: "\<exists>a. length a = 8 \<and> acctOf k = Ok a" if "k \<in> fst ` set ?as \<union> fst ` set ?ps" for k
    using that unfolding scan_keys [OF rep] by (auto simp: accountKey_parts)
  then have "\<forall>k\<in>fst ` set ?as. \<exists>a. acctOf k = Ok a" by blast
  from accountsLoop_Ok [OF this, of "[]"] obtain m1 where
    m1: "accountsLoop ?as [] = Ok m1"
    "map_of m1 = (\<lambda>a. if \<exists>k\<in>fst ` set ?as. acctOf k = Ok a then Some False else None)"
    unfolding map_of.simps by blast
  have proxy_touched: "proxyIn g bs a \<Longrightarrow> touchedIn g bs a" for a
    by (auto simp: proxyIn_def touchedIn_def list_ex_iff dest: creates_touches)
  have "\<forall>k\<in>fst ` set ?ps. \<exists>a. acctOf k = Ok a \<and> mhas m1 a"
  proof
    fix k assume k: "k \<in> fst ` set ?ps"
    with keys obtain a where a: "length a = 8" "acctOf k = Ok a" by blast
    with k scan_accounts(2) [OF rep a(1)] have "touchedIn g bs a" using proxy_touched by blast
    with scan_accounts(1) [OF rep a(1)] have "map_of m1 a = Some False" unfolding m1(2) by simp
    with a show "\<exists>a. acctOf k = Ok a \<and> mhas m1 a" by auto
  qed
  from proxiesLoop_Ok [OF this] obtain m2 where
    m2: "proxiesLoop ?ps m1 = Ok m2"
    "map_of m2 = (\<lambda>a. if \<exists>k\<in>fst ` set ?ps. acctOf k = Ok a then Some True else map_of m1 a)" by blast
  have "map_of m2 a = (if touchedIn g bs a then Some (proxyIn g bs a) else None)" if "length a = 8" for a
    unfolding m2(2) m1(2) scan_accounts [OF rep that] using proxy_touched [of a] by auto
  moreover have "\<forall>a \<in> mkeys m2. length a = 8"
  proof
    fix a assume "a \<in> mkeys m2"
    then have "map_of m2 a \<noteq> None" by (simp add: map_of_None_mkeys)
    then obtain k where "k \<in> fst ` set ?as \<union> fst ` set ?ps" "acctOf k = Ok a"
      unfolding m2(2) m1(2) by (auto split: if_splits)
    with keys show "length a = 8" by fastforce
  qed
  moreover have "Accounts E s = Ok m2" by (simp add: Accounts_def m1(1) m2(1))
  ultimately show ?thesis by blast
qed

text \<open>
  C32. \<^verbatim>\<open>Accounts\<close> never fails on a represented chain and returns exactly the accounts
  that some block touches, each marked as a proxy account if and only if some block created it
  with a proxy key.
\<close>

theorem accounts_enumerated:
  assumes "represents E s g l bs"
  shows "\<exists>m. Accounts E s = Ok m \<and>
    (\<forall>a. length a = 8 \<longrightarrow> map_of m a = (if touchedIn g bs a then Some (proxyIn g bs a) else None))"
  using Accounts_represents [OF assms] by blast

theorem accounts_enumerated_witness:
  "\<exists>m. Accounts sampleEnv sampleStore = Ok m \<and>
    (\<forall>a. length a = 8 \<longrightarrow>
       map_of m a = (if touchedIn sampleGenesis [] a then Some (proxyIn sampleGenesis [] a) else None))"
  by (rule accounts_enumerated [OF sampleStore_represents(1)])

subsection \<open>Resetting below the genesis block\<close>

text \<open>
  \<^verbatim>\<open>ResetTo\<close> does not check that the height is in the chain: a reset to a height below
  the genesis block deletes every indexed block, the genesis block included, and only then fails,
  with the cached and the stored latest block still naming the deleted tip.
\<close>

theorem reset_below_genesis:
  assumes rep: "represents E s g l bs" and base: "base < bmHeight g"
  shows "\<exists>s'. ResetTo E s base = (s', Err (Wrapped ''indexdb: failed to get block'' ErrBlockNotIndexed)) \<and>
    (\<forall>h. HashForHeight E s' h = Err ErrBlockNotIndexed) \<and> snd (Latest E s') = Ok (Some l)"
proof -
  have E: "env_ok E" and tip: "tipHeight g bs < 2 ^ 64"
    using rep represents_chain [OF rep] by (simp_all add: represents_def chain_ok_def)
  from resetKeys_scans [OF rep, of base] obtain ks hs where
    ks: "resetKeys E (db s) base = Ok (ks, last (0 # filter (\<lambda>h. h \<le> base) hs))"
    "set ks = encKey ` resetSet E g l bs base" "set hs = {h. blkAt g bs (unat h) \<noteq> None}" by blast
  have above: "base < h" if "blkAt g bs (unat h) \<noteq> None" for h :: u64
    using that base by (auto simp: blkAt_def baseHeight_def word_less_nat_alt split: if_splits)
  then have "filter (\<lambda>h. h \<le> base) hs = []" using ks(3) by (auto simp: filter_empty_conv linorder_not_le)
  then have keys: "resetKeys E (db s) base = Ok (ks, 0)" using ks(1) by simp
  have "\<forall>k\<in>set (sort ks). ordinary_key k" using ks(2) by auto
  from env_batch [OF E this, of "db s"] obtain d where
    d: "kvBatchDelete E (db s) (sort ks) = (d, None)"
    "content E d = (\<lambda>k. if k \<in> set ks then None else content E (db s) k)" by auto
  have gone: "content E d (encKey k) = None" if "k = KHeight h \<or> k = KBlock h" for h k
  proof (cases "blkAt g bs (unat h) = None")
    case True
    with that represents_content [OF rep, of k] show ?thesis by (auto simp: d(2))
  next
    case False
    with that above have "k \<in> resetSet E g l bs base" by (auto simp: resetSet_def)
    then show ?thesis using ks(2) by (simp add: d(2))
  qed
  have "bmHeight l = of_nat (tipHeight g bs)" using rep by (simp add: represents_def latestOf_def)
  with tip base have "\<not> bmHeight l \<le> base"
    by (simp add: word_le_nat_alt word_less_nat_alt unat_of_nat tipHeight_def baseHeight_def del: of_nat_add)
  moreover have "blockByHeight E (s\<lparr>latest := Some l, db := d\<rparr>) 0 = Err ErrBlockNotIndexed"
    using gone [of "KBlock 0" 0] by (simp add: blockByHeight_def env_get [OF E])
  ultimately have "ResetTo E s base =
      (s\<lparr>latest := Some l, db := d\<rparr>, Err (Wrapped ''indexdb: failed to get block'' ErrBlockNotIndexed))"
    by (simp add: ResetTo_def Latest_represents [OF rep] keys d(1) resetLatest_def)
  moreover have "HashForHeight E (s\<lparr>latest := Some l, db := d\<rparr>) h = Err ErrBlockNotIndexed" for h
    using gone [of "KHeight h" h] by (simp add: HashForHeight_def env_get [OF E])
  ultimately show ?thesis by (auto simp: Latest_def)
qed

theorem reset_below_genesis_witness:
  "\<exists>s'. ResetTo sampleEnv sampleStore 3 =
      (s', Err (Wrapped ''indexdb: failed to get block'' ErrBlockNotIndexed)) \<and>
    (\<forall>h. HashForHeight sampleEnv s' h = Err ErrBlockNotIndexed) \<and>
    snd (Latest sampleEnv s') = Ok (Some sampleGenesis)"
  by (rule reset_below_genesis [OF sampleStore_represents(1)]) (simp add: sampleGenesis_def)

end
