(* ===== verification/Events.thy ===== *)
theory Events
  imports Crypto IndexProps
begin

section \<open>Package state: from transaction events to operations\<close>

text \<open>
  The part of \<^verbatim>\<open>state/process.go\<close> that turns the events of a transaction result into
  the operations of the indexed transaction (lines 421--1026), with \<^verbatim>\<open>decodeEvent\<close> and
  \<^verbatim>\<open>decodePayload\<close> of \<^verbatim>\<open>state/convert.go\<close> and the account predicates of
  \<^verbatim>\<open>state/state.go\<close>. The decoders of Cadence values are arguments. A step that the code
  leaves with \<^verbatim>\<open>continue outer\<close> (the whole block is fetched again, past the cache) is an
  \<open>Err\<close> with the reason; an unchecked type assertion is a \<open>Panic\<close>.
\<close>

subsection \<open>Data\<close>

text \<open>Cadence values, as far as the code looks at them.\<close>

datatype cadence =
    CAddress bytes
  | CUFix64 u64
  | CString string
  | COptional "cadence option"
  | CEvent "(string \<times> cadence) list"
  | COther

record cadence_env =
  ccfHasMsgPrefix :: "bytes \<Rightarrow> bool"
  ccfDecode :: "bytes \<Rightarrow> (string, cadence) sum"
  jsonDecode :: "bytes \<Rightarrow> (string, cadence) sum"
  addressField :: string
  publicKeyField :: string

text \<open>The messages of the Access API, as far as they are read.\<close>

record Event =
  evType :: string
  evTransactionId :: bytes
  evTransactionIndex :: u32
  evEventIndex :: u32
  evPayload :: bytes

record TransactionResult =
  trTransactionId :: bytes
  trBlockId :: bytes
  trCollectionId :: bytes
  trStatusCode :: u32
  trErrorMessage :: string
  trEvents :: "Event list"

record proxyTransfer =
  ptAmount :: u64
  ptReceiver :: bytes
  ptSender :: bytes

record stateSnapshotHeader =
  shChainID :: string
  shHeight :: u64
  shParentID :: string

record stateSnapshotSeal =
  slBlockID :: string

record stateSnapshot =
  snHead :: stateSnapshotHeader
  snLatestSeal :: stateSnapshotSeal

record Indexer =
  ixAccts :: "(bytes, bool) gomap"
  ixFeeAddrs :: "(bytes, bool) gomap"
  ixLastIndexed :: "BlockMeta option"
  ixLiveRoot :: "BlockMeta option"
  ixOriginators :: "(bytes, bool) gomap"
  ixRoot :: "stateSnapshot option"
  ixSealedResults :: "(bytes, bytes) gomap"
  ixSynced :: bool
  ixTypProxyCreated :: string
  ixTypProxyDeposited :: string
  ixTypProxyTransferred :: string
  ixTypTokensDeposited :: string
  ixTypTokensWithdrawn :: string

text \<open>The variables of lines 421--422 and 455--461, and the events of the indexed transaction.\<close>

record work =
  wkNewAccounts :: "(bytes, bool) gomap"
  wkNewCounter :: nat
  wkAccountKeys :: "(bytes, bytes) gomap"
  wkAddrs :: "bytes list"
  wkDeposits :: "(bytes, u64) gomap"
  wkFees :: u64
  wkProxyDeposits :: "(bytes, u64) gomap"
  wkProxyTransfers :: "proxyTransfer list"
  wkWithdrawals :: "(bytes, u64) gomap"
  wkEvents :: "TransferEvent list"

definition startWork :: "(bytes, bool) gomap \<Rightarrow> nat \<Rightarrow> work" where
  "startWork newAccounts newCounter =
     \<lparr>wkNewAccounts = newAccounts, wkNewCounter = newCounter, wkAccountKeys = [], wkAddrs = [],
      wkDeposits = [], wkFees = 0, wkProxyDeposits = [], wkProxyTransfers = [], wkWithdrawals = [],
      wkEvents = []\<rparr>"

subsection \<open>Accounts\<close>

definition isProxy :: "Indexer \<Rightarrow> bytes \<Rightarrow> (bytes, bool) gomap \<Rightarrow> bool" where
  "isProxy i addr newAccounts =
     (case map_of (ixAccts i) addr of
        Some p \<Rightarrow> p
      | None \<Rightarrow> mget False newAccounts addr)"

definition isTracked :: "Indexer \<Rightarrow> bytes \<Rightarrow> (bytes, bool) gomap \<Rightarrow> bool" where
  "isTracked i addr newAccounts =
     (if mhas (ixAccts i) addr then True
      else if mhas newAccounts addr then True
      else mget False (ixOriginators i) addr)"

subsection \<open>Decoding\<close>

definition decodePayload :: "cadence_env \<Rightarrow> bytes \<Rightarrow> (string, cadence) sum" where
  "decodePayload C payload =
     (if ccfHasMsgPrefix C payload then ccfDecode C payload else jsonDecode C payload)"

text \<open>
  A payload that is not an event gives the empty event and no error: the variable that is returned
  is the nil error of the decoder.
\<close>

definition decodeEvent :: "cadence_env \<Rightarrow> Event \<Rightarrow> (string, (string \<times> cadence) list) outcome" where
  "decodeEvent C evt =
     (case decodePayload C (evPayload evt) of
        Inl err \<Rightarrow> Err err
      | Inr val \<Rightarrow> (case val of CEvent flds \<Rightarrow> Ok flds | _ \<Rightarrow> Ok []))"

definition fieldCount :: "(string \<times> cadence) list \<Rightarrow> nat" where
  "fieldCount flds = length (remdups (map fst flds))"

text \<open>An address is an array of eight bytes.\<close>

definition addressOf :: "cadence option \<Rightarrow> bytes option" where
  "addressOf v = (case v of Some (CAddress a) \<Rightarrow> Some (pad 8 a) | _ \<Rightarrow> None)"

definition amountOf :: "cadence option \<Rightarrow> u64 option" where
  "amountOf v = (case v of Some (CUFix64 n) \<Rightarrow> Some n | _ \<Rightarrow> None)"

definition stringOf :: "cadence option \<Rightarrow> string option" where
  "stringOf v = (case v of Some (CString s) \<Rightarrow> Some s | _ \<Rightarrow> None)"

text \<open>The single-result type assertion to \<^verbatim>\<open>cadence.Optional\<close>, which panics.\<close>

definition optionalOf :: "cadence option \<Rightarrow> (string, cadence option) outcome" where
  "optionalOf v = (case v of Some (COptional x) \<Rightarrow> Ok x | _ \<Rightarrow> Panic ''interface conversion'')"

definition require :: "string \<Rightarrow> 'a option \<Rightarrow> (string, 'a) outcome" where
  "require msg v = (case v of Some x \<Rightarrow> Ok x | None \<Rightarrow> Err msg)"

definition check :: "string \<Rightarrow> bool \<Rightarrow> (string, unit) outcome" where
  "check msg b = (if b then Ok () else Err msg)"

subsection \<open>The first pass over the events\<close>

definition onAccountCreated :: "cadence_env \<Rightarrow> Indexer \<Rightarrow> bytes \<Rightarrow> Event \<Rightarrow> work \<Rightarrow> (string, work) outcome" where
  "onAccountCreated C i payer evt w =
     andThen (decodeEvent C evt) (\<lambda>flds.
     andThen (check ''field count'' (fieldCount flds = 1)) (\<lambda>_.
     andThen (require ''Unable to load address'' (addressOf (map_of flds (addressField C)))) (\<lambda>addr.
     Ok (if mget False (ixOriginators i) addr \<or> isTracked i payer (wkNewAccounts w) then
           w\<lparr>wkAccountKeys := mput (wkAccountKeys w) addr [],
             wkAddrs := wkAddrs w @ [addr],
             wkNewAccounts := mput (wkNewAccounts w) addr False,
             wkNewCounter := wkNewCounter w + 1\<rparr>
         else w))))"

definition onProxyCreated ::
  "cadence_env \<Rightarrow> ('k, 's) secp256k1 \<Rightarrow> Indexer \<Rightarrow> bytes \<Rightarrow> Event \<Rightarrow> work \<Rightarrow> (string, work) outcome" where
  "onProxyCreated C S i payer evt w =
     andThen (decodeEvent C evt) (\<lambda>flds.
     if \<not> isTracked i payer (wkNewAccounts w) then Ok w
     else
     andThen (check ''Created event without AccountCreated'' (length (wkAccountKeys w) \<noteq> 0)) (\<lambda>_.
     andThen (check ''field count'' (fieldCount flds = 2)) (\<lambda>_.
     andThen (require ''Unable to load address'' (addressOf (map_of flds ''account''))) (\<lambda>addr.
     andThen (check ''Missing AccountCreated event'' (mhas (wkAccountKeys w) addr)) (\<lambda>_.
     andThen (require ''Unable to load public key'' (stringOf (map_of flds (publicKeyField C)))) (\<lambda>publicKey.
     andThen (require ''Unable to hex decode public key'' (hexDecode publicKey)) (\<lambda>uncompressed.
     andThen (mapErr (\<lambda>_. ''Unable to compress public key'') (ConvertFlowPublicKey S uncompressed)) (\<lambda>compressed.
     Ok (w\<lparr>wkAccountKeys := mput (wkAccountKeys w) addr compressed,
           wkNewAccounts := mput (wkNewAccounts w) addr True\<rparr>)))))))))"

definition onProxyDeposited :: "cadence_env \<Rightarrow> Indexer \<Rightarrow> Event \<Rightarrow> work \<Rightarrow> (string, work) outcome" where
  "onProxyDeposited C i evt w =
     andThen (decodeEvent C evt) (\<lambda>flds.
     andThen (check ''field count'' (fieldCount flds = 2)) (\<lambda>_.
     andThen (require ''Unable to load the account'' (addressOf (map_of flds ''account''))) (\<lambda>addr.
     andThen (require ''Unable to load the amount'' (amountOf (map_of flds ''amount''))) (\<lambda>amount.
     let w1 = w\<lparr>wkEvents := wkEvents w @
                 [\<lparr>teAmount = amount, teReceiver = addr, teSender = [], teType = PROXY_DEPOSIT\<rparr>]\<rparr>
     in Ok (if isProxy i addr (wkNewAccounts w) then
              w1\<lparr>wkProxyDeposits := mput (wkProxyDeposits w) addr (mget 0 (wkProxyDeposits w) addr + amount)\<rparr>
            else w1)))))"

definition onProxyTransferred :: "cadence_env \<Rightarrow> Indexer \<Rightarrow> Event \<Rightarrow> work \<Rightarrow> (string, work) outcome" where
  "onProxyTransferred C i evt w =
     andThen (decodeEvent C evt) (\<lambda>flds.
     andThen (check ''field count'' (fieldCount flds = 3)) (\<lambda>_.
     andThen (require ''Unable to load the to address'' (addressOf (map_of flds ''to''))) (\<lambda>receiver.
     andThen (optionalOf (map_of flds ''from'')) (\<lambda>fromValue.
     andThen (case fromValue of
                None \<Rightarrow> Ok (replicate 8 0)
              | Some v \<Rightarrow> require ''Unable to load the from address'' (addressOf (Some v))) (\<lambda>sender.
     andThen (require ''Unable to load the amount'' (amountOf (map_of flds ''amount''))) (\<lambda>amount.
     let w1 = w\<lparr>wkEvents := wkEvents w @
                 [\<lparr>teAmount = amount, teReceiver = receiver, teSender = sender, teType = PROXY_WITHDRAWAL\<rparr>]\<rparr>
     in Ok (if isProxy i sender (wkNewAccounts w) then
              w1\<lparr>wkProxyTransfers := wkProxyTransfers w @
                  [\<lparr>ptAmount = amount,
                    ptReceiver = (if isTracked i receiver (wkNewAccounts w) then receiver else []),
                    ptSender = sender\<rparr>]\<rparr>
            else w1)))))))"

definition firstPass ::
  "cadence_env \<Rightarrow> ('k, 's) secp256k1 \<Rightarrow> Indexer \<Rightarrow> bytes \<Rightarrow> Event \<Rightarrow> work \<Rightarrow> (string, work) outcome" where
  "firstPass C S i payer evt w =
     (if evType evt = ''flow.AccountCreated'' then onAccountCreated C i payer evt w
      else if evType evt = ixTypProxyCreated i then onProxyCreated C S i payer evt w
      else if evType evt = ixTypProxyDeposited i then onProxyDeposited C i evt w
      else if evType evt = ixTypProxyTransferred i then onProxyTransferred C i evt w
      else Ok w)"

subsection \<open>The second pass over the events\<close>

definition onTokensDeposited :: "cadence_env \<Rightarrow> Indexer \<Rightarrow> Event \<Rightarrow> work \<Rightarrow> (string, work) outcome" where
  "onTokensDeposited C i evt w =
     andThen (decodeEvent C evt) (\<lambda>flds.
     andThen (check ''field count'' (fieldCount flds = 2)) (\<lambda>_.
     andThen (require ''Unable to load amount'' (amountOf (map_of flds ''amount''))) (\<lambda>amount.
     andThen (optionalOf (map_of flds ''to'')) (\<lambda>toValue.
     case toValue of
       None \<Rightarrow>
         Ok (w\<lparr>wkEvents := wkEvents w @
               [\<lparr>teAmount = amount, teReceiver = [], teSender = [], teType = DEPOSIT\<rparr>]\<rparr>)
     | Some v \<Rightarrow>
         andThen (require ''Unable to load receiver address'' (addressOf (Some v))) (\<lambda>receiver.
         let w1 = w\<lparr>wkEvents := wkEvents w @
                     [\<lparr>teAmount = amount, teReceiver = receiver, teSender = [], teType = DEPOSIT\<rparr>]\<rparr>
         in Ok (if mget False (ixFeeAddrs i) receiver then w1\<lparr>wkFees := wkFees w + amount\<rparr>
                else if isTracked i receiver (wkNewAccounts w) \<and> \<not> isProxy i receiver (wkNewAccounts w) then
                  w1\<lparr>wkDeposits := mput (wkDeposits w) receiver (mget 0 (wkDeposits w) receiver + amount)\<rparr>
                else w1))))))"

definition onTokensWithdrawn :: "cadence_env \<Rightarrow> Indexer \<Rightarrow> Event \<Rightarrow> work \<Rightarrow> (string, work) outcome" where
  "onTokensWithdrawn C i evt w =
     andThen (decodeEvent C evt) (\<lambda>flds.
     andThen (check ''field count'' (fieldCount flds = 2)) (\<lambda>_.
     andThen (require ''Unable to load amount'' (amountOf (map_of flds ''amount''))) (\<lambda>amount.
     andThen (optionalOf (map_of flds ''from'')) (\<lambda>fromValue.
     case fromValue of
       None \<Rightarrow>
         Ok (w\<lparr>wkEvents := wkEvents w @
               [\<lparr>teAmount = amount, teReceiver = [], teSender = [], teType = WITHDRAWAL\<rparr>]\<rparr>)
     | Some v \<Rightarrow>
         andThen (require ''Unable to load sender address'' (addressOf (Some v))) (\<lambda>sender.
         let w1 = w\<lparr>wkEvents := wkEvents w @
                     [\<lparr>teAmount = amount, teReceiver = [], teSender = sender, teType = WITHDRAWAL\<rparr>]\<rparr>
         in Ok (if isTracked i sender (wkNewAccounts w) \<and> \<not> isProxy i sender (wkNewAccounts w) then
                  w1\<lparr>wkWithdrawals := mput (wkWithdrawals w) sender (mget 0 (wkWithdrawals w) sender + amount)\<rparr>
                else w1))))))"

definition secondPass :: "cadence_env \<Rightarrow> Indexer \<Rightarrow> Event \<Rightarrow> work \<Rightarrow> (string, work) outcome" where
  "secondPass C i evt w =
     (if evType evt = ixTypTokensDeposited i then onTokensDeposited C i evt w
      else if evType evt = ixTypTokensWithdrawn i then onTokensWithdrawn C i evt w
      else Ok w)"

fun overEvents :: "(Event \<Rightarrow> work \<Rightarrow> (string, work) outcome) \<Rightarrow> Event list \<Rightarrow> work \<Rightarrow> (string, work) outcome" where
  "overEvents f [] w = Ok w"
| "overEvents f (e # es) w = andThen (f e w) (overEvents f es)"

subsection \<open>The operations of a transaction\<close>

definition createOps :: "work \<Rightarrow> Operation list" where
  "createOps w =
     map (\<lambda>addr. \<lparr>opAccount = addr, opAmount = 0, opProxyPublicKey = mget [] (wkAccountKeys w) addr,
                  opReceiver = [], opType = CREATE_ACCOUNT\<rparr>) (wkAddrs w)"

definition feeOps ::
  "Indexer \<Rightarrow> bytes \<Rightarrow> work \<Rightarrow> (string, (bytes, u64) gomap \<times> Operation list) outcome" where
  "feeOps i payer w =
     (if isTracked i payer (wkNewAccounts w) \<and> wkFees w > 0 then
        (if wkFees w > mget 0 (wkWithdrawals w) payer then Err ''Amount taken from payer is less than the fees''
         else Ok (mput (wkWithdrawals w) payer (mget 0 (wkWithdrawals w) payer - wkFees w),
                  [\<lparr>opAccount = payer, opAmount = wkFees w, opProxyPublicKey = [], opReceiver = [],
                    opType = FEE\<rparr>]))
      else Ok (wkWithdrawals w, []))"

text \<open>The proxy transfers, matched against the deposits of a tracked receiver.\<close>

definition proxyOp :: "proxyTransfer \<Rightarrow> Operation" where
  "proxyOp t = \<lparr>opAccount = ptSender t, opAmount = ptAmount t, opProxyPublicKey = [],
     opReceiver = ptReceiver t, opType = PROXY_TRANSFER\<rparr>"

definition matchOne ::
  "Indexer \<Rightarrow> (bytes, bool) gomap \<Rightarrow> proxyTransfer \<Rightarrow> (bytes, u64) gomap \<times> (bytes, u64) gomap
     \<Rightarrow> (string, (bytes, u64) gomap \<times> (bytes, u64) gomap) outcome" where
  "matchOne i acc t dp =
     (let deposits = fst dp; proxyDeposits = snd dp; receiver = ptReceiver t in
      if length receiver > 0 then
        (if isProxy i receiver acc then
           (if ptAmount t > mget 0 proxyDeposits receiver
            then Err ''Amount deposited to proxy account is less than the amount transferred''
            else Ok (deposits, mput proxyDeposits receiver (mget 0 proxyDeposits receiver - ptAmount t)))
         else
           (if ptAmount t > mget 0 deposits receiver
            then Err ''Amount deposited to account is less than the amount transferred''
            else Ok (mput deposits receiver (mget 0 deposits receiver - ptAmount t), proxyDeposits)))
      else Ok (deposits, proxyDeposits))"

fun matchTransfers ::
  "Indexer \<Rightarrow> (bytes, bool) gomap \<Rightarrow> proxyTransfer list \<Rightarrow> (bytes, u64) gomap \<times> (bytes, u64) gomap
     \<Rightarrow> (string, ((bytes, u64) gomap \<times> (bytes, u64) gomap) \<times> Operation list) outcome" where
  "matchTransfers i acc [] dp = Ok (dp, [])"
| "matchTransfers i acc (t # ts) dp =
     (if ptAmount t = 0 then matchTransfers i acc ts dp
      else
        andThen (matchOne i acc t dp) (\<lambda>dp1.
        andThen (matchTransfers i acc ts dp1) (\<lambda>(dp2, ops). Ok (dp2, proxyOp t # ops))))"

text \<open>The remaining positive amounts, with the name of the last account added.\<close>

fun remaining :: "(bytes \<times> u64) list \<Rightarrow> bytes \<times> (bytes, u64) gomap \<Rightarrow> bytes \<times> (bytes, u64) gomap" where
  "remaining [] r = r"
| "remaining ((acct, amount) # m) (name, rem) =
     (if amount > 0 then remaining m (acct, mput rem acct amount) else remaining m (name, rem))"

text \<open>
  The merge of lines 976--1026. The order of each of the five loops over a map is the function
  \<open>ord\<close> at the number of the loop.
\<close>

definition mergeOps ::
  "(nat \<Rightarrow> (bytes \<times> u64) list \<Rightarrow> (bytes \<times> u64) list) \<Rightarrow> (bytes, u64) gomap \<Rightarrow> (bytes, u64) gomap
     \<Rightarrow> (bytes, u64) gomap \<Rightarrow> Operation list" where
  "mergeOps ord deposits proxyDeposits withdrawals =
     (let (receiver, remDeposits) = remaining (ord 1 proxyDeposits) (remaining (ord 0 deposits) ([], []));
          (sender, remWithdrawals) = remaining (ord 2 withdrawals) ([], [])
      in if length remDeposits = 1 \<and> length remWithdrawals = 1 \<and>
            mget 0 remDeposits receiver = mget 0 remWithdrawals sender then
           [\<lparr>opAccount = sender, opAmount = mget 0 remDeposits receiver, opProxyPublicKey = [],
             opReceiver = receiver, opType = TRANSFER\<rparr>]
         else
           map (\<lambda>(acct, amount). \<lparr>opAccount = [], opAmount = amount, opProxyPublicKey = [],
                  opReceiver = acct, opType = TRANSFER\<rparr>) (ord 3 remDeposits) @
           map (\<lambda>(acct, amount). \<lparr>opAccount = acct, opAmount = amount, opProxyPublicKey = [],
                  opReceiver = [], opType = TRANSFER\<rparr>) (ord 4 remWithdrawals))"

definition buildOps ::
  "(nat \<Rightarrow> (bytes \<times> u64) list \<Rightarrow> (bytes \<times> u64) list) \<Rightarrow> Indexer \<Rightarrow> bytes \<Rightarrow> work
     \<Rightarrow> (string, Operation list) outcome" where
  "buildOps ord i payer w =
     andThen (feeOps i payer w) (\<lambda>(withdrawals, fops).
     andThen (matchTransfers i (wkNewAccounts w) (wkProxyTransfers w) (wkDeposits w, wkProxyDeposits w))
       (\<lambda>((deposits, proxyDeposits), pops).
     Ok (createOps w @ fops @ pops @ mergeOps ord deposits proxyDeposits withdrawals)))"

subsection \<open>A transaction\<close>

definition processTxn ::
  "(nat \<Rightarrow> (bytes \<times> u64) list \<Rightarrow> (bytes \<times> u64) list) \<Rightarrow> cadence_env \<Rightarrow> ('k, 's) secp256k1 \<Rightarrow> Indexer
     \<Rightarrow> bytes \<Rightarrow> TransactionResult \<Rightarrow> (bytes, bool) gomap \<times> nat
     \<Rightarrow> (string, IndexedTransaction \<times> (bytes, bool) gomap \<times> nat) outcome" where
  "processTxn ord C S i payer r st =
     andThen (overEvents (firstPass C S i payer) (trEvents r) (startWork (fst st) (snd st))) (\<lambda>w1.
     andThen (overEvents (secondPass C i) (trEvents r) w1) (\<lambda>w2.
     andThen (buildOps ord i payer w2) (\<lambda>ops.
     Ok (\<lparr>itErrorMessage = (if trStatusCode r \<noteq> 0 then trErrorMessage r else []),
          itEvents = wkEvents w2, itFailed = (trStatusCode r \<noteq> 0), itHash = trTransactionId r,
          itOperations = ops\<rparr>, wkNewAccounts w2, wkNewCounter w2))))"

end
