(* ===== verification/Reconcile.thy ===== *)
theory Reconcile
  imports Events
begin

section \<open>The operations account for the events\<close>

text \<open>
  The operations that \<^verbatim>\<open>processBlock\<close> emits for a transaction move, for every account,
  exactly the deposits, proxy deposits, withdrawals and proxy transfers that were collected from
  its events; and they have the shape that the index relies on.
\<close>

subsection \<open>Flows\<close>

definition flow_of :: "bytes \<Rightarrow> Operation list \<Rightarrow> int" where
  "flow_of a ops = sum_list (map (opFlow a) ops)"

lemma flow_of_simps [simp]:
  "flow_of a [] = 0" "flow_of a (x # xs) = opFlow a x + flow_of a xs"
  "flow_of a (xs @ ys) = flow_of a xs + flow_of a ys"
  by (simp_all add: flow_of_def)

definition sent :: "bytes \<Rightarrow> proxyTransfer list \<Rightarrow> int" where
  "sent a ts = sum_list (map (\<lambda>t. if ptSender t = a then uint (ptAmount t) else 0) ts)"

lemma uint_minus_le: "b \<le> a \<Longrightarrow> uint (a - b) = uint a - uint b" for a b :: u64
  by (simp add: uint_minus_simple_alt)

lemma createOps_flow: "flow_of a (createOps w) = 0"
proof -
  have "flow_of a (map (\<lambda>addr. \<lparr>opAccount = addr, opAmount = n, opProxyPublicKey = f addr,
      opReceiver = [], opType = CREATE_ACCOUNT\<rparr>) xs) = 0" for n f xs
    by (induction xs) (simp_all add: opFlow_def)
  then show ?thesis by (simp add: createOps_def)
qed

lemma feeOps_flow:
  assumes "feeOps i payer w = Ok (wd, ops)" "a \<noteq> []" "distinct (map fst (wkWithdrawals w))"
  shows "flow_of a ops = uint (mget 0 wd a) - uint (mget 0 (wkWithdrawals w) a)"
    and "distinct (map fst wd)"
  using assms
  by (auto simp: feeOps_def opFlow_def mget_update uint_minus_le distinct_update linorder_not_less
      split: if_splits)

lemma matchOne_flow:
  assumes "matchOne i acc t dp = Ok dp1" "distinct (map fst (fst dp))" "distinct (map fst (snd dp))"
  shows "distinct (map fst (fst dp1))" "distinct (map fst (snd dp1))"
    "a \<noteq> [] \<Longrightarrow> uint (mget 0 (fst dp1) a) + uint (mget 0 (snd dp1) a) =
       uint (mget 0 (fst dp) a) + uint (mget 0 (snd dp) a) - (if ptReceiver t = a then uint (ptAmount t) else 0)"
    "ptAmount t \<noteq> 0 \<Longrightarrow> mget 0 (fst dp) a = 0 \<Longrightarrow> mget 0 (fst dp1) a = 0"
    "ptAmount t \<noteq> 0 \<Longrightarrow> mget 0 (snd dp) a = 0 \<Longrightarrow> mget 0 (snd dp1) a = 0"
    "mkeys (fst dp1) \<union> mkeys (snd dp1) \<subseteq> mkeys (fst dp) \<union> mkeys (snd dp) \<union> ({ptReceiver t} - {[]})"
  using assms
  by (auto simp: matchOne_def Let_def mget_update uint_minus_le distinct_update linorder_not_less
      word_gt_0 split: if_splits)

lemma matchTransfers_flow:
  assumes "matchTransfers i acc ts dp = Ok (dp', ops)" "distinct (map fst (fst dp))" "distinct (map fst (snd dp))"
  shows "distinct (map fst (fst dp')) \<and> distinct (map fst (snd dp')) \<and>
    (mget 0 (fst dp) a = 0 \<longrightarrow> mget 0 (fst dp') a = 0) \<and> (mget 0 (snd dp) a = 0 \<longrightarrow> mget 0 (snd dp') a = 0) \<and>
    (a \<noteq> [] \<longrightarrow> flow_of a ops = uint (mget 0 (fst dp) a) + uint (mget 0 (snd dp) a) -
      (uint (mget 0 (fst dp') a) + uint (mget 0 (snd dp') a)) - sent a ts)"
  using assms
proof (induction ts arbitrary: dp ops)
  case Nil
  then show ?case by (simp add: sent_def)
next
  case (Cons t ts)
  show ?case
  proof (cases "ptAmount t = 0")
    case True
    with Cons show ?thesis by (simp add: sent_def)
  next
    case False
    with Cons.prems(1) obtain dp1 ops1 where
      one: "matchOne i acc t dp = Ok dp1" and rest: "matchTransfers i acc ts dp1 = Ok (dp', ops1)"
      "ops = proxyOp t # ops1" by auto
    note f = matchOne_flow [OF one Cons.prems(2,3)]
    have "opFlow a (proxyOp t) =
        (if ptReceiver t = a then uint (ptAmount t) else 0) - (if ptSender t = a then uint (ptAmount t) else 0)"
      by (simp add: opFlow_def proxyOp_def)
    with Cons.IH [OF rest(1) f(1,2)] f(3-5) [of a] False rest(2) show ?thesis
      by (auto simp: sent_def)
  qed
qed

lemma mget_Cons [simp]: "mget z ((k, v) # m) a = (if a = k then v else mget z m a)"
  by (simp add: mget_def)

lemma remaining_mget:
  "distinct (map fst m) \<Longrightarrow>
   mget 0 (snd (remaining m (n, r))) a = (if mget 0 m a > 0 then mget 0 m a else mget 0 r a)"
proof (induction m arbitrary: n r)
  case (Cons x m)
  obtain b v where x: "x = (b, v)" by force
  have "mget 0 m b = 0" using Cons.prems x by (intro mget_no_key) (auto simp: mkeys_def)
  with Cons x show ?case by (auto simp: mget_update word_gt_0)
qed simp

lemma remaining_distinct:
  "distinct (map fst r) \<Longrightarrow> distinct (map fst (snd (remaining m (n, r))))"
  by (induction m "(n, r)" arbitrary: n r rule: remaining.induct) (auto simp: distinct_update)

lemma remaining_name:
  "n \<in> mkeys r \<or> r = [] \<Longrightarrow> remaining m (n, r) = (n', r') \<Longrightarrow> n' \<in> mkeys r' \<or> r' = []"
  by (induction m "(n, r)" arbitrary: n r rule: remaining.induct) (auto split: if_splits)

lemma sum_mget:
  "distinct (map fst m) \<Longrightarrow>
   sum_list (map (\<lambda>(k, v). if k = a then uint v else 0) m) = uint (mget 0 m a :: u64)"
proof (induction m)
  case (Cons x m)
  obtain b v where x: "x = (b, v)" by force
  have "b = a \<Longrightarrow> mget 0 m a = 0" using Cons.prems x by (intro mget_no_key) (auto simp: mkeys_def)
  with Cons x show ?case by auto
qed simp

lemma single_flow:
  assumes "a \<noteq> []" "distinct (map fst m)"
  shows "flow_of a (map (\<lambda>(acct, amount). \<lparr>opAccount = [], opAmount = amount, opProxyPublicKey = [],
      opReceiver = acct, opType = TRANSFER\<rparr>) m) = uint (mget 0 m a)"
    and "flow_of a (map (\<lambda>(acct, amount). \<lparr>opAccount = acct, opAmount = amount, opProxyPublicKey = [],
      opReceiver = [], opType = TRANSFER\<rparr>) m) = - uint (mget 0 m a)"
proof -
  have in_flow: "flow_of a (map (\<lambda>(acct, amount). \<lparr>opAccount = [], opAmount = amount, opProxyPublicKey = [],
      opReceiver = acct, opType = TRANSFER\<rparr>) m) = sum_list (map (\<lambda>(k, v). if k = a then uint v else 0) m)"
    for m using assms(1) by (induction m) (auto simp: opFlow_def)
  have out_flow: "flow_of a (map (\<lambda>(acct, amount). \<lparr>opAccount = acct, opAmount = amount, opProxyPublicKey = [],
      opReceiver = [], opType = TRANSFER\<rparr>) m) = - sum_list (map (\<lambda>(k, v). if k = a then uint v else 0) m)"
    for m using assms(1) by (induction m) (auto simp: opFlow_def)
  show "flow_of a (map (\<lambda>(acct, amount). \<lparr>opAccount = [], opAmount = amount, opProxyPublicKey = [],
      opReceiver = acct, opType = TRANSFER\<rparr>) m) = uint (mget 0 m a)"
    unfolding in_flow by (rule sum_mget [OF assms(2)])
  show "flow_of a (map (\<lambda>(acct, amount). \<lparr>opAccount = acct, opAmount = amount, opProxyPublicKey = [],
      opReceiver = [], opType = TRANSFER\<rparr>) m) = - uint (mget 0 m a)"
    unfolding out_flow by (simp add: sum_mget [OF assms(2)])
qed

lemma singleton_map:
  assumes "length m = 1" "k \<in> mkeys m \<or> m = []"
  shows "\<exists>v. m = [(k, v)]"
  using assms by (cases m) (auto simp: mkeys_def)

lemma range_order_mget': "range_order ord \<Longrightarrow> distinct (map fst m) \<Longrightarrow> mget z (ord m) a = mget z m a"
  by (simp add: mget_def range_order_map_of)

lemma mergeOps_flow:
  assumes ord: "\<And>n. range_order (ord n)" and a: "a \<noteq> []"
    and dist: "distinct (map fst dep)" "distinct (map fst pdep)" "distinct (map fst wd)"
    and disj: "mget 0 dep a = 0 \<or> mget 0 pdep a = 0"
  shows "flow_of a (mergeOps ord dep pdep wd) =
    uint (mget 0 dep a) + uint (mget 0 pdep a) - uint (mget 0 wd a)"
proof -
  obtain n0 r0 where r0: "remaining (ord 0 dep) ([], []) = (n0, r0)" by force
  obtain rcv rd where rd: "remaining (ord 1 pdep) (n0, r0) = (rcv, rd)" by force
  obtain snd' rw where rw: "remaining (ord 2 wd) ([], []) = (snd', rw)" by force
  have gt: "(0 < x) = (x \<noteq> 0)" for x :: u64 by (simp add: word_gt_0)
  have m0: "mget 0 r0 x = mget 0 dep x" for x
    using remaining_mget [of "ord 0 dep" "[]" "[]" x] r0 ord dist(1)
    by (simp add: range_order_distinct range_order_mget' gt split: if_splits)
  have m1: "mget 0 rd x = (if mget 0 pdep x > 0 then mget 0 pdep x else mget 0 dep x)" for x
    using remaining_mget [of "ord 1 pdep" n0 r0 x] rd m0 ord dist(2)
    by (simp add: range_order_distinct range_order_mget')
  have m2: "mget 0 rw x = mget 0 wd x" for x
    using remaining_mget [of "ord 2 wd" "[]" "[]" x] rw ord dist(3)
    by (simp add: range_order_distinct range_order_mget' gt split: if_splits)
  have d: "distinct (map fst r0)" "distinct (map fst rd)" "distinct (map fst rw)"
    using remaining_distinct [of "[]" "ord 0 dep" "[]"] remaining_distinct [of r0 "ord 1 pdep" n0]
      remaining_distinct [of "[]" "ord 2 wd" "[]"] r0 rd rw by simp_all
  have rem: "uint (mget 0 rd a) = uint (mget 0 dep a) + uint (mget 0 pdep a)"
    using disj by (auto simp: m1 gt)
  show ?thesis
  proof (cases "length rd = 1 \<and> length rw = 1 \<and> mget 0 rd rcv = mget 0 rw snd'")
    case True
    have "n0 \<in> mkeys r0 \<or> r0 = []" using remaining_name [OF _ r0] by simp
    from singleton_map [OF _ remaining_name [OF this rd]] True obtain v where v: "rd = [(rcv, v)]" by blast
    have "snd' \<in> mkeys rw \<or> rw = []" using remaining_name [OF _ rw] by simp
    from singleton_map [OF _ this] True obtain u where u: "rw = [(snd', u)]" by blast
    from rem m2 [of a] True show ?thesis
      by (auto simp: mergeOps_def r0 rd rw v u opFlow_def simp del: One_nat_def split: if_splits)
  next
    case False
    then show ?thesis
      using rem m2 [of a] single_flow [OF a range_order_distinct [OF ord d(2)]]
        single_flow [OF a range_order_distinct [OF ord d(3)]]
      by (auto simp: mergeOps_def r0 rd rw range_order_mget' [OF ord] d simp del: One_nat_def)
  qed
qed

lemma buildOps_flow:
  assumes ops: "buildOps ord i payer w = Ok ops" and ord: "\<And>n. range_order (ord n)" and a: "a \<noteq> []"
    and dist: "distinct (map fst (wkDeposits w))" "distinct (map fst (wkProxyDeposits w))"
      "distinct (map fst (wkWithdrawals w))"
    and disj: "mkeys (wkDeposits w) \<inter> mkeys (wkProxyDeposits w) = {}"
  shows "flow_of a ops = uint (mget 0 (wkDeposits w) a) + uint (mget 0 (wkProxyDeposits w) a)
    - uint (mget 0 (wkWithdrawals w) a) - sent a (wkProxyTransfers w)"
proof -
  from ops obtain wd fops dep pdep pops where
    f: "feeOps i payer w = Ok (wd, fops)"
    and m: "matchTransfers i (wkNewAccounts w) (wkProxyTransfers w) (wkDeposits w, wkProxyDeposits w)
      = Ok ((dep, pdep), pops)"
    and eq: "ops = createOps w @ fops @ pops @ mergeOps ord dep pdep wd"
    by (auto simp: buildOps_def split: prod.splits)
  note fee = feeOps_flow [OF f a dist(3)]
  note mt = matchTransfers_flow [OF m, simplified fst_conv snd_conv, OF dist(1,2), of a]
  have "mget 0 (wkDeposits w) a = 0 \<or> mget 0 (wkProxyDeposits w) a = 0"
    using disj mget_no_key [of a "wkDeposits w" 0] mget_no_key [of a "wkProxyDeposits w" 0] by auto
  with mt have "mget 0 dep a = 0 \<or> mget 0 pdep a = 0" by auto
  from mergeOps_flow [OF ord a _ _ fee(2) this] mt a show ?thesis
    using fee(1) by (simp add: eq createOps_flow)
qed

end
