(* ===== verification/Config.thy ===== *)
theory Config
  imports Prelude
begin

section \<open>Package config: the configuration of a chain\<close>

text \<open>
  The validation of \<^verbatim>\<open>config/config.go\<close>, with the pool of Access API clients that
  \<^verbatim>\<open>access.New\<close> builds for a spork. The decoded JSON file is the record \<open>chainConfig\<close>;
  what the operating system, the flow-go and the libp2p modules answer is the record \<open>sysEnv\<close>. The
  pointers \<^verbatim>\<open>Next\<close> and \<^verbatim>\<open>Prev\<close> of a spork are indices into the list of sporks of
  the chain, so that \<^verbatim>\<open>SporkFor\<close> follows pointers as the code does; that it always returns
  is a theorem about the chains \<open>Init\<close> builds.
\<close>

subsection \<open>Data\<close>

record NodeConfig =
  ncAddress :: string
  ncPublicKey :: string
  ncTLS :: bool

text \<open>A client: its address, how the connection is secured, and whether calls go through the cache.\<close>

datatype transport = Insecure | SystemRoots | PinnedPeer bytes

record Client =
  clAddr :: string
  clTransport :: transport
  clCached :: bool

record SeedNode =
  snHost :: string
  snPort :: u16
  snPublicKey :: string

record Consensus =
  csDisableSignatureCheck :: bool
  csRootProtocolStateURL :: string
  csRootProtocolStateSignatureURL :: string
  csSeedNodes :: "SeedNode list"
  csSigningKey :: string

record Contracts =
  ctFlowFees :: string
  ctFlowToken :: string
  ctFungibleToken :: string
  ctFlowColdStorageProxy :: string
  ctFeeReceivers :: "string list"

text \<open>The network of the chain a spork points to is fixed before the sporks are parsed.\<close>

record Spork =
  spAccessNodes :: "Client list"
  spNetwork :: string
  spConsensus :: "Consensus option"
  spID :: u64
  spNext :: "nat option"
  spPrev :: "nat option"
  spRootBlock :: u64
  spVersion :: int

record Chain =
  chBalanceValidationInterval :: int
  chCache :: bool
  chConstructionAccessNodes :: "Client list"
  chDataAccessNodes :: "Client list"
  chContracts :: Contracts
  chDataDir :: string
  chMaxBackoffInterval :: int
  chMode :: string
  chNetwork :: string
  chOriginators :: "bytes list"
  chPort :: u16
  chPurgeProxyAccounts :: bool
  chResyncFrom :: u64
  chSkipBlocks :: "(bytes, unit) gomap"
  chSporkSealTolerance :: u64
  chSporks :: "Spork list"
  chUseConsensusFollower :: bool
  chWorkers :: u64

record sporkConfig =
  scAccessNodes :: "NodeConfig list"
  scConsensus :: "Consensus option"
  scRootBlock :: u64
  scVersion :: int

record chainConfig =
  ccBalanceValidationInterval :: string
  ccCache :: bool
  ccConstructionAccessNodes :: "NodeConfig list"
  ccContracts :: "Contracts option"
  ccDataDir :: string
  ccDisableConsensusFollower :: bool
  ccDropCache :: bool
  ccMaxBackoffInterval :: string
  ccMode :: string
  ccNetwork :: string
  ccOriginators :: "string list"
  ccPort :: u16
  ccPurgeProxyAccounts :: bool
  ccResyncFrom :: u64
  ccSkipBlocks :: "string list"
  ccSporkSealTolerance :: u64
  ccSporks :: "(u64, sporkConfig option) gomap"
  ccWorkers :: u64

datatype stat = IsDir | NotDir | NotExist | StatError

record sysEnv =
  sysPort :: string
  sysParseDuration :: "string \<Rightarrow> int option"
  sysStat :: "string \<Rightarrow> stat"
  sysMkdirAll :: "string \<Rightarrow> bool"
  sysNumCPU :: u64
  sysHexStringToIdentifier :: "string \<Rightarrow> bytes option"
  sysOpenCache :: "string \<Rightarrow> bool"
  sysDropAll :: "string \<Rightarrow> bool"
  sysPeerIDFromKey :: "bytes \<Rightarrow> bytes option"
  sysDial :: "string \<Rightarrow> bool"
  sysJoinPath :: "string \<Rightarrow> string \<Rightarrow> string"

type_synonym 'a checked = "(string, 'a) outcome"

definition fatalUnless :: "bool \<Rightarrow> string \<Rightarrow> unit checked" where
  "fatalUnless b msg = (if b then Ok () else Fatal msg)"

lemma fatalUnless_Ok [simp]: "fatalUnless b m = Ok u \<longleftrightarrow> b"
  by (simp add: fatalUnless_def)

subsection \<open>The pool of clients\<close>

definition verifyCertFunc :: "sysEnv \<Rightarrow> string \<Rightarrow> bytes checked" where
  "verifyCertFunc E key =
     (case hexDecode key of
        None \<Rightarrow> Fatal ''Failed to hex decode the Flow public key''
      | Some raw \<Rightarrow> (case sysPeerIDFromKey E raw of
                       None \<Rightarrow> Fatal ''Failed to decode the key or to derive the peer ID''
                     | Some peer \<Rightarrow> Ok peer))"

definition newClient :: "sysEnv \<Rightarrow> bool \<Rightarrow> NodeConfig \<Rightarrow> Client checked" where
  "newClient E cached node =
     andThen (if ncPublicKey node = [] then Ok (if ncTLS node then SystemRoots else Insecure)
              else andThen (verifyCertFunc E (ncPublicKey node)) (\<lambda>p. Ok (PinnedPeer p))) (\<lambda>t.
     andThen (fatalUnless (sysDial E (ncAddress node)) ''Failed to dial Access API server'') (\<lambda>_.
     Ok \<lparr>clAddr = ncAddress node, clTransport = t, clCached = cached\<rparr>))"

fun newPool :: "sysEnv \<Rightarrow> bool \<Rightarrow> NodeConfig list \<Rightarrow> Client list checked" where
  "newPool E cached [] = Ok []"
| "newPool E cached (n # ns) =
     andThen (newClient E cached n) (\<lambda>c. andThen (newPool E cached ns) (\<lambda>cs. Ok (c # cs)))"

text \<open>\<^verbatim>\<open>p[rand.Int()%len(p)]\<close>: the remainder by zero panics on an empty pool.\<close>

definition PoolClient :: "Client list \<Rightarrow> nat \<Rightarrow> Client checked" where
  "PoolClient p r = (if p = [] then Panic ''integer divide by zero'' else elemAt p (r mod length p))"

subsection \<open>Queries\<close>

definition IsProxyContractDeployed :: "Chain \<Rightarrow> bool" where
  "IsProxyContractDeployed c \<longleftrightarrow> ctFlowColdStorageProxy (chContracts c) \<noteq> ''0000000000000000''"

definition FirstSpork :: "Chain \<Rightarrow> Spork checked" where
  "FirstSpork c = elemAt (chSporks c) 0"

definition LatestSpork :: "Chain \<Rightarrow> Spork checked" where
  "LatestSpork c =
     (if chSporks c = [] then Panic ''index out of range'' else elemAt (chSporks c) (length (chSporks c) - 1))"

definition sporkString :: "Spork \<Rightarrow> string" where
  "sporkString s = spNetwork s @ ''-'' @ formatUint (spID s)"

text \<open>
  The loop of \<^verbatim>\<open>SporkFor\<close>: from a spork to the next one until the height is below the root
  of the next. The result is the index of the spork; \<open>None\<close> is the loop that does not return.
\<close>

partial_function (option) sporkLoop :: "Spork list \<Rightarrow> u64 \<Rightarrow> nat \<Rightarrow> nat option" where
  "sporkLoop sporks height cur =
     (case spNext (sporks ! cur) of
        None \<Rightarrow> Some cur
      | Some n \<Rightarrow> if height < spRootBlock (sporks ! n) then Some cur else sporkLoop sporks height n)"

declare sporkLoop.simps [code]

text \<open>\<open>Ok None\<close> is the nil pointer for a height below the first spork; the option outside is the loop.\<close>

definition SporkFor :: "Chain \<Rightarrow> u64 \<Rightarrow> Spork option checked option" where
  "SporkFor c height =
     (if chSporks c = [] then Some (Panic ''index out of range'')
      else if height < spRootBlock (chSporks c ! 0) then Some (Ok None)
      else map_option (\<lambda>k. Ok (Some (chSporks c ! k))) (sporkLoop (chSporks c) height 0))"

fun feeAddrs :: "string list \<Rightarrow> (bytes, bool) gomap \<Rightarrow> (bytes, bool) gomap checked" where
  "feeAddrs [] addrs = Ok addrs"
| "feeAddrs (src # srcs) addrs =
     (case hexDecode src of
        None \<Rightarrow> Fatal ''Invalid fee address''
      | Some addr \<Rightarrow>
          if length addr \<noteq> 8 then Fatal ''Invalid fee address: expected 8 bytes''
          else feeAddrs srcs (mput addrs addr True))"

definition FeeAddresses :: "Contracts \<Rightarrow> (bytes, bool) gomap checked" where
  "FeeAddresses c = feeAddrs (ctFlowFees c # ctFeeReceivers c) []"

subsection \<open>Validation\<close>

text \<open>The zero value of the chain, before anything is parsed.\<close>

definition emptyChain :: Chain where
  "emptyChain =
     \<lparr>chBalanceValidationInterval = 0, chCache = False, chConstructionAccessNodes = [],
      chDataAccessNodes = [],
      chContracts = \<lparr>ctFlowFees = [], ctFlowToken = [], ctFungibleToken = [],
                     ctFlowColdStorageProxy = [], ctFeeReceivers = []\<rparr>,
      chDataDir = [], chMaxBackoffInterval = 0, chMode = [], chNetwork = [], chOriginators = [],
      chPort = 0, chPurgeProxyAccounts = False, chResyncFrom = 0, chSkipBlocks = [],
      chSporkSealTolerance = 0, chSporks = [], chUseConsensusFollower = False, chWorkers = 0\<rparr>"

definition parseAndValidateMode :: "chainConfig \<Rightarrow> Chain \<Rightarrow> Chain checked" where
  "parseAndValidateMode c r =
     (if ccMode c = ''online'' \<or> ccMode c = ''offline'' then Ok (r\<lparr>chMode := ccMode c\<rparr>)
      else if ccMode c = [] then Ok (r\<lparr>chMode := ''online''\<rparr>)
      else Fatal ''Invalid config value for .mode'')"

definition parseAndValidateNetwork :: "chainConfig \<Rightarrow> Chain \<Rightarrow> Chain checked" where
  "parseAndValidateNetwork c r =
     (if ccNetwork c = [] then Fatal ''Missing .network value''
      else if \<not> (ccNetwork c = ''mainnet'' \<or> ccNetwork c = ''testnet'' \<or>
                 ccNetwork c = ''localnet'' \<or> ccNetwork c = ''emulator'')
      then Fatal ''Invalid config value for .network''
      else Ok (r\<lparr>chNetwork := ccNetwork c\<rparr>))"

text \<open>\<^verbatim>\<open>strconv.ParseUint(port, 10, 16)\<close>: digits only, below \<open>2 ^ 16\<close>.\<close>

definition parsePort :: "string \<Rightarrow> u16 option" where
  "parsePort s =
     (if s = [] then None
      else (case parseDigits 0 s of
              None \<Rightarrow> None
            | Some n \<Rightarrow> if n < 2 ^ 16 then Some (of_nat n) else None))"

definition parseAndValidatePort :: "sysEnv \<Rightarrow> chainConfig \<Rightarrow> Chain \<Rightarrow> Chain checked" where
  "parseAndValidatePort E c r =
     andThen (if sysPort E = [] then Ok (ccPort c)
              else (case parsePort (sysPort E) of None \<Rightarrow> Fatal ''Invalid $PORT value'' | Some p \<Rightarrow> Ok p)) (\<lambda>p.
     andThen (fatalUnless (p \<noteq> 0) ''Missing .port value'') (\<lambda>_. Ok (r\<lparr>chPort := p\<rparr>)))"

definition parseAndValidateContracts :: "chainConfig \<Rightarrow> Chain \<Rightarrow> Chain checked" where
  "parseAndValidateContracts c r =
     (case ccContracts c of
        None \<Rightarrow> Fatal ''Missing .contracts value''
      | Some t \<Rightarrow>
          andThen (fatalUnless (ctFlowColdStorageProxy t \<noteq> []) ''Missing .contracts.flow_cold_storage_proxy'') (\<lambda>_.
          andThen (fatalUnless (ctFlowFees t \<noteq> []) ''Missing .contracts.flow_fees'') (\<lambda>_.
          andThen (fatalUnless (ctFlowToken t \<noteq> []) ''Missing .contracts.flow_token'') (\<lambda>_.
          andThen (fatalUnless (ctFungibleToken t \<noteq> []) ''Missing .contracts.fungible_token'') (\<lambda>_.
          Ok (r\<lparr>chContracts := t\<rparr>))))))"

text \<open>Durations are nanoseconds.\<close>

definition duration :: "sysEnv \<Rightarrow> string \<Rightarrow> int \<Rightarrow> string \<Rightarrow> int checked" where
  "duration E s dflt msg =
     (if s = [] then Ok dflt
      else (case sysParseDuration E s of None \<Rightarrow> Fatal msg | Some d \<Rightarrow> Ok d))"

definition parseAndValidateBalanceValidationInterval :: "sysEnv \<Rightarrow> chainConfig \<Rightarrow> Chain \<Rightarrow> Chain checked" where
  "parseAndValidateBalanceValidationInterval E c r =
     andThen (duration E (ccBalanceValidationInterval c) 1000000000 ''Failed to parse .balance_validation_interval'')
       (\<lambda>d. Ok (r\<lparr>chBalanceValidationInterval := d\<rparr>))"

definition parseAndValidateMaxBackoffInterval :: "sysEnv \<Rightarrow> chainConfig \<Rightarrow> Chain \<Rightarrow> Chain checked" where
  "parseAndValidateMaxBackoffInterval E c r =
     andThen (duration E (ccMaxBackoffInterval c) 10000000000 ''Failed to parse .max_backoff_interval'')
       (\<lambda>d. Ok (r\<lparr>chMaxBackoffInterval := d\<rparr>))"

definition parseAndValidateDataDir :: "sysEnv \<Rightarrow> chainConfig \<Rightarrow> Chain \<Rightarrow> Chain checked" where
  "parseAndValidateDataDir E c r =
     (if ccDataDir c = [] then Fatal ''Missing .data_dir value''
      else (case sysStat E (ccDataDir c) of
              IsDir \<Rightarrow> Ok (r\<lparr>chDataDir := ccDataDir c\<rparr>)
            | NotDir \<Rightarrow> Fatal ''Path exists and is not a directory''
            | StatError \<Rightarrow> Fatal ''Failed to stat directory''
            | NotExist \<Rightarrow>
                if sysMkdirAll E (ccDataDir c) then Ok (r\<lparr>chDataDir := ccDataDir c\<rparr>)
                else Fatal ''Failed to create the directory''))"

fun parseOriginators :: "string list \<Rightarrow> bytes list checked" where
  "parseOriginators [] = Ok []"
| "parseOriginators (raw # rest) =
     (case hexDecode raw of
        None \<Rightarrow> Fatal ''Invalid originator address''
      | Some addr \<Rightarrow>
          if length addr \<noteq> 8 then Fatal ''Invalid originator address: addresses must be 8 bytes long''
          else andThen (parseOriginators rest) (\<lambda>addrs. Ok (addr # addrs)))"

definition parseAndValidateOriginators :: "chainConfig \<Rightarrow> Chain \<Rightarrow> Chain checked" where
  "parseAndValidateOriginators c r =
     andThen (parseOriginators (ccOriginators c)) (\<lambda>addrs. Ok (r\<lparr>chOriginators := addrs\<rparr>))"

definition parseAndValidateResyncFrom :: "chainConfig \<Rightarrow> Chain \<Rightarrow> Chain checked" where
  "parseAndValidateResyncFrom c r = Ok (r\<lparr>chResyncFrom := ccResyncFrom c\<rparr>)"

fun parseSkipBlocks :: "sysEnv \<Rightarrow> string list \<Rightarrow> (bytes, unit) gomap \<Rightarrow> (bytes, unit) gomap checked" where
  "parseSkipBlocks E [] skip = Ok skip"
| "parseSkipBlocks E (raw # rest) skip =
     (case sysHexStringToIdentifier E raw of
        None \<Rightarrow> Fatal ''Invalid block hash''
      | Some block \<Rightarrow> parseSkipBlocks E rest (mput skip block ()))"

definition parseAndValidateSkipBlocks :: "sysEnv \<Rightarrow> chainConfig \<Rightarrow> Chain \<Rightarrow> Chain checked" where
  "parseAndValidateSkipBlocks E c r =
     andThen (parseSkipBlocks E (ccSkipBlocks c) []) (\<lambda>skip. Ok (r\<lparr>chSkipBlocks := skip\<rparr>))"

definition parseAndValidateSporkSealTolerance :: "chainConfig \<Rightarrow> Chain \<Rightarrow> Chain checked" where
  "parseAndValidateSporkSealTolerance c r = Ok (r\<lparr>chSporkSealTolerance := ccSporkSealTolerance c\<rparr>)"

definition parseAndValidateWorkers :: "sysEnv \<Rightarrow> chainConfig \<Rightarrow> Chain \<Rightarrow> Chain checked" where
  "parseAndValidateWorkers E c r =
     Ok (r\<lparr>chWorkers := (if ccWorkers c = 0 then sysNumCPU E * 2 else ccWorkers c)\<rparr>)"

definition parseAndValidateConstructionAccessNodes :: "sysEnv \<Rightarrow> chainConfig \<Rightarrow> Chain \<Rightarrow> Chain checked" where
  "parseAndValidateConstructionAccessNodes E c r =
     andThen (fatalUnless (ccConstructionAccessNodes c \<noteq> []) ''Missing .construction_access_nodes value'') (\<lambda>_.
     andThen (newPool E False (ccConstructionAccessNodes c)) (\<lambda>p. Ok (r\<lparr>chConstructionAccessNodes := p\<rparr>)))"

subsection \<open>The sporks\<close>

definition openCache :: "sysEnv \<Rightarrow> chainConfig \<Rightarrow> Chain \<Rightarrow> string \<Rightarrow> unit checked" where
  "openCache E c r name =
     (if chCache r then
        (let dir = sysJoinPath E (chDataDir r) (name @ ''-cache'') in
         andThen (fatalUnless (sysOpenCache E dir) ''Failed to open the cache database'') (\<lambda>_.
         fatalUnless (ccDropCache c \<longrightarrow> sysDropAll E dir) ''Failed to drop cache''))
      else Ok ())"

text \<open>The checks against the previous spork, which is the last one added so far.\<close>

definition checkPrev :: "Spork list \<Rightarrow> u64 \<Rightarrow> u64 \<Rightarrow> unit checked" where
  "checkPrev sporks idn root =
     (if sporks = [] then Ok ()
      else andThen (fatalUnless (idn = spID (last sporks) + 1) ''Missing .sporks definition'') (\<lambda>_.
           fatalUnless (spRootBlock (last sporks) < root) ''The .root_block is not greater''))"

definition linkNext :: "Spork list \<Rightarrow> Spork list" where
  "linkNext sporks =
     (if sporks = [] then []
      else sporks[length sporks - 1 := (last sporks)\<lparr>spNext := Some (length sporks)\<rparr>])"

definition addSpork ::
  "sysEnv \<Rightarrow> chainConfig \<Rightarrow> bool \<Rightarrow> u64 \<Rightarrow> Chain \<Rightarrow> Chain checked" where
  "addSpork E c isLast idn r =
     (case map_of (ccSporks c) idn of
        Some (Some cfg) \<Rightarrow>
          andThen (fatalUnless (scAccessNodes cfg \<noteq> []) ''Missing .access_nodes definition'') (\<lambda>_.
          andThen (fatalUnless (1 \<le> scVersion cfg \<and> scVersion cfg \<le> 8) ''Invalid .version value'') (\<lambda>_.
          andThen (openCache E c r (chNetwork r @ ''-'' @ formatUint idn)) (\<lambda>_.
          andThen (newPool E (chCache r) (scAccessNodes cfg)) (\<lambda>pool.
          andThen (if isLast then newPool E False (scAccessNodes cfg) else Ok (chDataAccessNodes r)) (\<lambda>dpool.
          andThen (checkPrev (chSporks r) idn (scRootBlock cfg)) (\<lambda>_.
          Ok (r\<lparr>chDataAccessNodes := dpool,
                chSporks := linkNext (chSporks r) @
                  [\<lparr>spAccessNodes = pool, spNetwork = chNetwork r, spConsensus = scConsensus cfg,
                    spID = idn, spNext = None,
                    spPrev = (if chSporks r = [] then None else Some (length (chSporks r) - 1)),
                    spRootBlock = scRootBlock cfg, spVersion = scVersion cfg\<rparr>]\<rparr>)))))))
      | _ \<Rightarrow> Panic ''nil pointer dereference'')"

fun addSporks :: "sysEnv \<Rightarrow> chainConfig \<Rightarrow> u64 list \<Rightarrow> Chain \<Rightarrow> Chain checked" where
  "addSporks E c [] r = Ok r"
| "addSporks E c (i # is) r = andThen (addSpork E c (is = []) i r) (addSporks E c is)"

definition parseAndValidateSporks :: "sysEnv \<Rightarrow> chainConfig \<Rightarrow> Chain \<Rightarrow> Chain checked" where
  "parseAndValidateSporks E c r =
     andThen (fatalUnless (length (ccSporks c) \<ge> 1) ''The .sporks value must contain at least 1 spork'') (\<lambda>_.
     addSporks E c (sort (map fst (ccSporks c))) r)"

fun checkSeedNodes :: "SeedNode list \<Rightarrow> unit checked" where
  "checkSeedNodes [] = Ok ()"
| "checkSeedNodes (n # ns) =
     andThen (fatalUnless (snHost n \<noteq> []) ''Missing .host definition'') (\<lambda>_.
     andThen (fatalUnless (snPort n \<noteq> 0) ''Missing .port definition'') (\<lambda>_.
     andThen (fatalUnless (snPublicKey n \<noteq> []) ''Missing .public_key definition'') (\<lambda>_.
     checkSeedNodes ns)))"

definition checkConsensus :: "Consensus option \<Rightarrow> unit checked" where
  "checkConsensus cfg =
     (case cfg of
        None \<Rightarrow> Fatal ''Missing .consensus definition''
      | Some s \<Rightarrow>
          andThen (fatalUnless (csRootProtocolStateURL s \<noteq> []) ''Missing .root_protocol_state_url'') (\<lambda>_.
          andThen (fatalUnless (csRootProtocolStateSignatureURL s \<noteq> [] \<or> csDisableSignatureCheck s)
                     ''Missing .root_protocol_state_signature_url'') (\<lambda>_.
          andThen (fatalUnless (csSeedNodes s \<noteq> []) ''Missing .seed_nodes'') (\<lambda>_.
          andThen (checkSeedNodes (csSeedNodes s)) (\<lambda>_.
          fatalUnless (csSigningKey s \<noteq> []) ''Missing .signing_key'')))))"

definition parseAndValidateDisableConsensusFollower :: "chainConfig \<Rightarrow> Chain \<Rightarrow> Chain checked" where
  "parseAndValidateDisableConsensusFollower c r =
     (let r1 = r\<lparr>chUseConsensusFollower := \<not> ccDisableConsensusFollower c\<rparr> in
      if chUseConsensusFollower r1 then
        andThen (LatestSpork r1) (\<lambda>latest. andThen (checkConsensus (spConsensus latest)) (\<lambda>_. Ok r1))
      else Ok r1)"

definition Init :: "sysEnv \<Rightarrow> chainConfig \<Rightarrow> Chain checked" where
  "Init E c =
     andThen (parseAndValidateMode c emptyChain) (\<lambda>r.
     andThen (parseAndValidateNetwork c r) (\<lambda>r.
     andThen (parseAndValidatePort E c r) (\<lambda>r.
     andThen (parseAndValidateContracts c r) (\<lambda>r.
     if chMode r = ''offline'' then Ok r
     else
     andThen (parseAndValidateBalanceValidationInterval E c
                (r\<lparr>chCache := ccCache c, chPurgeProxyAccounts := ccPurgeProxyAccounts c\<rparr>)) (\<lambda>r.
     andThen (parseAndValidateDataDir E c r) (\<lambda>r.
     andThen (parseAndValidateMaxBackoffInterval E c r) (\<lambda>r.
     andThen (parseAndValidateOriginators c r) (\<lambda>r.
     andThen (parseAndValidateConstructionAccessNodes E c r) (\<lambda>r.
     andThen (parseAndValidateResyncFrom c r) (\<lambda>r.
     andThen (parseAndValidateSkipBlocks E c r) (\<lambda>r.
     andThen (parseAndValidateSporkSealTolerance c r) (\<lambda>r.
     andThen (parseAndValidateWorkers E c r) (\<lambda>r.
     andThen (parseAndValidateSporks E c r) (\<lambda>r.
     parseAndValidateDisableConsensusFollower c r))))))))))))))"

subsection \<open>What a validated chain satisfies\<close>

text \<open>
  The sporks form a doubly linked list in the order of the slice, with consecutive numbers,
  increasing root heights and versions the code knows.
\<close>

definition linked :: "Spork list \<Rightarrow> bool" where
  "linked sporks \<longleftrightarrow>
     (\<forall>k < length sporks.
        spNext (sporks ! k) = (if Suc k < length sporks then Some (Suc k) else None) \<and>
        spPrev (sporks ! k) = (if k = 0 then None else Some (k - 1)))"

definition ordered :: "Spork list \<Rightarrow> bool" where
  "ordered sporks \<longleftrightarrow>
     (\<forall>k. Suc k < length sporks \<longrightarrow>
        spID (sporks ! Suc k) = spID (sporks ! k) + 1 \<and>
        spRootBlock (sporks ! k) < spRootBlock (sporks ! Suc k))"

definition usable :: "Spork \<Rightarrow> bool" where
  "usable s \<longleftrightarrow> 1 \<le> spVersion s \<and> spVersion s \<le> 8 \<and> spAccessNodes s \<noteq> []"

definition sporks_ok :: "Spork list \<Rightarrow> bool" where
  "sporks_ok sporks \<longleftrightarrow> linked sporks \<and> ordered sporks \<and> (\<forall>s \<in> set sporks. usable s)"

lemma newPool_length: "newPool E b ns = Ok p \<Longrightarrow> length p = length ns"
  by (induction ns arbitrary: p) auto

lemma length_linkNext [simp]: "length (linkNext sporks) = length sporks"
  by (simp add: linkNext_def)

lemma linkNext_nth:
  "k < length sporks \<Longrightarrow>
     linkNext sporks ! k =
       (if Suc k = length sporks then (sporks ! k)\<lparr>spNext := Some (length sporks)\<rparr> else sporks ! k)"
  by (auto simp: linkNext_def last_conv_nth nth_list_update)

lemma linkNext_fields [simp]:
  assumes "k < length sporks"
  shows "spID (linkNext sporks ! k) = spID (sporks ! k)"
    and "spRootBlock (linkNext sporks ! k) = spRootBlock (sporks ! k)"
    and "spPrev (linkNext sporks ! k) = spPrev (sporks ! k)"
    and "usable (linkNext sporks ! k) = usable (sporks ! k)"
    and "spVersion (linkNext sporks ! k) = spVersion (sporks ! k)"
  using assms by (simp_all add: linkNext_nth usable_def)

lemma linked_snoc:
  assumes "linked sporks" and "spNext s = None"
    and "spPrev s = (if sporks = [] then None else Some (length sporks - 1))"
  shows "linked (linkNext sporks @ [s])"
  using assms unfolding linked_def
  by (auto simp: nth_append linkNext_nth less_Suc_eq)

lemma ordered_snoc:
  assumes "ordered sporks"
    and "sporks \<noteq> [] \<Longrightarrow> spID s = spID (last sporks) + 1 \<and> spRootBlock (last sporks) < spRootBlock s"
  shows "ordered (linkNext sporks @ [s])"
  unfolding ordered_def
proof (intro allI impI)
  fix k
  assume k: "Suc k < length (linkNext sporks @ [s])"
  show "spID ((linkNext sporks @ [s]) ! Suc k) = spID ((linkNext sporks @ [s]) ! k) + 1 \<and>
        spRootBlock ((linkNext sporks @ [s]) ! k) < spRootBlock ((linkNext sporks @ [s]) ! Suc k)"
  proof (cases "Suc k < length sporks")
    case True
    with assms(1) show ?thesis by (simp add: ordered_def nth_append)
  next
    case False
    with k have e: "Suc k = length sporks" "sporks \<noteq> []" by auto
    then have "last sporks = sporks ! k" by (metis diff_Suc_1 last_conv_nth)
    with e assms(2) show ?thesis by (simp add: nth_append)
  qed
qed

lemma usable_snoc:
  assumes "\<forall>s \<in> set sporks. usable s" and "usable s"
  shows "\<forall>t \<in> set (linkNext sporks @ [s]). usable t"
  using assms by (fastforce simp: in_set_conv_nth)

lemma addSpork_keeps:
  assumes "addSpork E c b i r = Ok r1" and "sporks_ok (chSporks r)"
  shows "sporks_ok (chSporks r1)" and "chSporks r1 \<noteq> []"
proof -
  from assms(1) obtain cfg where cfg: "map_of (ccSporks c) i = Some (Some cfg)"
    by (auto simp: addSpork_def split: option.splits)
  from assms(1) obtain pool dpool where
      n: "scAccessNodes cfg \<noteq> []" and v: "1 \<le> scVersion cfg" "scVersion cfg \<le> 8"
      and p: "newPool E (chCache r) (scAccessNodes cfg) = Ok pool"
      and prev: "checkPrev (chSporks r) i (scRootBlock cfg) = Ok ()"
      and r1: "chSporks r1 = linkNext (chSporks r) @
                  [\<lparr>spAccessNodes = pool, spNetwork = chNetwork r, spConsensus = scConsensus cfg,
                    spID = i, spNext = None,
                    spPrev = (if chSporks r = [] then None else Some (length (chSporks r) - 1)),
                    spRootBlock = scRootBlock cfg, spVersion = scVersion cfg\<rparr>]"
    by (auto simp: addSpork_def cfg)
  have "pool \<noteq> []" using newPool_length [OF p] n by auto
  moreover have "chSporks r \<noteq> [] \<Longrightarrow>
      i = spID (last (chSporks r)) + 1 \<and> spRootBlock (last (chSporks r)) < scRootBlock cfg"
    using prev by (simp add: checkPrev_def)
  ultimately show "sporks_ok (chSporks r1)"
    using assms(2) v unfolding sporks_ok_def r1
    by (intro conjI linked_snoc ordered_snoc usable_snoc) (auto simp: usable_def)
  show "chSporks r1 \<noteq> []" by (simp add: r1)
qed

lemma addSporks_keeps:
  "addSporks E c is r = Ok r1 \<Longrightarrow> sporks_ok (chSporks r) \<Longrightarrow> is \<noteq> [] \<or> chSporks r \<noteq> [] \<Longrightarrow>
     sporks_ok (chSporks r1) \<and> chSporks r1 \<noteq> []"
proof (induction "is" arbitrary: r)
  case (Cons i "is")
  then obtain r2 where "addSpork E c (is = []) i r = Ok r2" "addSporks E c is r2 = Ok r1" by auto
  with Cons show ?case by (meson addSpork_keeps)
qed simp

lemma sporks_ok_Nil [simp]: "sporks_ok []"
  by (simp add: sporks_ok_def linked_def ordered_def)

text \<open>The steps before the sporks are parsed leave them alone.\<close>

lemma parse_keeps_sporks:
  "parseAndValidateMode c r = Ok r1 \<Longrightarrow> chSporks r1 = chSporks r"
  "parseAndValidateNetwork c r = Ok r1 \<Longrightarrow> chSporks r1 = chSporks r"
  "parseAndValidatePort E c r = Ok r1 \<Longrightarrow> chSporks r1 = chSporks r"
  "parseAndValidateContracts c r = Ok r1 \<Longrightarrow> chSporks r1 = chSporks r"
  "parseAndValidateBalanceValidationInterval E c r = Ok r1 \<Longrightarrow> chSporks r1 = chSporks r"
  "parseAndValidateDataDir E c r = Ok r1 \<Longrightarrow> chSporks r1 = chSporks r"
  "parseAndValidateMaxBackoffInterval E c r = Ok r1 \<Longrightarrow> chSporks r1 = chSporks r"
  "parseAndValidateOriginators c r = Ok r1 \<Longrightarrow> chSporks r1 = chSporks r"
  "parseAndValidateConstructionAccessNodes E c r = Ok r1 \<Longrightarrow> chSporks r1 = chSporks r"
  "parseAndValidateResyncFrom c r = Ok r1 \<Longrightarrow> chSporks r1 = chSporks r"
  "parseAndValidateSkipBlocks E c r = Ok r1 \<Longrightarrow> chSporks r1 = chSporks r"
  "parseAndValidateSporkSealTolerance c r = Ok r1 \<Longrightarrow> chSporks r1 = chSporks r"
  "parseAndValidateWorkers E c r = Ok r1 \<Longrightarrow> chSporks r1 = chSporks r"
  "parseAndValidateDisableConsensusFollower c r = Ok r1 \<Longrightarrow> chSporks r1 = chSporks r"
  by (auto simp: parseAndValidateMode_def parseAndValidateNetwork_def parseAndValidatePort_def
      parseAndValidateContracts_def parseAndValidateBalanceValidationInterval_def
      parseAndValidateDataDir_def parseAndValidateMaxBackoffInterval_def parseAndValidateOriginators_def
      parseAndValidateConstructionAccessNodes_def parseAndValidateResyncFrom_def
      parseAndValidateSkipBlocks_def parseAndValidateSporkSealTolerance_def parseAndValidateWorkers_def
      parseAndValidateDisableConsensusFollower_def Let_def
      split: if_splits option.splits stat.splits)

lemma parse_keeps_mode:
  "parseAndValidateNetwork c r = Ok r1 \<Longrightarrow> chMode r1 = chMode r"
  "parseAndValidatePort E c r = Ok r1 \<Longrightarrow> chMode r1 = chMode r"
  "parseAndValidateContracts c r = Ok r1 \<Longrightarrow> chMode r1 = chMode r"
  by (auto simp: parseAndValidateNetwork_def parseAndValidatePort_def parseAndValidateContracts_def
      split: if_splits option.splits)

lemma parseSporks_keeps:
  assumes "parseAndValidateSporks E c r = Ok r1" and "chSporks r = []"
  shows "sporks_ok (chSporks r1) \<and> chSporks r1 \<noteq> []"
proof -
  from assms(1) have "ccSporks c \<noteq> []" and add: "addSporks E c (sort (map fst (ccSporks c))) r = Ok r1"
    by (auto simp: parseAndValidateSporks_def)
  then have "sort (map fst (ccSporks c)) \<noteq> []"
    by (metis length_greater_0_conv length_map length_sort)
  with addSporks_keeps [OF add] assms(2) show ?thesis by simp
qed

lemma Init_online:
  assumes "Init E c = Ok chain" and "chMode chain \<noteq> ''offline''"
  shows "sporks_ok (chSporks chain) \<and> chSporks chain \<noteq> []"
proof -
  have nil: "chSporks emptyChain = []" by (simp add: emptyChain_def)
  from assms obtain r r1 where "chSporks r = []" "parseAndValidateSporks E c r = Ok r1"
      "chSporks chain = chSporks r1"
    by (auto simp: Init_def nil dest!: parse_keeps_sporks split: if_splits)
  then show ?thesis using parseSporks_keeps by metis
qed

subsection \<open>The spork of a height\<close>

lemma ordered_mono:
  assumes "ordered sporks" and "j < length sporks" and "i \<le> j"
  shows "spRootBlock (sporks ! i) \<le> spRootBlock (sporks ! j)"
  using assms(3,2)
proof (induction rule: dec_induct)
  case (step n)
  then have "spRootBlock (sporks ! n) < spRootBlock (sporks ! Suc n)"
    using assms(1) by (simp add: ordered_def)
  with step show ?case by simp
qed simp

text \<open>The index of the spork of a height: the last one whose root is not above it.\<close>

definition sporkIndex :: "Spork list \<Rightarrow> u64 \<Rightarrow> nat \<Rightarrow> bool" where
  "sporkIndex sporks h k \<longleftrightarrow>
     k < length sporks \<and> spRootBlock (sporks ! k) \<le> h \<and>
     (Suc k < length sporks \<longrightarrow> h < spRootBlock (sporks ! Suc k))"

lemma sporkIndex_unique:
  assumes "ordered sporks" and "sporkIndex sporks h i" and "sporkIndex sporks h j"
  shows "i = j"
proof (rule ccontr)
  have no: False if "sporkIndex sporks h a" "sporkIndex sporks h b" "a < b" for a b
    using that ordered_mono [OF assms(1), of b "Suc a"] by (auto simp: sporkIndex_def)
  assume "i \<noteq> j"
  then show False using no assms(2,3) by (metis linorder_neqE_nat)
qed

lemma sporkLoop_returns:
  assumes "linked sporks" and "k < length sporks" and "spRootBlock (sporks ! k) \<le> h"
  shows "\<exists>j. sporkLoop sporks h k = Some j \<and> sporkIndex sporks h j"
  using assms(2,3)
proof (induction "length sporks - k" arbitrary: k)
  case (Suc n)
  have nx: "spNext (sporks ! k) = (if Suc k < length sporks then Some (Suc k) else None)"
    using assms(1) Suc.prems by (simp add: linked_def)
  show ?case
  proof (cases "Suc k < length sporks \<and> spRootBlock (sporks ! Suc k) \<le> h")
    case True
    then have "\<exists>j. sporkLoop sporks h (Suc k) = Some j \<and> sporkIndex sporks h j"
      using Suc.hyps by simp
    with True nx show ?thesis by (subst sporkLoop.simps) auto
  next
    case False
    with nx Suc.prems show ?thesis
      by (subst sporkLoop.simps) (auto simp: sporkIndex_def not_le)
  qed
qed simp

text \<open>
  C21. The sporks of a configuration that \<open>Init\<close> accepts in online mode are a doubly linked list in
  slice order whose numbers are consecutive and whose root heights increase, with versions between
  1 and 8 (the range on which every hash derivation of \<^verbatim>\<open>state/convert.go\<close> is defined) and a
  non-empty pool of clients each.
\<close>

theorem validated_sporks:
  assumes "Init E c = Ok chain" and "chMode chain \<noteq> ''offline''"
  shows "chSporks chain \<noteq> [] \<and> sporks_ok (chSporks chain)"
  using Init_online [OF assms] by simp

text \<open>
  C22. On a validated chain \<^verbatim>\<open>SporkFor\<close> always returns: the nil pointer below the first root
  block, and otherwise the one spork whose range of heights holds the height.
\<close>

theorem spork_for_total:
  assumes "Init E c = Ok chain" and "chMode chain \<noteq> ''offline''"
  shows "if h < spRootBlock (hd (chSporks chain)) then SporkFor chain h = Some (Ok None)
         else \<exists>k. SporkFor chain h = Some (Ok (Some (chSporks chain ! k))) \<and>
                  (\<forall>j. sporkIndex (chSporks chain) h j = (j = k))"
proof -
  let ?s = "chSporks chain"
  have ok: "linked ?s" "ordered ?s" and ne: "?s \<noteq> []"
    using Init_online [OF assms] by (simp_all add: sporks_ok_def)
  have hd: "hd ?s = ?s ! 0" using ne by (simp add: hd_conv_nth)
  show ?thesis
  proof (cases "h < spRootBlock (?s ! 0)")
    case True
    then show ?thesis by (simp add: SporkFor_def ne hd)
  next
    case False
    then obtain j where j: "sporkLoop ?s h 0 = Some j" "sporkIndex ?s h j"
      using sporkLoop_returns [OF ok(1), of 0 h] ne by (auto simp: not_less)
    then have "\<forall>k. sporkIndex ?s h k = (k = j)"
      using sporkIndex_unique [OF ok(2)] by metis
    with j False ne hd show ?thesis by (auto simp: SporkFor_def)
  qed
qed

subsection \<open>A configuration\<close>

definition sampleSys :: sysEnv where
  "sampleSys =
     \<lparr>sysPort = [], sysParseDuration = (\<lambda>_. None), sysStat = (\<lambda>_. IsDir), sysMkdirAll = (\<lambda>_. True),
      sysNumCPU = 4, sysHexStringToIdentifier = hexDecode, sysOpenCache = (\<lambda>_. True),
      sysDropAll = (\<lambda>_. True), sysPeerIDFromKey = Some, sysDial = (\<lambda>_. True),
      sysJoinPath = (\<lambda>a b. a @ ''/'' @ b)\<rparr>"

definition sampleContracts :: Contracts where
  "sampleContracts =
     \<lparr>ctFlowFees = ''f919ee77447b7497'', ctFlowToken = ''1654653399040a61'',
      ctFungibleToken = ''f233dcee88fe0abe'', ctFlowColdStorageProxy = ''0000000000000000'',
      ctFeeReceivers = []\<rparr>"

definition sampleNode :: NodeConfig where
  "sampleNode = \<lparr>ncAddress = ''a:9000'', ncPublicKey = [], ncTLS = True\<rparr>"

definition sampleConfig :: chainConfig where
  "sampleConfig =
     \<lparr>ccBalanceValidationInterval = [], ccCache = False, ccConstructionAccessNodes = [sampleNode],
      ccContracts = Some sampleContracts, ccDataDir = ''data'', ccDisableConsensusFollower = True,
      ccDropCache = False, ccMaxBackoffInterval = [], ccMode = [], ccNetwork = ''mainnet'',
      ccOriginators = [], ccPort = 8080, ccPurgeProxyAccounts = False, ccResyncFrom = 0,
      ccSkipBlocks = [], ccSporkSealTolerance = 0,
      ccSporks =
        [(2, Some \<lparr>scAccessNodes = [sampleNode], scConsensus = None, scRootBlock = 20, scVersion = 8\<rparr>),
         (1, Some \<lparr>scAccessNodes = [sampleNode], scConsensus = None, scRootBlock = 10, scVersion = 7\<rparr>)],
      ccWorkers = 0\<rparr>"

definition sampleChain :: Chain where
  "sampleChain = (case Init sampleSys sampleConfig of Ok c \<Rightarrow> c | _ \<Rightarrow> emptyChain)"

lemma sampleChain_Init: "Init sampleSys sampleConfig = Ok sampleChain"
  by code_simp

lemma sampleChain_mode: "chMode sampleChain \<noteq> ''offline''"
  by code_simp

lemma sampleChain_roots: "map spRootBlock (chSporks sampleChain) = [10, 20]"
  by code_simp

theorem validated_sporks_witness:
  "Init sampleSys sampleConfig = Ok sampleChain \<and> chSporks sampleChain \<noteq> [] \<and>
   sporks_ok (chSporks sampleChain)"
  using validated_sporks [OF sampleChain_Init sampleChain_mode] sampleChain_Init by simp

theorem spork_for_total_witness:
  "\<exists>k. SporkFor sampleChain 15 = Some (Ok (Some (chSporks sampleChain ! k))) \<and>
       (\<forall>j. sporkIndex (chSporks sampleChain) 15 j = (j = k))"
proof -
  have "spRootBlock (hd (chSporks sampleChain)) = 10" by code_simp
  then show ?thesis using spork_for_total [OF sampleChain_Init sampleChain_mode, of 15] by simp
qed

end
