(* ===== verification/Convert.thy ===== *)
theory Convert
  imports Config
begin

section \<open>Package state: identifiers derived from Access API messages\<close>

text \<open>
  The derivations and the block check of \<^verbatim>\<open>state/convert.go\<close>. The messages of the Access
  API are records; a struct that is hashed is its list of fields in declaration order (a value of
  \<open>enc\<close>), which is what the RLP fingerprint of flow-go reads. The functions of flow-go are the
  record \<open>flowgo\<close>: fingerprints, identifiers, Merkle roots and the identifiers of its own types. A
  spork enters through its version and its network. The cases \<^verbatim>\<open>panic("unreachable code")\<close>
  are \<open>Panic\<close> values.
\<close>

subsection \<open>Messages\<close>

record Timestamp =
  tsSeconds :: int
  tsNanos :: int

text \<open>
  \<^verbatim>\<open>AsTime().UnixNano()\<close> and \<^verbatim>\<open>UnixMilli()\<close>, converted to 64 bits: the time is
  normalised to whole seconds and nanoseconds below \<open>10 ^ 9\<close>, so the milliseconds round down.
\<close>

definition unixNano :: "Timestamp \<Rightarrow> u64" where
  "unixNano t = word_of_int (tsSeconds t * 1000000000 + tsNanos t)"

definition unixMilli :: "Timestamp \<Rightarrow> u64" where
  "unixMilli t = word_of_int ((tsSeconds t * 1000000000 + tsNanos t) div 1000000)"

record QuorumCertificate =
  qcView :: u64
  qcBlockId :: bytes
  qcSignerIndices :: bytes
  qcSigData :: bytes

record TimeoutCertificate =
  tcView :: u64
  tcHighQcViews :: "u64 list"
  tcHighestQc :: "QuorumCertificate option"
  tcSignerIndices :: bytes
  tcSigData :: bytes

record BlockHeader =
  bhId :: bytes
  bhParentId :: bytes
  bhHeight :: u64
  bhTimestamp :: Timestamp
  bhPayloadHash :: bytes
  bhView :: u64
  bhParentView :: u64
  bhParentVoterIds :: "bytes list"
  bhParentVoterIndices :: bytes
  bhParentVoterSigData :: bytes
  bhProposerId :: bytes
  bhProposerSigData :: bytes
  bhLastViewTc :: "TimeoutCertificate option"

record CollectionGuarantee =
  cgCollectionId :: bytes
  cgReferenceBlockId :: bytes
  cgClusterChainId :: string
  cgSignerIndices :: bytes
  cgSignature :: bytes

record AggregatedSignature =
  agVerifierSignatures :: "bytes list"
  agSignerIds :: "bytes list"

record BlockSeal =
  bsBlockId :: bytes
  bsFinalState :: bytes
  bsResultId :: bytes
  bsAggregatedApprovalSigs :: "AggregatedSignature list"

record ExecutionReceiptMeta =
  erExecutorId :: bytes
  erResultId :: bytes
  erSpocks :: "bytes list"
  erExecutorSignature :: bytes

record Chunk =
  ckCollectionIndex :: u32
  ckStartState :: bytes
  ckEventCollection :: bytes
  ckBlockId :: bytes
  ckTotalComputationUsed :: u64
  ckNumberOfTransactions :: u32
  ckIndex :: u64
  ckEndState :: bytes
  ckServiceEventCount :: u32

record ServiceEvent =
  seType :: string
  sePayload :: bytes

record ExecutionResult =
  exPreviousResultId :: bytes
  exBlockId :: bytes
  exChunks :: "Chunk option list"
  exServiceEvents :: "ServiceEvent list"
  exExecutionDataId :: bytes

record Block =
  ebId :: bytes
  ebParentId :: bytes
  ebHeight :: u64
  ebTimestamp :: Timestamp
  ebCollectionGuarantees :: "CollectionGuarantee list"
  ebBlockSeals :: "BlockSeal list"
  ebExecutionReceiptMetaList :: "ExecutionReceiptMeta list"
  ebExecutionResultList :: "ExecutionResult list"
  ebProtocolStateId :: bytes

subsection \<open>What is hashed\<close>

datatype enc =
    EBytes bytes
  | EText string
  | EUint nat
  | EPtr "enc option"
  | EList "enc list"

text \<open>An unsigned integer and a list of fields.\<close>

abbreviation EWord :: "'a::len word \<Rightarrow> enc" where
  "EWord w \<equiv> EUint (unat w)"

record flowTimeoutCertificate =
  ftcView :: u64
  ftcNewestQCViews :: "u64 list"
  ftcNewestQC :: QuorumCertificate
  ftcSignerIndices :: bytes
  ftcSigData :: bytes

record flowHeader =
  fhChainID :: string
  fhHeight :: u64
  fhParentID :: bytes
  fhParentVoterIDs :: "bytes list"
  fhParentVoterIndices :: bytes
  fhParentVoterSigData :: bytes
  fhPayloadHash :: bytes
  fhProposerID :: bytes
  fhProposerSigData :: bytes
  fhTimestamp :: Timestamp
  fhView :: u64
  fhLastViewTC :: "flowTimeoutCertificate option"
  fhParentView :: u64

record flowEvent =
  feEventIndex :: u32
  feEventPayload :: bytes
  feTransactionID :: bytes
  feTransactionIndex :: u32
  feType :: string

record flowChunk =
  fcCollectionIndex :: u64
  fcStartState :: bytes
  fcEventCollection :: bytes
  fcServiceEventCount :: "u16 option"
  fcBlockID :: bytes
  fcTotalComputationUsed :: u64
  fcNumberOfTransactions :: u64
  fcIndex :: u64
  fcEndState :: bytes

text \<open>\<^verbatim>\<open>flow.Chunk\<close> of flow-go, in which the count is not a pointer.\<close>

record goChunk =
  gcCollectionIndex :: u64
  gcStartState :: bytes
  gcEventCollection :: bytes
  gcServiceEventCount :: u16
  gcBlockID :: bytes
  gcTotalComputationUsed :: u64
  gcNumberOfTransactions :: u64
  gcIndex :: u64
  gcEndState :: bytes

record flowExecutionResult =
  frBlockID :: bytes
  frChunks :: "flowChunk list"
  frExecutionDataID :: bytes
  frPreviousResultID :: bytes
  frServiceEvents :: "enc list"

record flowSeal =
  slAggregatedApprovalSigs :: "(bytes list \<times> bytes list) list"
  slBlockID :: bytes
  slFinalState :: bytes
  slResultID :: bytes

record flowReceipt =
  rcExecutorID :: bytes
  rcResultID :: bytes
  rcSpocks :: "bytes list"
  rcExecutorSignature :: bytes

record flowgo =
  fgFingerprint :: "enc \<Rightarrow> bytes"
  fgMakeID :: "enc \<Rightarrow> bytes"
  fgMakeIDFromFingerPrint :: "bytes \<Rightarrow> bytes"
  fgSHA3 :: "bytes \<Rightarrow> bytes"
  fgMerkleTree :: "(bytes \<times> bytes) list \<Rightarrow> bytes option"
  fgMerkleRoot :: "bytes list \<Rightarrow> bytes"
  fgConcatSum :: "bytes list \<Rightarrow> bytes"
  fgQuorumID :: "QuorumCertificate \<Rightarrow> bytes"
  fgTimeoutID :: "flowTimeoutCertificate option \<Rightarrow> bytes"
  fgSealID :: "flowSeal \<Rightarrow> bytes"
  fgReceiptID :: "flowReceipt \<Rightarrow> bytes"
  fgUnsignedReceiptID :: "flowReceipt \<Rightarrow> bytes"
  fgToStateCommitment :: "bytes \<Rightarrow> bytes option"
  fgMessageToIdentifier :: "bytes \<Rightarrow> bytes"
  fgServiceEvent :: "bytes \<Rightarrow> string \<Rightarrow> enc option"
  fgEncodeChunk :: "goChunk \<Rightarrow> enc"

definition unreachable :: "(string, 'a) outcome" where
  "unreachable = Panic ''unreachable code''"

subsection \<open>Identifiers and slices\<close>

definition toFlowIdentifier :: "bytes \<Rightarrow> bytes" where
  "toFlowIdentifier v = pad 32 v"

definition ZeroID :: bytes where
  "ZeroID = replicate 32 0"

definition toIdentifierSlice :: "bytes list \<Rightarrow> bytes list" where
  "toIdentifierSlice v = map (pad 32) v"

definition toSignatureSlice :: "bytes list \<Rightarrow> bytes list" where
  "toSignatureSlice v = map (\<lambda>elem. elem) v"

lemma length_toFlowIdentifier [simp]: "length (toFlowIdentifier v) = 32"
  by (simp add: toFlowIdentifier_def)

subsection \<open>Execution results\<close>

definition serviceEventCount :: "int \<Rightarrow> u32 \<Rightarrow> (string, u16 option) outcome" where
  "serviceEventCount v n =
     (if v = 7 then (if n AND 0xffff0000 > 0 then Ok None else Ok (Some (ucast n)))
      else if v = 8 then (if n > 0xffff then Err ''invalid Service Event Count'' else Ok (Some (ucast n)))
      else Ok None)"

definition convertChunk :: "flowgo \<Rightarrow> int \<Rightarrow> Chunk option \<Rightarrow> (string, flowChunk) outcome" where
  "convertChunk G v ck =
     (case ck of
        None \<Rightarrow> Panic ''nil pointer dereference''
      | Some c \<Rightarrow>
          (case fgToStateCommitment G (ckStartState c) of
             None \<Rightarrow> Err ''failed to parse Message start state to Chunk''
           | Some startState \<Rightarrow>
          (case fgToStateCommitment G (ckEndState c) of
             None \<Rightarrow> Err ''failed to parse Message end state to Chunk''
           | Some endState \<Rightarrow>
               andThen (serviceEventCount v (ckServiceEventCount c)) (\<lambda>count.
               Ok \<lparr>fcCollectionIndex = ucast (ckCollectionIndex c), fcStartState = startState,
                   fcEventCollection = fgMessageToIdentifier G (ckEventCollection c),
                   fcServiceEventCount = count, fcBlockID = fgMessageToIdentifier G (ckBlockId c),
                   fcTotalComputationUsed = ckTotalComputationUsed c,
                   fcNumberOfTransactions = ucast (ckNumberOfTransactions c), fcIndex = ckIndex c,
                   fcEndState = endState\<rparr>))))"

fun mapOutcome :: "('a \<Rightarrow> ('e, 'b) outcome) \<Rightarrow> 'a list \<Rightarrow> ('e, 'b list) outcome" where
  "mapOutcome f [] = Ok []"
| "mapOutcome f (x # xs) = andThen (f x) (\<lambda>y. andThen (mapOutcome f xs) (\<lambda>ys. Ok (y # ys)))"

definition convertServiceEvent :: "flowgo \<Rightarrow> ServiceEvent \<Rightarrow> (string, enc) outcome" where
  "convertServiceEvent G ev =
     (case fgServiceEvent G (sePayload ev) (seType ev) of
        None \<Rightarrow> Err ''Failed to decode service event'' | Some e \<Rightarrow> Ok e)"

text \<open>The second result \<open>false\<close> of the code is an \<open>Err\<close>.\<close>

definition convertExecutionResult :: "flowgo \<Rightarrow> int \<Rightarrow> ExecutionResult \<Rightarrow> (string, flowExecutionResult) outcome" where
  "convertExecutionResult G v result =
     andThen (mapOutcome (convertChunk G v) (exChunks result)) (\<lambda>chunks.
     andThen (mapOutcome (convertServiceEvent G) (exServiceEvents result)) (\<lambda>events.
     Ok \<lparr>frBlockID = toFlowIdentifier (exBlockId result), frChunks = chunks,
         frExecutionDataID = toFlowIdentifier (exExecutionDataId result),
         frPreviousResultID = toFlowIdentifier (exPreviousResultId result),
         frServiceEvents = events\<rparr>))"

definition ChunksToV1 :: "flowChunk list \<Rightarrow> enc list" where
  "ChunksToV1 chunks =
     map (\<lambda>c. EList [EList [EWord (fcCollectionIndex c), EBytes (fcStartState c),
                            EBytes (fcEventCollection c), EBytes (fcBlockID c),
                            EWord (fcTotalComputationUsed c), EWord (fcNumberOfTransactions c)],
                     EWord (fcIndex c), EBytes (fcEndState c)]) chunks"

definition ChunksToV7 :: "flowChunk list \<Rightarrow> enc list" where
  "ChunksToV7 chunks =
     map (\<lambda>c. EList [EList [EWord (fcCollectionIndex c), EBytes (fcStartState c),
                            EBytes (fcEventCollection c),
                            EPtr (map_option EWord (fcServiceEventCount c)), EBytes (fcBlockID c),
                            EWord (fcTotalComputationUsed c), EWord (fcNumberOfTransactions c)],
                     EWord (fcIndex c), EBytes (fcEndState c)]) chunks"

definition ChunksToV8 :: "flowChunk list \<Rightarrow> (string, goChunk list) outcome" where
  "ChunksToV8 chunks =
     mapOutcome (\<lambda>c. case fcServiceEventCount c of
         None \<Rightarrow> Panic ''nil pointer dereference''
       | Some n \<Rightarrow>
           Ok \<lparr>gcCollectionIndex = fcCollectionIndex c, gcStartState = fcStartState c,
               gcEventCollection = fcEventCollection c, gcServiceEventCount = n,
               gcBlockID = fcBlockID c, gcTotalComputationUsed = fcTotalComputationUsed c,
               gcNumberOfTransactions = fcNumberOfTransactions c, gcIndex = fcIndex c,
               gcEndState = fcEndState c\<rparr>) chunks"

definition deriveExecutionResultV1 :: "flowgo \<Rightarrow> flowExecutionResult \<Rightarrow> bytes" where
  "deriveExecutionResultV1 G exec =
     fgMakeID G (EList [EBytes (frPreviousResultID exec), EBytes (frBlockID exec),
                        EList (ChunksToV1 (frChunks exec)), EList (frServiceEvents exec)])"

definition deriveExecutionResultV2 :: "flowgo \<Rightarrow> flowExecutionResult \<Rightarrow> bytes" where
  "deriveExecutionResultV2 G exec =
     fgMakeID G (EList [EBytes (frPreviousResultID exec), EBytes (frBlockID exec),
                        EList (ChunksToV1 (frChunks exec)), EList (frServiceEvents exec),
                        EBytes (frExecutionDataID exec)])"

definition deriveExecutionResultV7 :: "flowgo \<Rightarrow> flowExecutionResult \<Rightarrow> bytes" where
  "deriveExecutionResultV7 G exec =
     (if length (frChunks exec) > 0 \<and> fcServiceEventCount (hd (frChunks exec)) = None
      then deriveExecutionResultV2 G exec
      else fgMakeID G (EList [EBytes (frPreviousResultID exec), EBytes (frBlockID exec),
                              EList (ChunksToV7 (frChunks exec)), EList (frServiceEvents exec),
                              EBytes (frExecutionDataID exec)]))"

definition deriveExecutionResultV8 :: "flowgo \<Rightarrow> flowExecutionResult \<Rightarrow> (string, bytes) outcome" where
  "deriveExecutionResultV8 G exec =
     andThen (ChunksToV8 (frChunks exec)) (\<lambda>chunks.
     Ok (fgMakeID G (EList [EBytes (frPreviousResultID exec), EBytes (frBlockID exec),
                            EList (map (fgEncodeChunk G) chunks), EList (frServiceEvents exec),
                            EBytes (frExecutionDataID exec)])))"

definition deriveExecutionResult :: "flowgo \<Rightarrow> int \<Rightarrow> flowExecutionResult \<Rightarrow> (string, bytes) outcome" where
  "deriveExecutionResult G v exec =
     (if v = 1 then Ok (deriveExecutionResultV1 G exec)
      else if v \<in> {2, 3, 4, 5, 6} then Ok (deriveExecutionResultV2 G exec)
      else if v = 7 then Ok (deriveExecutionResultV7 G exec)
      else if v = 8 then deriveExecutionResultV8 G exec
      else unreachable)"

subsection \<open>Block identifiers\<close>

definition deriveTimeoutCertificateHashV5 :: "flowgo \<Rightarrow> flowTimeoutCertificate option \<Rightarrow> bytes" where
  "deriveTimeoutCertificateHashV5 G tc =
     (case tc of
        None \<Rightarrow> ZeroID
      | Some t \<Rightarrow>
          fgMakeID G (EList [EWord (ftcView t), EList (map EWord (ftcNewestQCViews t)),
                             EBytes (fgQuorumID G (ftcNewestQC t)), EBytes (ftcSignerIndices t),
                             EBytes (ftcSigData t)]))"

text \<open>The struct each version hashes.\<close>

definition headerV1 :: "flowHeader \<Rightarrow> enc" where
  "headerV1 h =
     EList [EText (fhChainID h), EBytes (fhParentID h), EWord (fhHeight h), EBytes (fhPayloadHash h),
            EWord (unixNano (fhTimestamp h)), EWord (fhView h), EList (map EBytes (fhParentVoterIDs h)),
            EBytes (fhParentVoterSigData h), EBytes (fhProposerID h)]"

definition headerV3 :: "flowHeader \<Rightarrow> enc" where
  "headerV3 h =
     EList [EText (fhChainID h), EBytes (fhParentID h), EWord (fhHeight h), EBytes (fhPayloadHash h),
            EWord (unixNano (fhTimestamp h)), EWord (fhView h), EBytes (fhParentVoterIndices h),
            EBytes (fhParentVoterSigData h), EBytes (fhProposerID h)]"

definition headerV5 :: "flowgo \<Rightarrow> flowHeader \<Rightarrow> enc" where
  "headerV5 G h =
     EList [EText (fhChainID h), EBytes (fhParentID h), EWord (fhHeight h), EBytes (fhPayloadHash h),
            EWord (unixNano (fhTimestamp h)), EWord (fhView h), EWord (fhParentView h),
            EBytes (fhParentVoterIndices h), EBytes (fhParentVoterSigData h), EBytes (fhProposerID h),
            EBytes (deriveTimeoutCertificateHashV5 G (fhLastViewTC h))]"

definition headerV8 :: "flowgo \<Rightarrow> flowHeader \<Rightarrow> enc" where
  "headerV8 G h =
     EList [EText (fhChainID h), EBytes (fhParentID h), EWord (fhHeight h), EBytes (fhPayloadHash h),
            EWord (unixMilli (fhTimestamp h)), EWord (fhView h), EWord (fhParentView h),
            EBytes (fhParentVoterIndices h), EBytes (fhParentVoterSigData h), EBytes (fhProposerID h),
            EBytes (fgTimeoutID G (fhLastViewTC h))]"

definition deriveBlockHashV1 :: "flowgo \<Rightarrow> flowHeader \<Rightarrow> bytes" where
  "deriveBlockHashV1 G h = fgMakeID G (headerV1 h)"

definition deriveBlockHashV3 :: "flowgo \<Rightarrow> flowHeader \<Rightarrow> bytes" where
  "deriveBlockHashV3 G h = fgMakeID G (headerV3 h)"

definition deriveBlockHashV5 :: "flowgo \<Rightarrow> flowHeader \<Rightarrow> bytes" where
  "deriveBlockHashV5 G h = fgMakeID G (headerV5 G h)"

definition deriveBlockHashV8 :: "flowgo \<Rightarrow> flowHeader \<Rightarrow> bytes" where
  "deriveBlockHashV8 G h = fgMakeID G (headerV8 G h)"

definition deriveBlockHash :: "flowgo \<Rightarrow> int \<Rightarrow> flowHeader \<Rightarrow> (string, bytes) outcome" where
  "deriveBlockHash G v h =
     (if v \<in> {1, 2} then Ok (deriveBlockHashV1 G h)
      else if v \<in> {3, 4} then Ok (deriveBlockHashV3 G h)
      else if v \<in> {5, 6, 7} then Ok (deriveBlockHashV5 G h)
      else if v = 8 then Ok (deriveBlockHashV8 G h)
      else unreachable)"

subsection \<open>Event hashes\<close>

definition eventV1 :: "flowEvent \<Rightarrow> enc" where
  "eventV1 e =
     EList [EBytes (feTransactionID e), EWord (feEventIndex e), EText (feType e),
            EWord (feTransactionIndex e), EBytes (feEventPayload e)]"

definition eventV8 :: "flowEvent \<Rightarrow> enc" where
  "eventV8 e =
     EList [EText (feType e), EBytes (feTransactionID e), EWord (feTransactionIndex e),
            EWord (feEventIndex e), EBytes (feEventPayload e)]"

definition treeHash :: "flowgo \<Rightarrow> (bytes \<times> bytes) list \<Rightarrow> (string, bytes) outcome" where
  "treeHash G puts =
     (case fgMerkleTree G puts of
        None \<Rightarrow> Fatal ''Failed to put event into the merkle tree'' | Some root \<Rightarrow> Ok (pad 32 root))"

definition deriveEventsHashV1 :: "flowgo \<Rightarrow> flowEvent list \<Rightarrow> bytes" where
  "deriveEventsHashV1 G events =
     toFlowIdentifier (fgSHA3 G (concat (map (\<lambda>e. fgFingerprint G (eventV1 e)) events)))"

definition deriveEventsHashV2 :: "flowgo \<Rightarrow> flowEvent list \<Rightarrow> (string, bytes) outcome" where
  "deriveEventsHashV2 G events =
     treeHash G (map (\<lambda>e. let fp = fgFingerprint G (eventV1 e) in (fgMakeID G (EBytes fp), fp)) events)"

definition deriveEventsHashV4 :: "flowgo \<Rightarrow> flowEvent list \<Rightarrow> (string, bytes) outcome" where
  "deriveEventsHashV4 G events =
     treeHash G (map (\<lambda>e. let fp = fgFingerprint G (eventV1 e) in (fgMakeIDFromFingerPrint G fp, fp)) events)"

definition deriveEventsHashV8 :: "flowgo \<Rightarrow> flowEvent list \<Rightarrow> (string, bytes) outcome" where
  "deriveEventsHashV8 G events =
     treeHash G (map (\<lambda>e. let fp = fgFingerprint G (eventV8 e) in (fgMakeIDFromFingerPrint G fp, fp)) events)"

definition deriveEventsHash :: "flowgo \<Rightarrow> int \<Rightarrow> flowEvent list \<Rightarrow> (string, bytes) outcome" where
  "deriveEventsHash G v events =
     (if v = 1 then Ok (deriveEventsHashV1 G events)
      else if v \<in> {2, 3} then deriveEventsHashV2 G events
      else if v \<in> {4, 5, 6, 7} then deriveEventsHashV4 G events
      else if v = 8 then deriveEventsHashV8 G events
      else unreachable)"

subsection \<open>The block check\<close>

definition deriveExecutionReceiptHash :: "flowgo \<Rightarrow> int \<Rightarrow> flowReceipt \<Rightarrow> (string, bytes) outcome" where
  "deriveExecutionReceiptHash G v receipt =
     (if v \<in> {1, 2, 3, 4, 5, 6, 7} then Ok (fgUnsignedReceiptID G receipt)
      else if v = 8 then Ok (fgReceiptID G receipt)
      else unreachable)"

definition deriveCollectionGuaranteeID :: "flowgo \<Rightarrow> int \<Rightarrow> CollectionGuarantee \<Rightarrow> (string, bytes) outcome" where
  "deriveCollectionGuaranteeID G v g =
     (if v \<in> {1, 2, 3, 4, 5, 6, 7} then Ok (toFlowIdentifier (cgCollectionId g))
      else if v = 8 then
        Ok (fgMakeID G (EList [EBytes (toFlowIdentifier (cgCollectionId g)),
                               EBytes (toFlowIdentifier (cgReferenceBlockId g)),
                               EText (cgClusterChainId g), EBytes (cgSignerIndices g),
                               EBytes (cgSignature g)]))
      else unreachable)"

definition derivePayloadHashV1 :: "flowgo \<Rightarrow> bytes \<Rightarrow> bytes \<Rightarrow> bytes \<Rightarrow> bytes \<Rightarrow> bytes" where
  "derivePayloadHashV1 G collectionHash sealHash receiptHash resultHash =
     fgConcatSum G [collectionHash, sealHash, receiptHash, resultHash]"

definition derivePayloadHashV7 :: "flowgo \<Rightarrow> bytes \<Rightarrow> bytes \<Rightarrow> bytes \<Rightarrow> bytes \<Rightarrow> bytes \<Rightarrow> bytes" where
  "derivePayloadHashV7 G collectionHash sealHash receiptHash resultHash protocolStateId =
     fgConcatSum G [collectionHash, sealHash, receiptHash, resultHash, protocolStateId]"

definition derivePayloadHash ::
  "flowgo \<Rightarrow> int \<Rightarrow> bytes \<Rightarrow> bytes \<Rightarrow> bytes \<Rightarrow> bytes \<Rightarrow> bytes \<Rightarrow> (string, bytes) outcome" where
  "derivePayloadHash G v collectionHash sealHash receiptHash resultHash protocolStateId =
     (if v \<in> {1, 2, 3, 4, 5, 6} then Ok (derivePayloadHashV1 G collectionHash sealHash receiptHash resultHash)
      else if v \<in> {7, 8} then
        Ok (derivePayloadHashV7 G collectionHash sealHash receiptHash resultHash protocolStateId)
      else unreachable)"

text \<open>The header that is hashed; a timeout certificate without its newest certificate is refused.\<close>

definition toLastViewTC :: "TimeoutCertificate option \<Rightarrow> (string, flowTimeoutCertificate option) outcome" where
  "toLastViewTC tc =
     (case tc of
        None \<Rightarrow> Ok None
      | Some t \<Rightarrow>
          (case tcHighestQc t of
             None \<Rightarrow> Err ''invalid structure newest QC should be present''
           | Some q \<Rightarrow>
               Ok (Some \<lparr>ftcView = tcView t, ftcNewestQCViews = tcHighQcViews t,
                         ftcNewestQC = q\<lparr>qcBlockId := toFlowIdentifier (qcBlockId q)\<rparr>,
                         ftcSignerIndices = tcSignerIndices t, ftcSigData = tcSigData t\<rparr>)))"

definition toFlowHeader :: "string \<Rightarrow> BlockHeader \<Rightarrow> flowTimeoutCertificate option \<Rightarrow> flowHeader" where
  "toFlowHeader network hdr tc =
     \<lparr>fhChainID = ''flow-'' @ network, fhHeight = bhHeight hdr,
      fhParentID = toFlowIdentifier (bhParentId hdr),
      fhParentVoterIDs = toIdentifierSlice (bhParentVoterIds hdr),
      fhParentVoterIndices = bhParentVoterIndices hdr, fhParentVoterSigData = bhParentVoterSigData hdr,
      fhPayloadHash = toFlowIdentifier (bhPayloadHash hdr),
      fhProposerID = toFlowIdentifier (bhProposerId hdr), fhProposerSigData = bhProposerSigData hdr,
      fhTimestamp = bhTimestamp hdr, fhView = bhView hdr, fhLastViewTC = tc,
      fhParentView = bhParentView hdr\<rparr>"

definition toSeal :: "BlockSeal \<Rightarrow> flowSeal" where
  "toSeal s =
     \<lparr>slAggregatedApprovalSigs =
        map (\<lambda>sig. (toIdentifierSlice (agSignerIds sig), toSignatureSlice (agVerifierSignatures sig)))
          (bsAggregatedApprovalSigs s),
      slBlockID = toFlowIdentifier (bsBlockId s), slFinalState = toFlowIdentifier (bsFinalState s),
      slResultID = toFlowIdentifier (bsResultId s)\<rparr>"

definition toReceipt :: "ExecutionReceiptMeta \<Rightarrow> flowReceipt" where
  "toReceipt r =
     \<lparr>rcExecutorID = toFlowIdentifier (erExecutorId r), rcResultID = toFlowIdentifier (erResultId r),
      rcSpocks = toSignatureSlice (erSpocks r), rcExecutorSignature = erExecutorSignature r\<rparr>"

definition blockPayloadHash :: "flowgo \<Rightarrow> int \<Rightarrow> Block \<Rightarrow> (string, bytes) outcome" where
  "blockPayloadHash G v block =
     andThen (mapOutcome (deriveCollectionGuaranteeID G v) (ebCollectionGuarantees block)) (\<lambda>guaranteeIDs.
     andThen (mapOutcome (\<lambda>r. deriveExecutionReceiptHash G v (toReceipt r))
                (ebExecutionReceiptMetaList block)) (\<lambda>receiptIDs.
     andThen (mapOutcome (\<lambda>r. andThen (convertExecutionResult G v r) (deriveExecutionResult G v))
                (ebExecutionResultList block)) (\<lambda>resultIDs.
     derivePayloadHash G v (fgMerkleRoot G guaranteeIDs)
       (fgMerkleRoot G (map (\<lambda>s. fgSealID G (toSeal s)) (ebBlockSeals block)))
       (fgMerkleRoot G receiptIDs) (fgMerkleRoot G resultIDs)
       (toFlowIdentifier (ebProtocolStateId block)))))"

text \<open>The answer \<open>false\<close>, with the logged reason, is an \<open>Err\<close>.\<close>

definition verifyBlockHash :: "flowgo \<Rightarrow> Spork \<Rightarrow> bytes \<Rightarrow> BlockHeader \<Rightarrow> Block \<Rightarrow> (string, unit) outcome" where
  "verifyBlockHash G spork hash hdr block =
     andThen (toLastViewTC (bhLastViewTc hdr)) (\<lambda>tc.
     let xhdr = toFlowHeader (spNetwork spork) hdr tc in
     andThen (deriveBlockHash G (spVersion spork) xhdr) (\<lambda>blockID.
     if blockID \<noteq> hash then Err ''Mismatching block ID from header''
     else
     andThen (blockPayloadHash G (spVersion spork) block) (\<lambda>payloadHash.
     if payloadHash \<noteq> fhPayloadHash xhdr then Err ''Mismatching payload hash'' else Ok ())))"

subsection \<open>Totality on the versions of a validated spork\<close>

lemma mapOutcome_Ok:
  "mapOutcome f xs = Ok ys \<longleftrightarrow> length ys = length xs \<and> (\<forall>k < length xs. f (xs ! k) = Ok (ys ! k))"
proof (induction xs arbitrary: ys)
  case (Cons x xs)
  show ?case
    by (cases ys) (auto simp: Cons.IH less_Suc_eq_0_disj)
qed auto

lemma mapOutcome_total:
  "(\<And>x. x \<in> set xs \<Longrightarrow> \<exists>y. f x = Ok y) \<Longrightarrow> \<exists>ys. mapOutcome f xs = Ok ys"
proof (induction xs)
  case (Cons x xs)
  then obtain y ys where "f x = Ok y" "mapOutcome f xs = Ok ys" by force
  then show ?case by simp
qed simp

lemma mapOutcome_cong [fundef_cong]:
  "xs = ys \<Longrightarrow> (\<And>x. x \<in> set ys \<Longrightarrow> f x = g x) \<Longrightarrow> mapOutcome f xs = mapOutcome g ys"
proof (induction xs arbitrary: ys)
  case (Cons x xs)
  then show ?case by (cases ys) auto
qed auto

text \<open>An outcome that is a value or a reported failure: no panic and no exit of the process.\<close>

fun settled :: "('e, 'a) outcome \<Rightarrow> bool" where
  "settled (Ok x) = True"
| "settled (Err e) = True"
| "settled _ = False"

lemma settled_andThen:
  "settled m \<Longrightarrow> (\<And>x. m = Ok x \<Longrightarrow> settled (f x)) \<Longrightarrow> settled (andThen m f)"
  by (cases m) auto

lemma settled_mapOutcome:
  "(\<And>x. x \<in> set xs \<Longrightarrow> settled (f x)) \<Longrightarrow> settled (mapOutcome f xs)"
  by (induction xs) (auto intro!: settled_andThen)

lemma version_cases: "1 \<le> v \<Longrightarrow> v \<le> 8 \<Longrightarrow> v \<in> {1, 2, 3, 4, 5, 6, 7, 8 :: int}"
  by auto

lemma convertChunk_count:
  "convertChunk G 8 ck = Ok c \<Longrightarrow> fcServiceEventCount c \<noteq> None"
  by (auto simp: convertChunk_def serviceEventCount_def split: option.splits if_splits)

lemma convertExecutionResult_count:
  assumes "convertExecutionResult G 8 r = Ok exec" and "c \<in> set (frChunks exec)"
  shows "fcServiceEventCount c \<noteq> None"
proof -
  from assms(1) have "mapOutcome (convertChunk G 8) (exChunks r) = Ok (frChunks exec)"
    by (auto simp: convertExecutionResult_def)
  with assms(2) obtain k where "convertChunk G 8 (exChunks r ! k) = Ok c"
    by (auto simp: mapOutcome_Ok in_set_conv_nth)
  then show ?thesis by (rule convertChunk_count)
qed

lemma ChunksToV8_total:
  assumes "\<forall>c \<in> set cs. fcServiceEventCount c \<noteq> None"
  shows "\<exists>ds. ChunksToV8 cs = Ok ds"
  unfolding ChunksToV8_def using assms by (intro mapOutcome_total) auto

lemma deriveExecutionResult_total:
  assumes "1 \<le> v" "v \<le> 8" and "convertExecutionResult G v r = Ok exec"
  shows "\<exists>i. deriveExecutionResult G v exec = Ok i"
proof (cases "v = 8")
  case True
  then have "\<exists>ds. ChunksToV8 (frChunks exec) = Ok ds"
    using ChunksToV8_total convertExecutionResult_count assms(3) by metis
  with True show ?thesis by (auto simp: deriveExecutionResult_def deriveExecutionResultV8_def)
next
  case False
  with assms(1,2) version_cases [of v] show ?thesis by (auto simp: deriveExecutionResult_def)
qed

lemma settled_convertExecutionResult:
  assumes "\<forall>c \<in> set (exChunks r). c \<noteq> None"
  shows "settled (convertExecutionResult G v r)"
proof -
  have "settled (convertChunk G v c)" if "c \<in> set (exChunks r)" for c
    using assms that
    by (auto simp: convertChunk_def serviceEventCount_def split: option.splits)
  moreover have "settled (convertServiceEvent G e)" for e
    by (simp add: convertServiceEvent_def split: option.splits)
  ultimately show ?thesis
    by (auto simp: convertExecutionResult_def intro!: settled_andThen settled_mapOutcome)
qed

lemma settled_by_version:
  assumes "1 \<le> v" "v \<le> 8"
  shows "settled (deriveBlockHash G v h)"
    and "settled (deriveCollectionGuaranteeID G v g)"
    and "settled (deriveExecutionReceiptHash G v t)"
    and "settled (derivePayloadHash G v a b c d e)"
  using version_cases [OF assms]
  by (auto simp: deriveBlockHash_def deriveCollectionGuaranteeID_def deriveExecutionReceiptHash_def
      derivePayloadHash_def)

lemma settled_verifyBlockHash:
  assumes v: "1 \<le> spVersion sp" "spVersion sp \<le> 8"
    and chunks: "\<forall>r \<in> set (ebExecutionResultList blk). \<forall>c \<in> set (exChunks r). c \<noteq> None"
  shows "settled (verifyBlockHash G sp hash hdr blk)"
proof -
  have "settled (convertExecutionResult G (spVersion sp) r)" if "r \<in> set (ebExecutionResultList blk)" for r
    using chunks that by (intro settled_convertExecutionResult) auto
  moreover have "settled (deriveExecutionResult G (spVersion sp) e)"
    if "convertExecutionResult G (spVersion sp) r = Ok e" for r e
    using deriveExecutionResult_total [OF v that] by auto
  ultimately have "settled (blockPayloadHash G (spVersion sp) blk)"
    unfolding blockPayloadHash_def
    by (intro settled_andThen settled_mapOutcome settled_by_version v) auto
  moreover have "settled (toLastViewTC tc)" for tc
    by (simp add: toLastViewTC_def split: option.splits)
  ultimately show ?thesis
    unfolding verifyBlockHash_def Let_def
    by (intro settled_andThen settled_by_version v) (auto intro!: settled_andThen)
qed

text \<open>
  On the spork versions that the configuration admits, the block check always ends with an
  answer: none of the \<^verbatim>\<open>panic("unreachable code")\<close> branches is reached, and the dereference
  of the service event count in version 8 never meets a nil pointer, because \<^verbatim>\<open>convertChunk\<close>
  fills it in for that version. The only condition is that no chunk of the block is a nil pointer.
\<close>

theorem verify_block_hash_settles:
  assumes "usable sp"
    and "\<forall>r \<in> set (ebExecutionResultList blk). \<forall>c \<in> set (exChunks r). c \<noteq> None"
  shows "settled (verifyBlockHash G sp hash hdr blk)"
  using assms settled_verifyBlockHash by (simp add: usable_def)

subsection \<open>Version 7 without service event counts\<close>

lemma convertChunk_legacy:
  "ck = Some c \<Longrightarrow> ckServiceEventCount c AND 0xffff0000 > 0 \<Longrightarrow> convertChunk G 7 ck = convertChunk G 6 ck"
proof -
  assume ck: "ck = Some c" and n: "ckServiceEventCount c AND 0xffff0000 > 0"
  then have "serviceEventCount 7 (ckServiceEventCount c) = serviceEventCount 6 (ckServiceEventCount c)"
    by (simp add: serviceEventCount_def)
  then show ?thesis by (simp add: convertChunk_def ck split: option.split)
qed

lemma convertChunk_none:
  "convertChunk G 6 ck = Ok c \<Longrightarrow> fcServiceEventCount c = None"
  by (auto simp: convertChunk_def serviceEventCount_def split: option.splits)

lemma deriveV7_legacy:
  assumes "\<forall>c \<in> set (frChunks exec). fcServiceEventCount c = None"
  shows "deriveExecutionResultV7 G exec = deriveExecutionResultV2 G exec"
  using assms
  by (cases "frChunks exec")
    (auto simp: deriveExecutionResultV7_def deriveExecutionResultV2_def ChunksToV7_def ChunksToV1_def)

text \<open>
  A spork of version 7 whose chunks encode a nil service event count with a high-order bit
  derives exactly the result identifiers of version 6, on every such execution result, the one
  without chunks and the ones that do not convert included.
\<close>

theorem version7_legacy_results:
  assumes "\<forall>ck \<in> set (exChunks r). \<exists>c. ck = Some c \<and> ckServiceEventCount c AND 0xffff0000 > 0"
  shows "andThen (convertExecutionResult G 7 r) (deriveExecutionResult G 7) =
         andThen (convertExecutionResult G 6 r) (deriveExecutionResult G 6)"
proof -
  have "mapOutcome (convertChunk G 7) (exChunks r) = mapOutcome (convertChunk G 6) (exChunks r)"
    using assms convertChunk_legacy by (metis (mono_tags, lifting) mapOutcome_cong)
  then have same: "convertExecutionResult G 7 r = convertExecutionResult G 6 r"
    by (simp add: convertExecutionResult_def)
  have "deriveExecutionResult G 7 exec = deriveExecutionResult G 6 exec"
    if "convertExecutionResult G 6 r = Ok exec" for exec
  proof -
    from that have "mapOutcome (convertChunk G 6) (exChunks r) = Ok (frChunks exec)"
      by (auto simp: convertExecutionResult_def)
    then have "\<forall>c \<in> set (frChunks exec). fcServiceEventCount c = None"
      by (auto simp: mapOutcome_Ok in_set_conv_nth dest!: convertChunk_none)
    then show ?thesis by (simp add: deriveExecutionResult_def deriveV7_legacy)
  qed
  then show ?thesis by (cases "convertExecutionResult G 6 r") (simp_all add: same)
qed

subsection \<open>What an accepted block hash commits to\<close>

text \<open>The struct the header is hashed as, the four or five parts of the payload, and the seals.\<close>

definition headerStruct :: "flowgo \<Rightarrow> Spork \<Rightarrow> BlockHeader \<Rightarrow> (string, enc) outcome" where
  "headerStruct G sp hdr =
     andThen (toLastViewTC (bhLastViewTc hdr)) (\<lambda>tc.
     let h = toFlowHeader (spNetwork sp) hdr tc; v = spVersion sp in
     if v \<in> {1, 2} then Ok (headerV1 h)
     else if v \<in> {3, 4} then Ok (headerV3 h)
     else if v \<in> {5, 6, 7} then Ok (headerV5 G h)
     else if v = 8 then Ok (headerV8 G h)
     else unreachable)"

definition sealIDs :: "flowgo \<Rightarrow> Block \<Rightarrow> bytes list" where
  "sealIDs G blk = map (\<lambda>s. fgSealID G (toSeal s)) (ebBlockSeals blk)"

definition payloadParts :: "flowgo \<Rightarrow> int \<Rightarrow> Block \<Rightarrow> (string, bytes list) outcome" where
  "payloadParts G v block =
     andThen (mapOutcome (deriveCollectionGuaranteeID G v) (ebCollectionGuarantees block)) (\<lambda>gs.
     andThen (mapOutcome (\<lambda>r. deriveExecutionReceiptHash G v (toReceipt r))
                (ebExecutionReceiptMetaList block)) (\<lambda>cs.
     andThen (mapOutcome (\<lambda>r. andThen (convertExecutionResult G v r) (deriveExecutionResult G v))
                (ebExecutionResultList block)) (\<lambda>rs.
     Ok ([fgMerkleRoot G gs, fgMerkleRoot G (sealIDs G block), fgMerkleRoot G cs, fgMerkleRoot G rs] @
         (if v \<in> {7, 8} then [toFlowIdentifier (ebProtocolStateId block)] else [])))))"

lemma verifyBlockHash_Ok:
  assumes "verifyBlockHash G sp hash hdr blk = Ok ()"
  shows "\<exists>x ps. headerStruct G sp hdr = Ok x \<and> fgMakeID G x = hash \<and>
           payloadParts G (spVersion sp) blk = Ok ps \<and>
           fgConcatSum G ps = toFlowIdentifier (bhPayloadHash hdr)"
proof -
  from assms obtain tc where tc: "toLastViewTC (bhLastViewTc hdr) = Ok tc"
    by (auto simp: verifyBlockHash_def)
  define h where "h = toFlowHeader (spNetwork sp) hdr tc"
  from assms have b: "deriveBlockHash G (spVersion sp) h = Ok hash"
    and p: "blockPayloadHash G (spVersion sp) blk = Ok (toFlowIdentifier (bhPayloadHash hdr))"
    by (auto simp: verifyBlockHash_def tc h_def toFlowHeader_def Let_def split: if_splits)
  from b have "\<exists>x. headerStruct G sp hdr = Ok x \<and> fgMakeID G x = hash"
    by (auto simp: headerStruct_def tc h_def [symmetric] Let_def deriveBlockHash_def deriveBlockHashV1_def
        deriveBlockHashV3_def deriveBlockHashV5_def deriveBlockHashV8_def unreachable_def split: if_splits)
  moreover from p have "\<exists>ps. payloadParts G (spVersion sp) blk = Ok ps \<and>
      fgConcatSum G ps = toFlowIdentifier (bhPayloadHash hdr)"
    by (auto simp: blockPayloadHash_def payloadParts_def sealIDs_def derivePayloadHash_def
        derivePayloadHashV1_def derivePayloadHashV7_def unreachable_def split: if_splits)
  ultimately show ?thesis by blast
qed

lemma headerStruct_commits:
  assumes "headerStruct G sp hdr = Ok x" and "headerStruct G sp hdr' = Ok x"
  shows "toFlowIdentifier (bhParentId hdr) = toFlowIdentifier (bhParentId hdr') \<and>
         bhHeight hdr = bhHeight hdr' \<and>
         toFlowIdentifier (bhPayloadHash hdr) = toFlowIdentifier (bhPayloadHash hdr')"
  using assms
  by (auto simp: headerStruct_def Let_def headerV1_def headerV3_def headerV5_def headerV8_def
      toFlowHeader_def unreachable_def word_unat_eq_iff split: if_splits)

lemma payloadParts_seals:
  assumes "payloadParts G v blk = Ok ps" and "payloadParts G v blk' = Ok ps"
  shows "fgMerkleRoot G (sealIDs G blk) = fgMerkleRoot G (sealIDs G blk')"
  using assms by (auto simp: payloadParts_def)

lemma seals_of_ids:
  "map (\<lambda>s. f (c s)) xs = map (\<lambda>s. f (c s)) ys \<Longrightarrow>
   (\<exists>a \<in> set xs. \<exists>b \<in> set ys. c a \<noteq> c b \<and> f (c a) = f (c b)) \<or> map c xs = map c ys"
proof (induction xs arbitrary: ys)
  case (Cons x xs)
  then obtain y zs where "ys = y # zs" "f (c x) = f (c y)" "map (\<lambda>s. f (c s)) xs = map (\<lambda>s. f (c s)) zs"
    by (cases ys) auto
  with Cons.IH [of zs] show ?case by auto
qed simp

text \<open>
  C26. Two answers of Access API servers that the block check accepts for the same block hash agree
  on the parent identifier in the header (as the check reads it, padded to 32 bytes), on the height in the header and on
  the seals of the block, as they are converted for hashing, with their block and result identifiers. Otherwise there is a
  collision: the two headers one of \<^verbatim>\<open>flow.MakeID\<close>, the two payloads one of \<^verbatim>\<open>flow.ConcatSum\<close>, the two lists of
  seal identifiers one of \<^verbatim>\<open>flow.MerkleRoot\<close>, or two seals one of \<^verbatim>\<open>Seal.ID\<close>. The parent field of the block
  message, beside the header, is not bound.
\<close>

theorem verified_block_binding:
  assumes "verifyBlockHash G sp hash hdr blk = Ok ()" and "verifyBlockHash G sp hash hdr' blk' = Ok ()"
  shows "\<exists>x y ps qs. headerStruct G sp hdr = Ok x \<and> headerStruct G sp hdr' = Ok y \<and>
           payloadParts G (spVersion sp) blk = Ok ps \<and> payloadParts G (spVersion sp) blk' = Ok qs \<and>
           (x \<noteq> y \<and> fgMakeID G x = fgMakeID G y \<or>
            ps \<noteq> qs \<and> fgConcatSum G ps = fgConcatSum G qs \<or>
            sealIDs G blk \<noteq> sealIDs G blk' \<and>
              fgMerkleRoot G (sealIDs G blk) = fgMerkleRoot G (sealIDs G blk') \<or>
            (\<exists>a \<in> set (ebBlockSeals blk). \<exists>b \<in> set (ebBlockSeals blk').
               toSeal a \<noteq> toSeal b \<and> fgSealID G (toSeal a) = fgSealID G (toSeal b)) \<or>
            toFlowIdentifier (bhParentId hdr) = toFlowIdentifier (bhParentId hdr') \<and>
              bhHeight hdr = bhHeight hdr' \<and>
              map toSeal (ebBlockSeals blk) = map toSeal (ebBlockSeals blk'))"
proof -
  obtain x ps where x: "headerStruct G sp hdr = Ok x" "fgMakeID G x = hash"
      "payloadParts G (spVersion sp) blk = Ok ps" "fgConcatSum G ps = toFlowIdentifier (bhPayloadHash hdr)"
    using verifyBlockHash_Ok [OF assms(1)] by blast
  obtain y qs where y: "headerStruct G sp hdr' = Ok y" "fgMakeID G y = hash"
      "payloadParts G (spVersion sp) blk' = Ok qs" "fgConcatSum G qs = toFlowIdentifier (bhPayloadHash hdr')"
    using verifyBlockHash_Ok [OF assms(2)] by blast
  have seals: "(\<exists>a \<in> set (ebBlockSeals blk). \<exists>b \<in> set (ebBlockSeals blk').
      toSeal a \<noteq> toSeal b \<and> fgSealID G (toSeal a) = fgSealID G (toSeal b)) \<or>
      map toSeal (ebBlockSeals blk) = map toSeal (ebBlockSeals blk')" if "sealIDs G blk = sealIDs G blk'"
    using that seals_of_ids [of "fgSealID G" toSeal] unfolding sealIDs_def by blast
  show ?thesis
  proof (cases "x = y \<and> ps = qs")
    case True
    then have root: "fgMerkleRoot G (sealIDs G blk) = fgMerkleRoot G (sealIDs G blk')"
        and hdr: "toFlowIdentifier (bhParentId hdr) = toFlowIdentifier (bhParentId hdr')" "bhHeight hdr = bhHeight hdr'"
      using x y headerStruct_commits [of G sp hdr x hdr'] payloadParts_seals [of G _ blk ps blk'] by auto
    from root hdr seals show ?thesis using x(1,3) y(1,3) by blast
  next
    case False
    then show ?thesis using x y headerStruct_commits [of G sp hdr x hdr'] by metis
  qed
qed

subsection \<open>Concrete instances\<close>

text \<open>
  A small stand-in for flow-go: an identifier is the length of what is hashed and the bytes of its
  first fields, cut to 32 bytes.
\<close>

fun toyBytes :: "enc \<Rightarrow> bytes" where
  "toyBytes (EBytes bs) = takeWhile (\<lambda>b. b \<noteq> 0) bs"
| "toyBytes (EText s) = [of_nat (length s)]"
| "toyBytes (EUint n) = [of_nat n]"
| "toyBytes (EPtr p) = (case p of None \<Rightarrow> [] | Some e \<Rightarrow> toyBytes e)"
| "toyBytes (EList es) = concat (map toyBytes es)"

definition sampleGo :: flowgo where
  "sampleGo =
     \<lparr>fgFingerprint = toyBytes, fgMakeID = (\<lambda>e. pad 32 (toyBytes e)),
      fgMakeIDFromFingerPrint = pad 32, fgSHA3 = pad 32,
      fgMerkleTree = (\<lambda>ps. Some (concat (map snd ps))), fgMerkleRoot = (\<lambda>is. pad 32 (concat (map (take 2) is))),
      fgConcatSum = (\<lambda>is. pad 32 (concat (map (take 4) is))), fgQuorumID = qcBlockId,
      fgTimeoutID = (\<lambda>_. ZeroID), fgSealID = (\<lambda>s. slBlockID s), fgReceiptID = rcResultID,
      fgUnsignedReceiptID = rcResultID, fgToStateCommitment = (\<lambda>b. Some (pad 32 b)),
      fgMessageToIdentifier = pad 32, fgServiceEvent = (\<lambda>p t. None),
      fgEncodeChunk = (\<lambda>c. EList [EWord (gcIndex c), EWord (gcServiceEventCount c)])\<rparr>"

definition sampleChunk :: "u32 \<Rightarrow> Chunk" where
  "sampleChunk n =
     \<lparr>ckCollectionIndex = 0, ckStartState = [1], ckEventCollection = [2], ckBlockId = [3],
      ckTotalComputationUsed = 4, ckNumberOfTransactions = 1, ckIndex = 0, ckEndState = [5],
      ckServiceEventCount = n\<rparr>"

definition sampleResult :: "u32 \<Rightarrow> ExecutionResult" where
  "sampleResult n =
     \<lparr>exPreviousResultId = [6], exBlockId = [3], exChunks = [Some (sampleChunk n)],
      exServiceEvents = [], exExecutionDataId = [7]\<rparr>"

definition sampleBlock :: Block where
  "sampleBlock =
     \<lparr>ebId = pad 32 [13, 9, 20, 9, 9, 1, 3], ebParentId = pad 32 [9], ebHeight = 20,
      ebTimestamp = \<lparr>tsSeconds = 0, tsNanos = 1000000\<rparr>, ebCollectionGuarantees = [],
      ebBlockSeals = [\<lparr>bsBlockId = [9], bsFinalState = [5], bsResultId = [8],
                       bsAggregatedApprovalSigs = []\<rparr>],
      ebExecutionReceiptMetaList = [], ebExecutionResultList = [sampleResult 1],
      ebProtocolStateId = [4]\<rparr>"

definition sampleHeader :: BlockHeader where
  "sampleHeader =
     \<lparr>bhId = [], bhParentId = [9], bhHeight = 20, bhTimestamp = \<lparr>tsSeconds = 0, tsNanos = 1000000\<rparr>,
      bhPayloadHash = pad 32 ([0, 0, 0, 0, 9, 0, 0, 0, 0, 0, 0, 0, 6, 3, 0, 0, 4]), bhView = 3, bhParentView = 2,
      bhParentVoterIds = [], bhParentVoterIndices = [], bhParentVoterSigData = [], bhProposerId = [1],
      bhProposerSigData = [], bhLastViewTc = None\<rparr>"

definition sampleSpork :: Spork where
  "sampleSpork = chSporks sampleChain ! 1"

definition sampleHash :: bytes where
  "sampleHash = (case headerStruct sampleGo sampleSpork sampleHeader of Ok e \<Rightarrow> fgMakeID sampleGo e | _ \<Rightarrow> [])"

lemma sampleSpork_usable: "usable sampleSpork"
  by code_simp

lemma sample_verified: "verifyBlockHash sampleGo sampleSpork sampleHash sampleHeader sampleBlock = Ok ()"
  by code_simp

theorem verify_block_hash_settles_witness:
  "usable sampleSpork \<and> settled (verifyBlockHash sampleGo sampleSpork [] sampleHeader sampleBlock)"
  using verify_block_hash_settles [OF sampleSpork_usable, of sampleBlock sampleGo "[]" sampleHeader]
    sampleSpork_usable
  by (simp add: sampleBlock_def sampleResult_def)

theorem version7_legacy_results_witness:
  "andThen (convertExecutionResult sampleGo 7 (sampleResult 0x10000)) (deriveExecutionResult sampleGo 7) =
   andThen (convertExecutionResult sampleGo 6 (sampleResult 0x10000)) (deriveExecutionResult sampleGo 6)"
  by (rule version7_legacy_results) (simp add: sampleResult_def sampleChunk_def)

theorem verified_block_binding_witness:
  "\<exists>x y ps qs. headerStruct sampleGo sampleSpork sampleHeader = Ok x \<and>
     headerStruct sampleGo sampleSpork (sampleHeader\<lparr>bhId := sampleHash\<rparr>) = Ok y \<and>
     payloadParts sampleGo (spVersion sampleSpork) sampleBlock = Ok ps \<and>
     payloadParts sampleGo (spVersion sampleSpork) sampleBlock = Ok qs \<and>
     x = y \<and> ps = qs"
proof -
  have "verifyBlockHash sampleGo sampleSpork sampleHash (sampleHeader\<lparr>bhId := sampleHash\<rparr>) sampleBlock = Ok ()"
    by code_simp
  from verified_block_binding [OF sample_verified this] obtain x y ps where
    "headerStruct sampleGo sampleSpork sampleHeader = Ok x"
    "headerStruct sampleGo sampleSpork (sampleHeader\<lparr>bhId := sampleHash\<rparr>) = Ok y"
    "payloadParts sampleGo (spVersion sampleSpork) sampleBlock = Ok ps"
    by blast
  moreover have "headerStruct sampleGo sampleSpork (sampleHeader\<lparr>bhId := sampleHash\<rparr>) =
      headerStruct sampleGo sampleSpork sampleHeader"
    by (simp add: headerStruct_def toFlowHeader_def)
  ultimately show ?thesis by simp
qed

end
