(* ===== verification/Process.thy ===== *)
theory Process
  imports Convert Reconcile
begin

section \<open>Package state: processing a block\<close>

text \<open>
  The method \<^verbatim>\<open>processBlock\<close> of \<^verbatim>\<open>state/process.go\<close>, around the per-transaction
  part of \<open>Events\<close>. The Access API is a record of functions of the time: time is the number of calls
  made so far, so that an answer, an error and the random choice of a server may differ from one call
  to the next. The boolean argument of a call says that the cache is bypassed. Every retry loop of
  the code has fuel; running out of it is the error \<open>OutOfFuel\<close>, and the theorems on progress say when
  the fuel is enough. \<open>Stopped\<close> is the return on a cancelled context
  or call (with the time), \<open>Again\<close> the jump to the next
  attempt with its loop variables. Sleeping, logging and tracing have no effect on the result.
\<close>

subsection \<open>The Access API\<close>

datatype code = Canceled | InvalidArgument | NotFound | Internal | ResourceExhausted | Unimplemented | OtherCode

record grpcError =
  geCode :: code
  geMessage :: string

record access =
  acDone :: "nat \<Rightarrow> bool"
  acBlockByHeight :: "nat \<Rightarrow> bool \<Rightarrow> u64 \<Rightarrow> (grpcError, Block) sum"
  acBlockHeaderByHeight :: "nat \<Rightarrow> bool \<Rightarrow> u64 \<Rightarrow> (grpcError, BlockHeader) sum"
  acTransactionsByBlockID :: "nat \<Rightarrow> bool \<Rightarrow> bytes \<Rightarrow> (grpcError, Transaction list) sum"
  acTransactionResultsByBlockID :: "nat \<Rightarrow> bool \<Rightarrow> bytes \<Rightarrow> (grpcError, TransactionResult list) sum"
  acCollectionByID :: "nat \<Rightarrow> bool \<Rightarrow> bytes \<Rightarrow> (grpcError, bytes list) sum"
  acTransaction :: "nat \<Rightarrow> bool \<Rightarrow> bytes \<Rightarrow> (grpcError, Transaction) sum"
  acTransactionResult :: "nat \<Rightarrow> bool \<Rightarrow> bytes \<Rightarrow> u32 \<Rightarrow> (grpcError, TransactionResult) sum"
  acExecutionResultForBlockID :: "nat \<Rightarrow> bool \<Rightarrow> bytes \<Rightarrow> (grpcError, ExecutionResult) sum"

definition contains :: "string \<Rightarrow> string \<Rightarrow> bool" where
  "contains s t \<longleftrightarrow> list_ex (prefix t) (suffixes s)"

definition rateLimitText :: string where
  "rateLimitText = ''rate limit reached''"

definition IsRateLimited :: "grpcError \<Rightarrow> bool" where
  "IsRateLimited err \<longleftrightarrow> geCode err = ResourceExhausted \<and> contains (geMessage err) rateLimitText"

definition useSlowPath :: "grpcError \<Rightarrow> bool" where
  "useSlowPath err =
     (if IsRateLimited err then False
      else (case geCode err of
              Internal \<Rightarrow>
                if contains (geMessage err) ''ResourceExhausted'' then True
                else contains (geMessage err) ''Unimplemented''
            | ResourceExhausted \<Rightarrow> True
            | Unimplemented \<Rightarrow> True
            | _ \<Rightarrow> False))"

subsection \<open>The loop variables\<close>

record pvars =
  pvTime :: nat
  pvBackoff :: int
  pvSkipCache :: bool
  pvSlowPath :: bool
  pvUnsealed :: bool

datatype exit = Again pvars | Stopped nat | OutOfFuel

type_synonym 'a run = "(exit, 'a) outcome"

definition tick :: "pvars \<Rightarrow> pvars" where
  "tick pv = pv\<lparr>pvTime := Suc (pvTime pv)\<rparr>"

text \<open>\<^verbatim>\<open>skipCache = true; continue outer\<close>.\<close>

definition againSkip :: "pvars \<Rightarrow> 'a run" where
  "againSkip pv = Err (Again (pv\<lparr>pvSkipCache := True\<rparr>))"

text \<open>Durations are 64-bit signed integers.\<close>

definition nextBackoff :: "Chain \<Rightarrow> int \<Rightarrow> int" where
  "nextBackoff chain d =
     (let d2 = signed_take_bit 63 (d * 2)
      in if d2 > chMaxBackoffInterval chain then chMaxBackoffInterval chain else d2)"

text \<open>The retry loop around a single call: give up on a cancelled call, retry on any other error.\<close>

fun fetch :: "nat \<Rightarrow> (nat \<Rightarrow> (grpcError, 'a) sum) \<Rightarrow> nat \<Rightarrow> ('a \<times> nat) run" where
  "fetch 0 call t = Err OutOfFuel"
| "fetch (Suc n) call t =
     (case call t of
        Inr x \<Rightarrow> Ok (x, Suc t)
      | Inl e \<Rightarrow> if geCode e = Canceled then Err (Stopped (Suc t)) else fetch n call (Suc t))"

subsection \<open>The collections of a block\<close>

record collectionData =
  cdSystem :: bool
  cdTxns :: "Transaction list"
  cdTxnResults :: "TransactionResult list"

definition emptyCollection :: collectionData where
  "emptyCollection = \<lparr>cdSystem = False, cdTxns = [], cdTxnResults = []\<rparr>"

text \<open>The batched answers, grouped by the collection of consecutive results.\<close>

fun groupResults ::
  "Transaction list \<Rightarrow> TransactionResult list \<Rightarrow> nat \<Rightarrow> bytes \<Rightarrow> collectionData list \<Rightarrow> collectionData list" where
  "groupResults txns [] idx prev cols = cols"
| "groupResults txns (r # rs) idx prev cols =
     (let cols1 = (if idx \<noteq> 0 \<and> trCollectionId r \<noteq> prev then cols @ [emptyCollection] else cols);
          col = last cols1;
          col1 = col\<lparr>cdTxns := cdTxns col @ (if idx < length txns then [txns ! idx] else []),
                     cdTxnResults := cdTxnResults col @ [r]\<rparr>
      in groupResults txns rs (Suc idx) (trCollectionId r) (butlast cols1 @ [col1]))"

definition markSystem :: "collectionData list \<Rightarrow> collectionData list" where
  "markSystem cols = butlast cols @ [(last cols)\<lparr>cdSystem := True\<rparr>]"

definition fastCollections :: "Transaction list \<Rightarrow> TransactionResult list \<Rightarrow> collectionData list" where
  "fastCollections txns results = markSystem (groupResults txns results 0 [] [emptyCollection])"

text \<open>
  The slow path asks for one collection, transaction and result at a time. The index of a result is
  the number of the results already asked for, in 32 bits.
\<close>

fun slowTxns ::
  "nat \<Rightarrow> access \<Rightarrow> bool \<Rightarrow> bytes \<Rightarrow> bytes list \<Rightarrow> nat \<Rightarrow> nat
     \<Rightarrow> ((Transaction list \<times> TransactionResult list) \<times> nat \<times> nat) run" where
  "slowTxns F A sk hash [] k t = Ok (([], []), k, t)"
| "slowTxns F A sk hash (x # xs) k t =
     andThen (fetch F (\<lambda>n. acTransaction A n sk x) t) (\<lambda>(txn, t1).
     andThen (fetch F (\<lambda>n. acTransactionResult A n sk hash (of_nat k)) t1) (\<lambda>(res, t2).
     andThen (slowTxns F A sk hash xs (Suc k) t2) (\<lambda>((txns, results), k', t3).
     Ok ((txn # txns, res # results), k', t3))))"

fun slowCollections ::
  "nat \<Rightarrow> access \<Rightarrow> bool \<Rightarrow> bytes \<Rightarrow> CollectionGuarantee list \<Rightarrow> nat \<Rightarrow> nat
     \<Rightarrow> (collectionData list \<times> nat \<times> nat) run" where
  "slowCollections F A sk hash [] k t = Ok ([], k, t)"
| "slowCollections F A sk hash (g # gs) k t =
     andThen (fetch F (\<lambda>n. acCollectionByID A n sk (cgCollectionId g)) t) (\<lambda>(ids, t1).
     andThen (slowTxns F A sk hash ids k t1) (\<lambda>((txns, results), k1, t2).
     andThen (slowCollections F A sk hash gs k1 t2) (\<lambda>(cols, k2, t3).
     Ok (\<lparr>cdSystem = False, cdTxns = txns, cdTxnResults = results\<rparr> # cols, k2, t3))))"

definition scheduledCount :: "TransactionResult \<Rightarrow> nat" where
  "scheduledCount r =
     length (filter (\<lambda>e. suffix ''.FlowTransactionScheduler.PendingExecution'' (evType e)) (trEvents r))"

text \<open>One more result of the system collection, unless the server has no more (\<open>None\<close>).\<close>

fun fetchMore ::
  "nat \<Rightarrow> (nat \<Rightarrow> (grpcError, TransactionResult) sum) \<Rightarrow> nat \<Rightarrow> (TransactionResult option \<times> nat) run" where
  "fetchMore 0 call t = Err OutOfFuel"
| "fetchMore (Suc n) call t =
     (case call t of
        Inr r \<Rightarrow> Ok (Some r, Suc t)
      | Inl e \<Rightarrow> if geCode e = Canceled then Err (Stopped (Suc t))
                 else if geCode e = NotFound then Ok (None, Suc t)
                 else fetchMore n call (Suc t))"

fun scheduledResults ::
  "nat \<Rightarrow> access \<Rightarrow> bool \<Rightarrow> bytes \<Rightarrow> nat \<Rightarrow> nat \<Rightarrow> nat \<Rightarrow> (TransactionResult list \<times> nat) run" where
  "scheduledResults F A sk hash 0 k t = Ok ([], t)"
| "scheduledResults F A sk hash (Suc m) k t =
     andThen (fetchMore F (\<lambda>n. acTransactionResult A n sk hash (of_nat k)) t) (\<lambda>(r, t1).
     case r of
       None \<Rightarrow> Ok ([], t1)
     | Some res \<Rightarrow>
         andThen (scheduledResults F A sk hash m (Suc k) t1) (\<lambda>(rs, t2). Ok (res # rs, t2)))"

fun systemTxns :: "nat \<Rightarrow> access \<Rightarrow> bool \<Rightarrow> TransactionResult list \<Rightarrow> nat \<Rightarrow> (Transaction list \<times> nat) run" where
  "systemTxns F A sk [] t = Ok ([], t)"
| "systemTxns F A sk (r # rs) t =
     andThen (fetch F (\<lambda>n. acTransaction A n sk (trTransactionId r)) t) (\<lambda>(txn, t1).
     andThen (systemTxns F A sk rs t1) (\<lambda>(txns, t2). Ok (txn # txns, t2)))"

definition systemCollection ::
  "nat \<Rightarrow> access \<Rightarrow> bool \<Rightarrow> Spork \<Rightarrow> bytes \<Rightarrow> nat \<Rightarrow> nat \<Rightarrow> (collectionData \<times> nat) run" where
  "systemCollection F A sk spork hash k t =
     andThen (fetch F (\<lambda>n. acTransactionResult A n sk hash (of_nat k)) t) (\<lambda>(res, t1).
     andThen (if spVersion spork \<ge> 8
              then scheduledResults F A sk hash (scheduledCount res + 1) (Suc k) t1
              else Ok ([], t1)) (\<lambda>(more, t2).
     andThen (systemTxns F A sk (res # more) t2) (\<lambda>(txns, t3).
     Ok (\<lparr>cdSystem = True, cdTxns = txns, cdTxnResults = res # more\<rparr>, t3))))"

text \<open>The self-sealed root block of a spork that follows another one has no system transaction.\<close>

definition selfSealed :: "Spork \<Rightarrow> u64 \<Rightarrow> bool" where
  "selfSealed spork height \<longleftrightarrow> spPrev spork \<noteq> None \<and> height = spRootBlock spork"

definition slowPathCollections ::
  "nat \<Rightarrow> access \<Rightarrow> bool \<Rightarrow> Spork \<Rightarrow> u64 \<Rightarrow> bytes \<Rightarrow> Block \<Rightarrow> nat \<Rightarrow> (collectionData list \<times> nat) run" where
  "slowPathCollections F A sk spork height hash block t =
     andThen (slowCollections F A sk hash (ebCollectionGuarantees block) 0 t) (\<lambda>(cols, k, t1).
     if selfSealed spork height then Ok (cols @ [emptyCollection\<lparr>cdSystem := True\<rparr>], t1)
     else andThen (systemCollection F A sk spork hash k t1) (\<lambda>(col, t2). Ok (cols @ [col], t2)))"

text \<open>The batched calls; an error that calls for it switches to the slow path for good.\<close>

definition batched ::
  "Chain \<Rightarrow> bool \<Rightarrow> (nat \<Rightarrow> bool \<Rightarrow> (grpcError, 'a list) sum) \<Rightarrow> pvars \<Rightarrow> ('a list \<times> pvars) run" where
  "batched chain backs call pv =
     (if pvSlowPath pv then Ok ([], pv)
      else (case call (pvTime pv) (pvSkipCache pv) of
              Inr xs \<Rightarrow> Ok (xs, tick pv)
            | Inl e \<Rightarrow>
                if useSlowPath e then Ok ([], (tick pv)\<lparr>pvSlowPath := True\<rparr>)
                else if backs \<and> geCode e = NotFound
                then Err (Again ((tick pv)\<lparr>pvBackoff := nextBackoff chain (pvBackoff pv)\<rparr>))
                else Err (Again (tick pv))))"

definition blockCollections ::
  "nat \<Rightarrow> access \<Rightarrow> Chain \<Rightarrow> Spork \<Rightarrow> u64 \<Rightarrow> bytes \<Rightarrow> Block \<Rightarrow> pvars \<Rightarrow> (collectionData list \<times> pvars) run" where
  "blockCollections F A chain spork height hash block pv =
     andThen (batched chain True (\<lambda>n sk. acTransactionsByBlockID A n sk hash) pv) (\<lambda>(txns, pv1).
     andThen (batched chain False (\<lambda>n sk. acTransactionResultsByBlockID A n sk hash) pv1) (\<lambda>(results, pv2).
     if pvSlowPath pv2 then
       andThen (slowPathCollections F A (pvSkipCache pv2) spork height hash block (pvTime pv2)) (\<lambda>(cols, t).
       Ok (cols, pv2\<lparr>pvTime := t\<rparr>))
     else Ok (fastCollections txns results, pv2)))"

subsection \<open>Integrity checks\<close>

definition toFlowEvent :: "Event \<Rightarrow> flowEvent" where
  "toFlowEvent e =
     \<lparr>feEventIndex = evEventIndex e, feEventPayload = evPayload e,
      feTransactionID = toFlowIdentifier (evTransactionId e),
      feTransactionIndex = evTransactionIndex e, feType = evType e\<rparr>"

definition colEvents :: "collectionData \<Rightarrow> flowEvent list" where
  "colEvents col = map toFlowEvent (concat (map trEvents (cdTxnResults col)))"

definition deriveEventHashes ::
  "flowgo \<Rightarrow> Spork \<Rightarrow> u64 \<Rightarrow> collectionData list \<Rightarrow> (string, bytes list) outcome" where
  "deriveEventHashes G spork height cols =
     (if selfSealed spork height then Ok [ZeroID]
      else mapOutcome (\<lambda>col. deriveEventsHash G (spVersion spork) (colEvents col)) cols)"

fun executionResult ::
  "nat \<Rightarrow> access \<Rightarrow> bool \<Rightarrow> bytes \<Rightarrow> nat \<Rightarrow> (ExecutionResult \<times> nat) run" where
  "executionResult 0 A sk hash t = Err OutOfFuel"
| "executionResult (Suc n) A sk hash t =
     (if acDone A t then Err (Stopped t)
      else (case acExecutionResultForBlockID A t sk hash of
              Inr r \<Rightarrow> Ok (r, Suc t)
            | Inl e \<Rightarrow> executionResult n A sk hash (Suc t)))"

fun checkChunks :: "bytes list \<Rightarrow> Chunk option list \<Rightarrow> (string, unit) outcome" where
  "checkChunks (eh # ehs) (ck # cks) =
     (case ck of
        None \<Rightarrow> Err ''Got unexpected nil chunk''
      | Some c \<Rightarrow>
          if ckEventCollection c \<noteq> eh then Err ''Got mismatching event hash''
          else checkChunks ehs cks)"
| "checkChunks _ _ = Ok ()"

text \<open>
  The check of an execution result: an \<open>Err\<close> asks for another attempt past the cache; the value says
  that the block is accepted without a seal, within the tolerance before the next spork. The
  subtraction of the tolerance wraps.
\<close>

definition checkSealed ::
  "Chain \<Rightarrow> Indexer \<Rightarrow> Spork \<Rightarrow> u64 \<Rightarrow> bytes \<Rightarrow> bytes \<Rightarrow> (string, bool) outcome" where
  "checkSealed chain i spork height hash resultID =
     (case (if selfSealed spork height then Some resultID else map_of (ixSealedResults i) hash) of
        Some sealed \<Rightarrow>
          if resultID \<noteq> sealed then Err ''Got mismatching execution result hash'' else Ok False
      | None \<Rightarrow>
          (case spNext spork of
             None \<Rightarrow> Fatal ''No sealed result found in the live spork''
           | Some n \<Rightarrow>
               if height \<ge> spRootBlock (chSporks chain ! n) - chSporkSealTolerance chain then Ok True
               else Fatal ''No sealed result found''))"

definition integrity ::
  "flowgo \<Rightarrow> Chain \<Rightarrow> Indexer \<Rightarrow> Spork \<Rightarrow> u64 \<Rightarrow> bytes \<Rightarrow> bytes list \<Rightarrow> ExecutionResult \<Rightarrow> (string, bool) outcome" where
  "integrity G chain i spork height hash eventHashes exec =
     (if length (exChunks exec) \<noteq> length eventHashes then Err ''Execution result has the wrong number of chunks''
      else
        andThen (checkChunks eventHashes (exChunks exec)) (\<lambda>_.
        andThen (convertExecutionResult G (spVersion spork) exec) (\<lambda>r.
        andThen (deriveExecutionResult G (spVersion spork) r) (\<lambda>resultID.
        checkSealed chain i spork height hash resultID))))"

text \<open>A string error of the two parts above is the jump to the next attempt, past the cache.\<close>

definition orAgain :: "pvars \<Rightarrow> (string, 'a) outcome \<Rightarrow> 'a run" where
  "orAgain pv m = mapErr (\<lambda>_. Again (pv\<lparr>pvSkipCache := True\<rparr>)) m"

subsection \<open>The transactions\<close>

text \<open>
  What a block accumulates: its transactions and the new accounts. The order in which Go ranges over
  the maps of a transaction is the function \<open>ord\<close> at the time of the transaction.
\<close>

type_synonym accum = "IndexedTransaction list \<times> (bytes, bool) gomap \<times> nat"

fun colTxns ::
  "(nat \<Rightarrow> nat \<Rightarrow> (bytes \<times> u64) list \<Rightarrow> (bytes \<times> u64) list) \<Rightarrow> access \<Rightarrow> cadence_env \<Rightarrow> ('k, 's) secp256k1
     \<Rightarrow> Indexer \<Rightarrow> bool \<Rightarrow> bytes \<Rightarrow> Transaction list \<Rightarrow> TransactionResult list \<Rightarrow> nat \<Rightarrow> accum \<Rightarrow> pvars
     \<Rightarrow> (accum \<times> pvars) run" where
  "colTxns ord A C S i skip hash txns [] idx acc pv = Ok (acc, pv)"
| "colTxns ord A C S i skip hash txns (r # rs) idx acc pv =
     (if acDone A (pvTime pv) then Err (Stopped (pvTime pv))
      else
        andThen (elemAt txns idx) (\<lambda>txn.
        if trBlockId r \<noteq> hash then
          (if skip then colTxns ord A C S i skip hash txns rs (Suc idx) acc (tick pv) else againSkip (tick pv))
        else
          andThen (orAgain (tick pv) (processTxn (ord (pvTime pv)) C S i (txPayer txn) r (snd acc)))
            (\<lambda>(itx, st). colTxns ord A C S i skip hash txns rs (Suc idx) (fst acc @ [itx], st) (tick pv))))"

fun allTxns ::
  "(nat \<Rightarrow> nat \<Rightarrow> (bytes \<times> u64) list \<Rightarrow> (bytes \<times> u64) list) \<Rightarrow> access \<Rightarrow> cadence_env \<Rightarrow> ('k, 's) secp256k1
     \<Rightarrow> Indexer \<Rightarrow> bool \<Rightarrow> bytes \<Rightarrow> collectionData list \<Rightarrow> accum \<Rightarrow> pvars \<Rightarrow> (accum \<times> pvars) run" where
  "allTxns ord A C S i skip hash [] acc pv = Ok (acc, pv)"
| "allTxns ord A C S i skip hash (col # cols) acc pv =
     andThen (colTxns ord A C S i skip hash (cdTxns col) (cdTxnResults col) 0 acc pv) (\<lambda>(acc1, pv1).
     allTxns ord A C S i skip hash cols acc1 pv1)"

subsection \<open>Indexing\<close>

fun indexLoop ::
  "nat \<Rightarrow> access \<Rightarrow> 'db env \<Rightarrow> (nat \<Rightarrow> (bytes \<times> u64) list \<Rightarrow> (bytes \<times> u64) list) \<Rightarrow> 'db Store \<Rightarrow> u64 \<Rightarrow> bytes
     \<Rightarrow> IndexedBlock \<Rightarrow> nat \<Rightarrow> ('db Store \<times> nat) run" where
  "indexLoop 0 A E iord s height hash data t = Err OutOfFuel"
| "indexLoop (Suc n) A E iord s height hash data t =
     (if acDone A t then Err (Stopped t)
      else (case Index E (iord t) s height hash data of
              (s', Ok _) \<Rightarrow> Ok (s', Suc t)
            | (s', Err e) \<Rightarrow> indexLoop n A E iord s' height hash data (Suc t)
            | (s', Panic p) \<Rightarrow> Panic p
            | (s', Fatal m) \<Rightarrow> Fatal m))"

definition finishBlock :: "Indexer \<Rightarrow> (bytes, bool) gomap \<Rightarrow> u64 \<Rightarrow> bytes \<Rightarrow> Indexer run" where
  "finishBlock i newAccounts height hash =
     (case ixLastIndexed i of
        None \<Rightarrow> Panic ''nil pointer dereference''
      | Some m \<Rightarrow>
          Ok (i\<lparr>ixAccts := fold (\<lambda>(acct, p) accts. mput accts acct p) newAccounts (ixAccts i),
                ixLastIndexed := Some (m\<lparr>bmHash := hash, bmHeight := height\<rparr>),
                ixSealedResults := AList.delete hash (ixSealedResults i)\<rparr>))"

text \<open>
  The parameters of a run: modules, servers, iteration orders, the clock, and the database of the
  consensus follower (the block at a height, with the error of a missing one marked; the seal of a
  block; the block and the result of a seal).
\<close>

record ('db, 'k, 's) world =
  wGo :: flowgo
  wAccess :: access
  wCadence :: cadence_env
  wCurve :: "('k, 's) secp256k1"
  wEnv :: "'db env"
  wRange :: "nat \<Rightarrow> nat \<Rightarrow> (bytes \<times> u64) list \<Rightarrow> (bytes \<times> u64) list"
  wIndexRange :: "nat \<Rightarrow> (bytes \<times> u64) list \<Rightarrow> (bytes \<times> u64) list"
  wNow :: "nat \<Rightarrow> int"
  wBlockIDAt :: "nat \<Rightarrow> u64 \<Rightarrow> (bool, bytes) sum"
  wSealIDOf :: "nat \<Rightarrow> bytes \<Rightarrow> bytes option"
  wSealAt :: "nat \<Rightarrow> bytes \<Rightarrow> (bytes \<times> bytes) option"

definition skipBlock :: "Chain \<Rightarrow> bytes \<Rightarrow> bool" where
  "skipBlock chain hash \<longleftrightarrow> mhas (chSkipBlocks chain) (toFlowIdentifier hash)"

definition checkedUnsealed ::
  "flowgo \<Rightarrow> Chain \<Rightarrow> Indexer \<Rightarrow> Spork \<Rightarrow> u64 \<Rightarrow> bytes \<Rightarrow> bytes list \<Rightarrow> ExecutionResult \<Rightarrow> pvars \<Rightarrow> pvars run" where
  "checkedUnsealed G chain i spork height hash ehs exec pv =
     (if skipBlock chain hash then Ok pv
      else andThen (orAgain pv (integrity G chain i spork height hash ehs exec)) (\<lambda>u.
           Ok (if u then pv\<lparr>pvUnsealed := True\<rparr> else pv)))"

definition attemptBlock ::
  "nat \<Rightarrow> ('db, 'k, 's) world \<Rightarrow> Chain \<Rightarrow> Spork \<Rightarrow> u64 \<Rightarrow> bytes \<Rightarrow> Indexer \<Rightarrow> 'db Store \<Rightarrow> pvars
     \<Rightarrow> (Indexer \<times> 'db Store \<times> nat) run" where
  "attemptBlock F W chain spork height hash i s pv0 =
     (let A = wAccess W; G = wGo W; pv = tick pv0 in
      case acBlockByHeight A (pvTime pv0) (pvSkipCache pv0) height of
        Inl e \<Rightarrow> Err (Again pv)
      | Inr block \<Rightarrow>
          andThen (blockCollections F A chain spork height hash block pv) (\<lambda>(cols, pv1).
          andThen (orAgain pv1 (deriveEventHashes G spork height cols)) (\<lambda>ehs.
          andThen (executionResult F A (pvSkipCache pv1) hash (pvTime pv1)) (\<lambda>(exec, t2).
          andThen (checkedUnsealed G chain i spork height hash ehs exec (pv1\<lparr>pvTime := t2\<rparr>)) (\<lambda>pv3.
          andThen (allTxns (wRange W) A (wCadence W) (wCurve W) i (skipBlock chain hash) hash cols ([], [], 0) pv3)
            (\<lambda>((itxs, newAccounts, _), pv4).
          andThen (indexLoop F A (wEnv W) (wIndexRange W) s height hash
                     \<lparr>ibTimestamp = unixNano (ebTimestamp block), ibTransactions = itxs\<rparr> (pvTime pv4)) (\<lambda>(s', t5).
          andThen (finishBlock i newAccounts height hash) (\<lambda>i'. Ok (i', s', t5)))))))))"

fun attempts ::
  "nat \<Rightarrow> nat \<Rightarrow> ('db, 'k, 's) world \<Rightarrow> Chain \<Rightarrow> Spork \<Rightarrow> u64 \<Rightarrow> bytes \<Rightarrow> Indexer \<Rightarrow> 'db Store \<Rightarrow> pvars
     \<Rightarrow> (Indexer \<times> 'db Store \<times> nat) run" where
  "attempts 0 F W chain spork height hash i s pv = Err OutOfFuel"
| "attempts (Suc n) F W chain spork height hash i s pv =
     (if acDone (wAccess W) (pvTime pv) then Err (Stopped (pvTime pv))
      else (case attemptBlock F W chain spork height hash i s pv of
              Err (Again pv') \<Rightarrow> attempts n F W chain spork height hash i s pv'
            | r \<Rightarrow> r))"

definition startVars :: "nat \<Rightarrow> pvars" where
  "startVars t = \<lparr>pvTime = t, pvBackoff = 1000000000, pvSkipCache = False, pvSlowPath = False, pvUnsealed = False\<rparr>"

definition processBlock ::
  "nat \<Rightarrow> ('db, 'k, 's) world \<Rightarrow> Chain \<Rightarrow> Spork \<Rightarrow> u64 \<Rightarrow> bytes \<Rightarrow> Indexer \<Rightarrow> 'db Store \<Rightarrow> nat
     \<Rightarrow> (Indexer \<times> 'db Store \<times> nat) run" where
  "processBlock F W chain spork height hash i s t =
     attempts F F W chain spork height hash i s (startVars t)"

end
