(* ===== verification/Accounting.thy ===== *)
theory Accounting
  imports Reconcile
begin

section \<open>Transactions reconcile with their events\<close>

text \<open>
  The two passes over the events keep an invariant of the working maps; with it the operations of a
  transaction move, for every account, exactly what its events say, and every operation has the
  shape that the index asks for.
\<close>

subsection \<open>The invariant of the working maps\<close>

text \<open>The addresses an indexer knows are eight bytes long.\<close>

definition indexer_ok :: "Indexer \<Rightarrow> bool" where
  "indexer_ok i \<longleftrightarrow> (\<forall>a \<in> mkeys (ixAccts i) \<union> mkeys (ixOriginators i). length a = 8)"

definition maps_ok :: "work \<Rightarrow> bool" where
  "maps_ok w \<longleftrightarrow> distinct (map fst (wkDeposits w)) \<and> distinct (map fst (wkProxyDeposits w)) \<and>
     distinct (map fst (wkWithdrawals w))"

definition proxies_ok :: "Indexer \<Rightarrow> work \<Rightarrow> bool" where
  "proxies_ok i w \<longleftrightarrow>
     (\<forall>a \<in> mkeys (wkDeposits w). \<not> isProxy i a (wkNewAccounts w)) \<and>
     (\<forall>a \<in> mkeys (wkProxyDeposits w). isProxy i a (wkNewAccounts w)) \<and>
     (\<forall>t \<in> set (wkProxyTransfers w). isProxy i (ptSender t) (wkNewAccounts w))"

definition lengths_ok :: "work \<Rightarrow> bool" where
  "lengths_ok w \<longleftrightarrow>
     (\<forall>a \<in> mkeys (wkDeposits w) \<union> mkeys (wkProxyDeposits w) \<union> mkeys (wkWithdrawals w) \<union>
           mkeys (wkNewAccounts w) \<union> set (wkAddrs w). length a = 8) \<and>
     (\<forall>t \<in> set (wkProxyTransfers w). length (ptSender t) = 8 \<and> length (ptReceiver t) \<in> {0, 8})"

definition work_ok :: "Indexer \<Rightarrow> work \<Rightarrow> bool" where
  "work_ok i w \<longleftrightarrow> maps_ok w \<and> proxies_ok i w \<and> lengths_ok w \<and>
     mkeys (wkAccountKeys w) \<subseteq> mkeys (wkNewAccounts w)"

lemmas work_ok_defs = work_ok_def maps_ok_def proxies_ok_def lengths_ok_def

lemma addressOf_length: "addressOf v = Some a \<Longrightarrow> length a = 8"
  by (auto simp: addressOf_def split: option.splits cadence.splits)

lemma require_Ok [simp]: "require msg v = Ok x \<longleftrightarrow> v = Some x"
  by (auto simp: require_def split: option.splits)

lemma check_Ok [simp]: "check msg b = Ok u \<longleftrightarrow> b"
  by (simp add: check_def)

text \<open>The address that a \<^verbatim>\<open>flow.AccountCreated\<close> event names.\<close>

definition createdBy :: "cadence_env \<Rightarrow> Event \<Rightarrow> bytes option" where
  "createdBy C e =
     (if evType e = ''flow.AccountCreated'' then
        (case decodeEvent C e of Ok flds \<Rightarrow> addressOf (map_of flds (addressField C)) | _ \<Rightarrow> None)
      else None)"

definition created :: "cadence_env \<Rightarrow> Event list \<Rightarrow> bytes list" where
  "created C es = List.map_filter (createdBy C) es"

lemma created_simps [simp]:
  "created C [] = []"
  "created C (e # es) = (case createdBy C e of None \<Rightarrow> created C es | Some a \<Rightarrow> a # created C es)"
  by (simp_all add: created_def map_filter_simps split: option.split)

lemma isProxy_put_True: "isProxy i a acc \<Longrightarrow> isProxy i a (mput acc b True)"
  by (auto simp: isProxy_def mget_update split: option.splits)

lemma isProxy_put_fresh: "b \<notin> mkeys acc \<Longrightarrow> isProxy i a (mput acc b False) = isProxy i a acc"
  by (auto simp: isProxy_def mget_update mget_no_key split: option.splits)

text \<open>Accounts are never forgotten, and what was a proxy remains one.\<close>

definition grows :: "Indexer \<Rightarrow> work \<Rightarrow> work \<Rightarrow> bool" where
  "grows i w w' \<longleftrightarrow>
     mkeys (wkNewAccounts w) \<subseteq> mkeys (wkNewAccounts w') \<and>
     (\<forall>a. isProxy i a (wkNewAccounts w) \<longrightarrow> isProxy i a (wkNewAccounts w'))"

lemma grows_refl [simp]: "wkNewAccounts w' = wkNewAccounts w \<Longrightarrow> grows i w w'"
  by (simp add: grows_def)

lemma grows_trans: "grows i u v \<Longrightarrow> grows i v w \<Longrightarrow> grows i u w"
  by (auto simp: grows_def)

lemma onAccountCreated_ok:
  assumes "onAccountCreated C i payer e w = Ok w'" and "evType e = ''flow.AccountCreated''"
    and "work_ok i w" and "\<forall>a. createdBy C e = Some a \<longrightarrow> a \<notin> mkeys (wkNewAccounts w)"
  shows "work_ok i w' \<and> grows i w w' \<and>
    mkeys (wkNewAccounts w') \<subseteq> mkeys (wkNewAccounts w) \<union> set_option (createdBy C e)"
proof -
  from assms(1,2) obtain addr where a: "createdBy C e = Some addr" "length addr = 8"
    and w': "w' = w \<or> w' = w\<lparr>wkAccountKeys := mput (wkAccountKeys w) addr [],
             wkAddrs := wkAddrs w @ [addr], wkNewAccounts := mput (wkNewAccounts w) addr False,
             wkNewCounter := wkNewCounter w + 1\<rparr>"
    by (auto simp: onAccountCreated_def createdBy_def dest: addressOf_length split: if_splits)
  from a assms(4) have fresh: "addr \<notin> mkeys (wkNewAccounts w)" by simp
  from w' show ?thesis
    using assms(3) a by (auto simp: work_ok_defs grows_def isProxy_put_fresh [OF fresh])
qed

text \<open>The second pass starts with the first-pass maps of tokens still empty.\<close>

definition first_ok :: "Indexer \<Rightarrow> work \<Rightarrow> bool" where
  "first_ok i w \<longleftrightarrow> work_ok i w \<and> wkDeposits w = [] \<and> wkWithdrawals w = []"

lemma onProxyCreated_ok:
  assumes "onProxyCreated C S i payer e w = Ok w'" and "first_ok i w"
  shows "first_ok i w' \<and> grows i w w' \<and> mkeys (wkNewAccounts w') = mkeys (wkNewAccounts w)"
proof (cases "w' = w")
  case False
  with assms(1) obtain addr key where
      "mhas (wkAccountKeys w) addr" and w': "w' = w\<lparr>wkAccountKeys := mput (wkAccountKeys w) addr key,
         wkNewAccounts := mput (wkNewAccounts w) addr True\<rparr>"
    by (auto simp: onProxyCreated_def split: if_splits)
  then have "addr \<in> mkeys (wkNewAccounts w)"
    using assms(2) by (auto simp: first_ok_def work_ok_def map_of_None_mkeys)
  with assms(2) show ?thesis
    unfolding w' first_ok_def work_ok_defs grows_def
    by (auto simp: isProxy_put_True)
qed (use assms(2) in simp)

text \<open>What the two proxy events and the two token events say: an account and an amount.\<close>

definition moveOf :: "cadence_env \<Rightarrow> (cadence option \<Rightarrow> bytes option) \<Rightarrow> string \<Rightarrow> Event \<Rightarrow> (bytes \<times> u64) option" where
  "moveOf C rd fld e =
     (case decodeEvent C e of
        Ok flds \<Rightarrow>
          (case (rd (map_of flds fld), amountOf (map_of flds ''amount'')) of
             (Some a, Some n) \<Rightarrow> Some (a, n) | _ \<Rightarrow> None)
      | _ \<Rightarrow> None)"

text \<open>An optional address; of a proxy transfer the missing sender is the zero address.\<close>

definition optAddress :: "cadence option \<Rightarrow> bytes option" where
  "optAddress v = (case v of Some (COptional (Some x)) \<Rightarrow> addressOf (Some x) | _ \<Rightarrow> None)"

definition senderAddress :: "cadence option \<Rightarrow> bytes option" where
  "senderAddress v =
     (case v of
        Some (COptional (Some x)) \<Rightarrow> addressOf (Some x)
      | Some (COptional None) \<Rightarrow> Some (replicate 8 0)
      | _ \<Rightarrow> None)"

lemma optionalOf_Ok [simp]: "optionalOf v = Ok x \<longleftrightarrow> v = Some (COptional x)"
  by (auto simp: optionalOf_def split: option.splits cadence.splits)

lemma onProxyDeposited_shape:
  assumes "onProxyDeposited C i e w = Ok w'"
  obtains evs a n where "moveOf C addressOf ''account'' e = Some (a, n)" "length a = 8"
    and "w' = w\<lparr>wkEvents := evs, wkProxyDeposits :=
           (if isProxy i a (wkNewAccounts w)
            then mput (wkProxyDeposits w) a (mget 0 (wkProxyDeposits w) a + n) else wkProxyDeposits w)\<rparr>"
proof -
  from assms obtain flds a n where d: "decodeEvent C e = Ok flds"
      "addressOf (map_of flds ''account'') = Some a" "amountOf (map_of flds ''amount'') = Some n"
    by (auto simp: onProxyDeposited_def)
  show thesis
  proof (rule that [of a n])
    show "moveOf C addressOf ''account'' e = Some (a, n)" using d by (simp add: moveOf_def)
    show "length a = 8" using d(2) by (rule addressOf_length)
    show "w' = w\<lparr>wkEvents := wkEvents w' , wkProxyDeposits :=
           (if isProxy i a (wkNewAccounts w)
            then mput (wkProxyDeposits w) a (mget 0 (wkProxyDeposits w) a + n) else wkProxyDeposits w)\<rparr>"
      using assms d by (auto simp: onProxyDeposited_def Let_def simp del: andThen_Ok_rev)
  qed
qed

lemma onProxyDeposited_ok:
  assumes "onProxyDeposited C i e w = Ok w'" and "first_ok i w"
  shows "first_ok i w' \<and> wkNewAccounts w' = wkNewAccounts w"
proof -
  obtain evs a n where "length a = 8" and w': "w' = w\<lparr>wkEvents := evs, wkProxyDeposits :=
           (if isProxy i a (wkNewAccounts w)
            then mput (wkProxyDeposits w) a (mget 0 (wkProxyDeposits w) a + n) else wkProxyDeposits w)\<rparr>"
    using onProxyDeposited_shape [OF assms(1)] .
  with assms(2) show ?thesis
    unfolding w' first_ok_def work_ok_defs by (simp add: distinct_update)
qed

lemma onProxyTransferred_shape:
  assumes "onProxyTransferred C i e w = Ok w'"
  obtains evs a n r where "moveOf C senderAddress ''from'' e = Some (a, n)" "length a = 8" "length r \<in> {0, 8}"
    and "r = [] \<or> isTracked i r (wkNewAccounts w)"
    and "w' = w\<lparr>wkEvents := evs, wkProxyTransfers :=
           (if isProxy i a (wkNewAccounts w)
            then wkProxyTransfers w @ [\<lparr>ptAmount = n, ptReceiver = r, ptSender = a\<rparr>] else wkProxyTransfers w)\<rparr>"
proof -
  from assms obtain flds r0 f a n where d: "decodeEvent C e = Ok flds" "fieldCount flds = 3"
      "addressOf (map_of flds ''to'') = Some r0" "map_of flds ''from'' = Some (COptional f)"
      "(case f of None \<Rightarrow> Ok (replicate 8 0)
          | Some v \<Rightarrow> require ''Unable to load the from address'' (addressOf (Some v))) = Ok a"
      "amountOf (map_of flds ''amount'') = Some n"
    by (auto simp: onProxyTransferred_def)
  have snd: "senderAddress (map_of flds ''from'') = Some a" "length a = 8"
    using d(4,5) by (auto simp: senderAddress_def dest: addressOf_length split: option.splits)
  show thesis
  proof (rule that [of a n "if isTracked i r0 (wkNewAccounts w) then r0 else []"])
    show "moveOf C senderAddress ''from'' e = Some (a, n)" using d snd by (simp add: moveOf_def)
    show "length (if isTracked i r0 (wkNewAccounts w) then r0 else []) \<in> {0, 8}"
      using addressOf_length [OF d(3)] by simp
    show "w' = w\<lparr>wkEvents := wkEvents w' , wkProxyTransfers :=
           (if isProxy i a (wkNewAccounts w)
            then wkProxyTransfers w @ [\<lparr>ptAmount = n,
              ptReceiver = (if isTracked i r0 (wkNewAccounts w) then r0 else []), ptSender = a\<rparr>]
            else wkProxyTransfers w)\<rparr>"
      using assms d by (auto simp: onProxyTransferred_def Let_def simp del: andThen_Ok_rev)
  qed (use snd in auto)
qed

lemma onProxyTransferred_ok:
  assumes "onProxyTransferred C i e w = Ok w'" and "first_ok i w"
  shows "first_ok i w' \<and> wkNewAccounts w' = wkNewAccounts w"
proof -
  obtain evs a n r where "length a = 8" "length r \<in> {0, 8}" and w': "w' = w\<lparr>wkEvents := evs, wkProxyTransfers :=
           (if isProxy i a (wkNewAccounts w)
            then wkProxyTransfers w @ [\<lparr>ptAmount = n, ptReceiver = r, ptSender = a\<rparr>] else wkProxyTransfers w)\<rparr>"
    using onProxyTransferred_shape [OF assms(1)] .
  with assms(2) show ?thesis
    unfolding w' first_ok_def work_ok_defs by auto
qed

lemma firstPass_ok:
  assumes "firstPass C S i payer e w = Ok w'" and "first_ok i w"
    and "\<forall>a. createdBy C e = Some a \<longrightarrow> a \<notin> mkeys (wkNewAccounts w)"
  shows "first_ok i w' \<and> grows i w w' \<and>
    mkeys (wkNewAccounts w') \<subseteq> mkeys (wkNewAccounts w) \<union> set_option (createdBy C e)"
proof (cases "evType e = ''flow.AccountCreated''")
  case True
  with assms have "onAccountCreated C i payer e w = Ok w'" by (simp add: firstPass_def)
  moreover from this have "wkDeposits w' = wkDeposits w" "wkWithdrawals w' = wkWithdrawals w"
    by (auto simp: onAccountCreated_def)
  ultimately show ?thesis
    using onAccountCreated_ok [of C i payer e w w'] assms(2,3) True by (simp add: first_ok_def)
next
  case False
  with assms(1,2) onProxyCreated_ok [of C S i payer e w w'] onProxyDeposited_ok [of C i e w w']
    onProxyTransferred_ok [of C i e w w'] show ?thesis
    by (auto simp: firstPass_def split: if_splits)
qed

lemma firstPasses_ok:
  "overEvents (firstPass C S i payer) es w = Ok w' \<Longrightarrow> first_ok i w \<Longrightarrow>
   distinct (created C es) \<Longrightarrow> set (created C es) \<inter> mkeys (wkNewAccounts w) = {} \<Longrightarrow>
   first_ok i w' \<and> grows i w w' \<and> mkeys (wkNewAccounts w') \<subseteq> mkeys (wkNewAccounts w) \<union> set (created C es)"
proof (induction es arbitrary: w)
  case (Cons e es)
  then obtain w1 where one: "firstPass C S i payer e w = Ok w1"
      and rest: "overEvents (firstPass C S i payer) es w1 = Ok w'" by auto
  have "\<forall>a. createdBy C e = Some a \<longrightarrow> a \<notin> mkeys (wkNewAccounts w)"
    using Cons.prems(4) by auto
  from firstPass_ok [OF one Cons.prems(2) this] have f: "first_ok i w1" "grows i w w1"
      "mkeys (wkNewAccounts w1) \<subseteq> mkeys (wkNewAccounts w) \<union> set_option (createdBy C e)" by auto
  have "distinct (created C es) \<and> set (created C es) \<inter> mkeys (wkNewAccounts w1) = {}"
    using Cons.prems(3,4) f(3) by (cases "createdBy C e") auto
  with Cons.IH [OF rest f(1)] have "first_ok i w'" "grows i w1 w'"
      "mkeys (wkNewAccounts w') \<subseteq> mkeys (wkNewAccounts w1) \<union> set (created C es)" by auto
  moreover have "set_option (createdBy C e) \<union> set (created C es) = set (created C (e # es))"
    by (cases "createdBy C e") auto
  ultimately show ?case using f(2,3) grows_trans by blast
qed simp

subsection \<open>The second pass\<close>

text \<open>Deposits of a transaction count for tracked accounts that are not proxies.\<close>

definition counted :: "Indexer \<Rightarrow> (bytes, bool) gomap \<Rightarrow> bytes \<Rightarrow> bool" where
  "counted i acc a \<longleftrightarrow> isTracked i a acc \<and> \<not> isProxy i a acc"

lemma onTokensDeposited_shape:
  assumes "onTokensDeposited C i e w = Ok w'"
  obtains evs fees where "moveOf C optAddress ''to'' e = None" and "w' = w\<lparr>wkEvents := evs, wkFees := fees\<rparr>"
  | evs fees a n where "moveOf C optAddress ''to'' e = Some (a, n)" "length a = 8"
    and "w' = w\<lparr>wkEvents := evs, wkFees := fees, wkDeposits :=
           (if \<not> mget False (ixFeeAddrs i) a \<and> counted i (wkNewAccounts w) a
            then mput (wkDeposits w) a (mget 0 (wkDeposits w) a + n) else wkDeposits w)\<rparr>"
proof -
  from assms obtain flds f n where d: "decodeEvent C e = Ok flds" "fieldCount flds = 2"
      "amountOf (map_of flds ''amount'') = Some n" "map_of flds ''to'' = Some (COptional f)"
    by (auto simp: onTokensDeposited_def)
  show thesis
  proof (cases f)
    case None
    show thesis
    proof (rule that(1))
      show "moveOf C optAddress ''to'' e = None" using d None by (simp add: moveOf_def optAddress_def)
      show "w' = w\<lparr>wkEvents := wkEvents w', wkFees := wkFees w'\<rparr>"
        using assms d None by (auto simp: onTokensDeposited_def simp del: andThen_Ok_rev)
    qed
  next
    case (Some v)
    with assms d obtain a where a: "addressOf (Some v) = Some a"
      by (auto simp: onTokensDeposited_def)
    show thesis
    proof (rule that(2) [of a n])
      show "moveOf C optAddress ''to'' e = Some (a, n)" using d Some a by (simp add: moveOf_def optAddress_def)
      show "length a = 8" using a by (rule addressOf_length)
      show "w' = w\<lparr>wkEvents := wkEvents w', wkFees := wkFees w', wkDeposits :=
           (if \<not> mget False (ixFeeAddrs i) a \<and> counted i (wkNewAccounts w) a
            then mput (wkDeposits w) a (mget 0 (wkDeposits w) a + n) else wkDeposits w)\<rparr>"
        using assms d Some a
        by (auto simp: onTokensDeposited_def Let_def counted_def simp del: andThen_Ok_rev)
    qed
  qed
qed

lemma onTokensDeposited_ok:
  assumes "onTokensDeposited C i e w = Ok w'" and "work_ok i w"
  shows "work_ok i w' \<and> wkNewAccounts w' = wkNewAccounts w"
  using onTokensDeposited_shape [OF assms(1)]
proof cases
  case 1
  with assms(2) show ?thesis by (simp add: work_ok_defs)
next
  case (2 evs fees a n)
  show ?thesis
    unfolding 2(3) work_ok_defs
    using assms(2) 2(2) by (simp add: work_ok_defs distinct_update counted_def)
qed

lemma onTokensWithdrawn_shape:
  assumes "onTokensWithdrawn C i e w = Ok w'"
  obtains evs where "moveOf C optAddress ''from'' e = None" and "w' = w\<lparr>wkEvents := evs\<rparr>"
  | evs a n where "moveOf C optAddress ''from'' e = Some (a, n)" "length a = 8"
    and "w' = w\<lparr>wkEvents := evs, wkWithdrawals :=
           (if counted i (wkNewAccounts w) a
            then mput (wkWithdrawals w) a (mget 0 (wkWithdrawals w) a + n) else wkWithdrawals w)\<rparr>"
proof -
  from assms obtain flds f n where d: "decodeEvent C e = Ok flds" "fieldCount flds = 2"
      "amountOf (map_of flds ''amount'') = Some n" "map_of flds ''from'' = Some (COptional f)"
    by (auto simp: onTokensWithdrawn_def)
  show thesis
  proof (cases f)
    case None
    show thesis
    proof (rule that(1))
      show "moveOf C optAddress ''from'' e = None" using d None by (simp add: moveOf_def optAddress_def)
      show "w' = w\<lparr>wkEvents := wkEvents w'\<rparr>"
        using assms d None by (auto simp: onTokensWithdrawn_def simp del: andThen_Ok_rev)
    qed
  next
    case (Some v)
    with assms d obtain a where a: "addressOf (Some v) = Some a"
      by (auto simp: onTokensWithdrawn_def)
    show thesis
    proof (rule that(2) [of a n])
      show "moveOf C optAddress ''from'' e = Some (a, n)" using d Some a by (simp add: moveOf_def optAddress_def)
      show "length a = 8" using a by (rule addressOf_length)
      show "w' = w\<lparr>wkEvents := wkEvents w', wkWithdrawals :=
           (if counted i (wkNewAccounts w) a
            then mput (wkWithdrawals w) a (mget 0 (wkWithdrawals w) a + n) else wkWithdrawals w)\<rparr>"
        using assms d Some a
        by (auto simp: onTokensWithdrawn_def Let_def counted_def simp del: andThen_Ok_rev)
    qed
  qed
qed

lemma onTokensWithdrawn_ok:
  assumes "onTokensWithdrawn C i e w = Ok w'" and "work_ok i w"
  shows "work_ok i w' \<and> wkNewAccounts w' = wkNewAccounts w"
  using onTokensWithdrawn_shape [OF assms(1)]
proof cases
  case 1
  with assms(2) show ?thesis by (simp add: work_ok_defs)
next
  case (2 evs a n)
  show ?thesis
    unfolding 2(3) work_ok_defs
    using assms(2) 2(2) by (simp add: work_ok_defs distinct_update)
qed

lemma secondPasses_ok:
  "overEvents (secondPass C i) es w = Ok w' \<Longrightarrow> work_ok i w \<Longrightarrow>
   work_ok i w' \<and> wkNewAccounts w' = wkNewAccounts w"
proof (induction es arbitrary: w)
  case (Cons e es)
  then obtain w1 where one: "secondPass C i e w = Ok w1"
      and rest: "overEvents (secondPass C i) es w1 = Ok w'" by auto
  from one Cons.prems(2) have "work_ok i w1" "wkNewAccounts w1 = wkNewAccounts w"
    using onTokensDeposited_ok onTokensWithdrawn_ok by (auto simp: secondPass_def split: if_splits)
  with Cons.IH [OF rest] show ?case by simp
qed simp

subsection \<open>Amounts\<close>

text \<open>What an event moves for an account, in the order in which the code tells the types apart.\<close>

definition amountFor :: "bytes \<Rightarrow> (bytes \<times> u64) option \<Rightarrow> u64" where
  "amountFor a m = (case m of Some (b, n) \<Rightarrow> if b = a then n else 0 | None \<Rightarrow> 0)"

definition credit :: "cadence_env \<Rightarrow> Indexer \<Rightarrow> bytes \<Rightarrow> Event \<Rightarrow> u64" where
  "credit C i a e =
     (if evType e = ixTypTokensDeposited i then amountFor a (moveOf C optAddress ''to'' e) else 0)"

definition debit :: "cadence_env \<Rightarrow> Indexer \<Rightarrow> bytes \<Rightarrow> Event \<Rightarrow> u64" where
  "debit C i a e =
     (if evType e \<noteq> ixTypTokensDeposited i \<and> evType e = ixTypTokensWithdrawn i
      then amountFor a (moveOf C optAddress ''from'' e) else 0)"

definition isProxyEvent :: "Indexer \<Rightarrow> Event \<Rightarrow> bool" where
  "isProxyEvent i e \<longleftrightarrow> evType e \<noteq> ''flow.AccountCreated'' \<and> evType e \<noteq> ixTypProxyCreated i"

definition proxyCredit :: "cadence_env \<Rightarrow> Indexer \<Rightarrow> bytes \<Rightarrow> Event \<Rightarrow> u64" where
  "proxyCredit C i a e =
     (if isProxyEvent i e \<and> evType e = ixTypProxyDeposited i
      then amountFor a (moveOf C addressOf ''account'' e) else 0)"

definition proxyDebit :: "cadence_env \<Rightarrow> Indexer \<Rightarrow> bytes \<Rightarrow> Event \<Rightarrow> u64" where
  "proxyDebit C i a e =
     (if isProxyEvent i e \<and> evType e \<noteq> ixTypProxyDeposited i \<and> evType e = ixTypProxyTransferred i
      then amountFor a (moveOf C senderAddress ''from'' e) else 0)"

definition total :: "(Event \<Rightarrow> u64) \<Rightarrow> Event list \<Rightarrow> u64" where
  "total f es = sum_list (map f es)"

lemma total_simps [simp]: "total f [] = 0" "total f (e # es) = f e + total f es"
  by (simp_all add: total_def)

lemma secondPass_amounts:
  assumes "secondPass C i e w = Ok w'"
  shows "mget 0 (wkDeposits w') a = mget 0 (wkDeposits w) a +
      (if \<not> mget False (ixFeeAddrs i) a \<and> counted i (wkNewAccounts w) a then credit C i a e else 0)"
    and "mget 0 (wkWithdrawals w') a = mget 0 (wkWithdrawals w) a +
      (if counted i (wkNewAccounts w) a then debit C i a e else 0)"
    and "wkProxyDeposits w' = wkProxyDeposits w" and "wkProxyTransfers w' = wkProxyTransfers w"
    and "wkNewAccounts w' = wkNewAccounts w"
proof -
  consider (dep) "evType e = ixTypTokensDeposited i" "onTokensDeposited C i e w = Ok w'"
    | (wdr) "evType e \<noteq> ixTypTokensDeposited i" "evType e = ixTypTokensWithdrawn i" "onTokensWithdrawn C i e w = Ok w'"
    | (other) "evType e \<noteq> ixTypTokensDeposited i" "evType e \<noteq> ixTypTokensWithdrawn i" "w' = w"
    using assms by (auto simp: secondPass_def split: if_splits)
  then have "mget 0 (wkDeposits w') a = mget 0 (wkDeposits w) a +
        (if \<not> mget False (ixFeeAddrs i) a \<and> counted i (wkNewAccounts w) a then credit C i a e else 0) \<and>
      mget 0 (wkWithdrawals w') a = mget 0 (wkWithdrawals w) a +
        (if counted i (wkNewAccounts w) a then debit C i a e else 0) \<and>
      wkProxyDeposits w' = wkProxyDeposits w \<and> wkProxyTransfers w' = wkProxyTransfers w \<and>
      wkNewAccounts w' = wkNewAccounts w"
  proof cases
    case dep
    from dep(2) show ?thesis
      by (rule onTokensDeposited_shape) (use dep in \<open>auto simp: credit_def debit_def amountFor_def mget_update\<close>)
  next
    case wdr
    from wdr(3) show ?thesis
      by (rule onTokensWithdrawn_shape) (use wdr in \<open>auto simp: credit_def debit_def amountFor_def mget_update\<close>)
  next
    case other
    then show ?thesis by (simp add: credit_def debit_def)
  qed
  then show "mget 0 (wkDeposits w') a = mget 0 (wkDeposits w) a +
      (if \<not> mget False (ixFeeAddrs i) a \<and> counted i (wkNewAccounts w) a then credit C i a e else 0)"
    and "mget 0 (wkWithdrawals w') a = mget 0 (wkWithdrawals w) a +
      (if counted i (wkNewAccounts w) a then debit C i a e else 0)"
    and "wkProxyDeposits w' = wkProxyDeposits w" and "wkProxyTransfers w' = wkProxyTransfers w"
    and "wkNewAccounts w' = wkNewAccounts w" by simp_all
qed

lemma secondPasses_amounts:
  "overEvents (secondPass C i) es w = Ok w' \<Longrightarrow>
   mget 0 (wkDeposits w') a = mget 0 (wkDeposits w) a +
      (if \<not> mget False (ixFeeAddrs i) a \<and> counted i (wkNewAccounts w) a then total (credit C i a) es else 0) \<and>
   mget 0 (wkWithdrawals w') a = mget 0 (wkWithdrawals w) a +
      (if counted i (wkNewAccounts w) a then total (debit C i a) es else 0) \<and>
   wkProxyDeposits w' = wkProxyDeposits w \<and> wkProxyTransfers w' = wkProxyTransfers w"
proof (induction es arbitrary: w)
  case (Cons e es)
  then obtain w1 where one: "secondPass C i e w = Ok w1"
      and rest: "overEvents (secondPass C i) es w1 = Ok w'" by auto
  show ?case
    using Cons.IH [OF rest] secondPass_amounts(1,2) [OF one, of a] secondPass_amounts(3-5) [OF one]
    by auto
qed simp

lemma sent_snoc [simp]:
  "sent a (ts @ [t]) = sent a ts + (if ptSender t = a then uint (ptAmount t) else 0)"
  by (simp add: sent_def)

lemma firstPass_amounts:
  assumes "firstPass C S i payer e w = Ok w'" and "first_ok i w"
  shows "mget 0 (wkProxyDeposits w') a = mget 0 (wkProxyDeposits w) a +
           (if isProxy i a (wkNewAccounts w) then proxyCredit C i a e else 0)
       \<and> sent a (wkProxyTransfers w') = sent a (wkProxyTransfers w) +
           (if isProxy i a (wkNewAccounts w) then uint (proxyDebit C i a e) else 0)"
proof -
  consider (created) "evType e = ''flow.AccountCreated''" "onAccountCreated C i payer e w = Ok w'"
    | (proxy) "evType e = ixTypProxyCreated i" "onProxyCreated C S i payer e w = Ok w'"
    | (dep) "isProxyEvent i e" "evType e = ixTypProxyDeposited i" "onProxyDeposited C i e w = Ok w'"
    | (xfer) "isProxyEvent i e" "evType e \<noteq> ixTypProxyDeposited i" "evType e = ixTypProxyTransferred i"
        "onProxyTransferred C i e w = Ok w'"
    | (other) "evType e \<noteq> ixTypProxyDeposited i" "evType e \<noteq> ixTypProxyTransferred i" "w' = w"
    using assms(1) by (auto simp: firstPass_def isProxyEvent_def split: if_splits)
  then show ?thesis
  proof cases
    case created
    then have "wkProxyDeposits w' = wkProxyDeposits w" "wkProxyTransfers w' = wkProxyTransfers w"
      by (auto simp: onAccountCreated_def)
    with created show ?thesis by (simp add: proxyCredit_def proxyDebit_def isProxyEvent_def)
  next
    case proxy
    then have "wkProxyDeposits w' = wkProxyDeposits w" "wkProxyTransfers w' = wkProxyTransfers w"
      by (auto simp: onProxyCreated_def split: if_splits)
    with proxy show ?thesis by (simp add: proxyCredit_def proxyDebit_def isProxyEvent_def)
  next
    case dep
    from dep(3) show ?thesis
      by (rule onProxyDeposited_shape) (use dep in \<open>auto simp: proxyCredit_def proxyDebit_def amountFor_def mget_update\<close>)
  next
    case xfer
    from xfer(4) show ?thesis
      by (rule onProxyTransferred_shape) (use xfer in \<open>auto simp: proxyCredit_def proxyDebit_def amountFor_def\<close>)
  next
    case other
    then show ?thesis by (simp add: proxyCredit_def proxyDebit_def)
  qed
qed

lemma firstPasses_amounts:
  "overEvents (firstPass C S i payer) es w = Ok w' \<Longrightarrow> first_ok i w \<Longrightarrow>
   distinct (created C es) \<Longrightarrow> set (created C es) \<inter> mkeys (wkNewAccounts w) = {} \<Longrightarrow>
   isProxy i a (wkNewAccounts w') = isProxy i a (wkNewAccounts w) \<Longrightarrow>
   mget 0 (wkProxyDeposits w') a = mget 0 (wkProxyDeposits w) a +
     (if isProxy i a (wkNewAccounts w) then total (proxyCredit C i a) es else 0) \<and>
   sent a (wkProxyTransfers w') = sent a (wkProxyTransfers w) +
     (if isProxy i a (wkNewAccounts w) then sum_list (map (\<lambda>e. uint (proxyDebit C i a e)) es) else 0)"
proof (induction es arbitrary: w)
  case (Cons e es)
  then obtain w1 where one: "firstPass C S i payer e w = Ok w1"
      and rest: "overEvents (firstPass C S i payer) es w1 = Ok w'" by auto
  have "\<forall>a. createdBy C e = Some a \<longrightarrow> a \<notin> mkeys (wkNewAccounts w)" using Cons.prems(4) by auto
  from firstPass_ok [OF one Cons.prems(2) this] have f: "first_ok i w1" "grows i w w1"
      "mkeys (wkNewAccounts w1) \<subseteq> mkeys (wkNewAccounts w) \<union> set_option (createdBy C e)" by auto
  have fresh: "distinct (created C es)" "set (created C es) \<inter> mkeys (wkNewAccounts w1) = {}"
    using Cons.prems(3,4) f(3) by (cases "createdBy C e"; auto)+
  have "isProxy i a (wkNewAccounts w1) = isProxy i a (wkNewAccounts w)"
    using f(2) firstPasses_ok [OF rest f(1) fresh] Cons.prems(5) by (auto simp: grows_def)
  with Cons.IH [OF rest f(1) fresh] Cons.prems(5) firstPass_amounts [OF one Cons.prems(2), of a]
  show ?case by auto
qed simp

subsection \<open>The shape of the operations\<close>

lemma matchOne_keys:
  assumes "matchOne i acc t dp = Ok dp1"
  shows "mkeys (fst dp1) \<union> mkeys (snd dp1) \<subseteq> mkeys (fst dp) \<union> mkeys (snd dp) \<union> ({ptReceiver t} - {[]})"
  using assms by (auto simp: matchOne_def Let_def split: if_splits)

lemma matchTransfers_keys:
  assumes "matchTransfers i acc ts dp = Ok (dp', ops)"
  shows "mkeys (fst dp') \<union> mkeys (snd dp') \<subseteq>
      mkeys (fst dp) \<union> mkeys (snd dp) \<union> (ptReceiver ` set ts - {[]}) \<and> set ops \<subseteq> proxyOp ` set ts"
  using assms
proof (induction ts arbitrary: dp ops)
  case (Cons t ts)
  show ?case
  proof (cases "ptAmount t = 0")
    case True
    with Cons.prems Cons.IH [of dp ops] show ?thesis by auto
  next
    case False
    with Cons.prems obtain dp1 ops1 where one: "matchOne i acc t dp = Ok dp1"
        and rest: "matchTransfers i acc ts dp1 = Ok (dp', ops1)" "ops = proxyOp t # ops1" by auto
    from matchOne_keys [OF one] Cons.IH [OF rest(1)] rest(2) show ?thesis by auto
  qed
qed simp

lemma remaining_keys:
  "mkeys (snd (remaining m (n, r))) \<subseteq> mkeys r \<union> mkeys m \<and> fst (remaining m (n, r)) \<in> insert n (mkeys m)"
proof (induction m arbitrary: n r)
  case (Cons x m)
  obtain b v where x: "x = (b, v)" by force
  show ?case
    using Cons.IH [of b "mput r b v"] Cons.IH [of n r] by (auto simp: x mkeys_def dom_update)
qed simp

lemma mergeOps_ok:
  assumes ord: "\<And>n. range_order (ord n)"
    and len: "\<forall>a \<in> mkeys dep \<union> mkeys pdep \<union> mkeys wd. length a = 8"
  shows "list_all op_ok (mergeOps ord dep pdep wd)"
proof -
  obtain n0 r0 where r0: "remaining (ord 0 dep) ([], []) = (n0, r0)" by force
  obtain rcv rd where rd: "remaining (ord 1 pdep) (n0, r0) = (rcv, rd)" by force
  obtain snd' rw where rw: "remaining (ord 2 wd) ([], []) = (snd', rw)" by force
  have k0: "mkeys r0 \<subseteq> mkeys dep" "n0 \<in> insert [] (mkeys dep)"
    using remaining_keys [of "ord 0 dep" "[]" "[]"] r0 by (simp_all add: range_order_mkeys [OF ord])
  have k1: "mkeys rd \<subseteq> mkeys dep \<union> mkeys pdep" "rcv \<in> insert [] (mkeys dep \<union> mkeys pdep)"
    using remaining_keys [of "ord 1 pdep" n0 r0] rd k0 by (auto simp: range_order_mkeys [OF ord])
  have k2: "mkeys rw \<subseteq> mkeys wd" "snd' \<in> insert [] (mkeys wd)"
    using remaining_keys [of "ord 2 wd" "[]" "[]"] rw by (simp_all add: range_order_mkeys [OF ord])
  have names: "length rcv \<in> {0, 8}" "length snd' \<in> {0, 8}" using k1(2) k2(2) len by auto
  have lens: "length (fst x) = 8" if "x \<in> set (ord 3 rd) \<union> set (ord 4 rw)" for x
  proof -
    have "fst x \<in> mkeys rd \<union> mkeys rw" using that by (auto simp: range_order_set [OF ord] mkeys_def)
    then show ?thesis using k1(1) k2(1) len by blast
  qed
  from lens have "\<forall>x \<in> set (ord 3 rd). length (fst x) = 8" "\<forall>x \<in> set (ord 4 rw). length (fst x) = 8" by blast+
  then have lst: "list_all op_ok (map (\<lambda>(acct, amount). \<lparr>opAccount = [], opAmount = amount, opProxyPublicKey = [],
                  opReceiver = acct, opType = TRANSFER\<rparr>) (ord 3 rd))"
      "list_all op_ok (map (\<lambda>(acct, amount). \<lparr>opAccount = acct, opAmount = amount, opProxyPublicKey = [],
                  opReceiver = [], opType = TRANSFER\<rparr>) (ord 4 rw))"
    by (simp_all add: list_all_iff op_ok_def split_beta)
  have one: "op_ok \<lparr>opAccount = snd', opAmount = x, opProxyPublicKey = [], opReceiver = rcv, opType = TRANSFER\<rparr>" for x
    using names by (simp add: op_ok_def)
  show ?thesis
    unfolding mergeOps_def r0 rd rw Let_def prod.case list_all_append using lst one by simp
qed

lemma isTracked_length:
  assumes "indexer_ok i" "\<forall>a \<in> mkeys acc. length a = 8" "isTracked i a acc"
  shows "length a = 8"
proof -
  have "a \<in> mkeys (ixAccts i) \<union> mkeys acc \<union> mkeys (ixOriginators i)"
    using assms(3) mget_no_key [of a "ixOriginators i" False]
    by (auto simp: isTracked_def map_of_None_mkeys split: if_splits)
  with assms(1,2) show ?thesis by (auto simp: indexer_ok_def)
qed

lemma feeOps_ok:
  assumes f: "feeOps i payer w = Ok (wd, ops)" and i: "indexer_ok i" and w: "work_ok i w"
  shows "list_all op_ok ops \<and> (\<forall>a \<in> mkeys wd. length a = 8)"
proof (cases "isTracked i payer (wkNewAccounts w)")
  case True
  moreover have "\<forall>a \<in> mkeys (wkNewAccounts w). length a = 8" using w by (simp add: work_ok_defs)
  ultimately have "length payer = 8" using isTracked_length [OF i] by blast
  with f w show ?thesis by (auto simp: feeOps_def op_ok_def work_ok_defs split: if_splits)
next
  case False
  with f w show ?thesis by (auto simp: feeOps_def work_ok_defs)
qed

lemma buildOps_ok:
  assumes ops: "buildOps ord i payer w = Ok ops" and ord: "\<And>n. range_order (ord n)"
    and i: "indexer_ok i" and w: "work_ok i w"
  shows "list_all op_ok ops"
proof -
  from ops obtain wd fops dep pdep pops where f: "feeOps i payer w = Ok (wd, fops)"
    and m: "matchTransfers i (wkNewAccounts w) (wkProxyTransfers w) (wkDeposits w, wkProxyDeposits w)
      = Ok ((dep, pdep), pops)"
    and eq: "ops = createOps w @ fops @ pops @ mergeOps ord dep pdep wd"
    by (auto simp: buildOps_def split: prod.splits)
  note k = matchTransfers_keys [OF m, simplified fst_conv snd_conv]
  have "list_all op_ok (createOps w)" using w by (auto simp: createOps_def list_all_iff op_ok_def work_ok_defs)
  moreover have "op_ok (proxyOp t)" if "t \<in> set (wkProxyTransfers w)" for t
    using that w by (simp add: op_ok_def proxyOp_def work_ok_defs)
  then have "list_all op_ok pops" using k unfolding list_all_iff by blast
  moreover have "\<forall>a \<in> mkeys dep \<union> mkeys pdep. length a = 8"
  proof
    fix a assume "a \<in> mkeys dep \<union> mkeys pdep"
    with k consider "a \<in> mkeys (wkDeposits w) \<union> mkeys (wkProxyDeposits w)"
      | t where "t \<in> set (wkProxyTransfers w)" "a = ptReceiver t" "a \<noteq> []" by blast
    then show "length a = 8" using w by cases (auto simp: work_ok_def lengths_ok_def)
  qed
  ultimately show ?thesis
    using feeOps_ok [OF f i w] mergeOps_ok [of ord dep pdep wd, OF ord] by (auto simp: eq)
qed

subsection \<open>A transaction\<close>

lemma startWork_ok: "\<forall>a \<in> mkeys acc. length a = 8 \<Longrightarrow> first_ok i (startWork acc n)"
  by (simp add: startWork_def first_ok_def work_ok_defs)

lemma processTxn_passes:
  assumes "processTxn ord C S i payer r st = Ok (itx, acc', n')"
    and "\<forall>a \<in> mkeys (fst st). length a = 8"
    and "distinct (created C (trEvents r))" and "set (created C (trEvents r)) \<inter> mkeys (fst st) = {}"
  obtains w1 w2 where "overEvents (firstPass C S i payer) (trEvents r) (startWork (fst st) (snd st)) = Ok w1"
    and "overEvents (secondPass C i) (trEvents r) w1 = Ok w2" and "buildOps ord i payer w2 = Ok (itOperations itx)"
    and "acc' = wkNewAccounts w2" and "wkNewAccounts w2 = wkNewAccounts w1" and "first_ok i w1" and "work_ok i w2"
    and "grows i (startWork (fst st) (snd st)) w1"
    and "mkeys acc' \<subseteq> mkeys (fst st) \<union> set (created C (trEvents r))"
proof -
  from assms(1) obtain w1 w2 where
      p: "overEvents (firstPass C S i payer) (trEvents r) (startWork (fst st) (snd st)) = Ok w1"
        "overEvents (secondPass C i) (trEvents r) w1 = Ok w2" "buildOps ord i payer w2 = Ok (itOperations itx)"
        "acc' = wkNewAccounts w2"
    by (auto simp: processTxn_def)
  have "first_ok i w1 \<and> grows i (startWork (fst st) (snd st)) w1 \<and>
      mkeys (wkNewAccounts w1) \<subseteq> mkeys (fst st) \<union> set (created C (trEvents r))"
    using firstPasses_ok [OF p(1) startWork_ok [OF assms(2)] assms(3)] assms(4) by (simp add: startWork_def)
  moreover from this have "work_ok i w2 \<and> wkNewAccounts w2 = wkNewAccounts w1"
    using secondPasses_ok [OF p(2)] by (simp add: first_ok_def)
  ultimately show thesis using that p by simp
qed

text \<open>
  C2. The operations of a transaction move for every account exactly what its events say. For an
  account that was already a proxy: the proxy deposits to it minus the proxy transfers from it. For an
  account that is not a proxy at the end: the token deposits to it, if it is tracked and no fee
  account, minus the token withdrawals from it, if it is tracked; for an untracked account nothing.
  Fees, matched proxy transfers, and the merging of a single deposit with a single withdrawal into one
  transfer change neither, for any iteration order of Go maps. The hypotheses say that the account
  creations of the transaction name distinct new addresses, which the chain guarantees. Sums of
  amounts are those of the code, in 64 bits.
\<close>

theorem transaction_reconciles:
  assumes "processTxn ord C S i payer r (acc, n) = Ok (itx, acc', n')"
    and ord: "\<And>k. range_order (ord k)" and len: "\<forall>b \<in> mkeys acc. length b = 8"
    and fresh: "distinct (created C (trEvents r))" "set (created C (trEvents r)) \<inter> mkeys acc = {}"
    and a: "a \<noteq> []"
  shows "(isProxy i a acc \<longrightarrow>
            flow_of a (itOperations itx) =
              uint (total (proxyCredit C i a) (trEvents r)) -
              sum_list (map (\<lambda>e. uint (proxyDebit C i a e)) (trEvents r))) \<and>
         (\<not> isProxy i a acc' \<longrightarrow>
            flow_of a (itOperations itx) =
              (if isTracked i a acc' \<and> \<not> mget False (ixFeeAddrs i) a
               then uint (total (credit C i a) (trEvents r)) else 0) -
              (if isTracked i a acc' then uint (total (debit C i a) (trEvents r)) else 0))"
proof -
  obtain w1 w2 where w: "overEvents (firstPass C S i payer) (trEvents r) (startWork acc n) = Ok w1"
      "overEvents (secondPass C i) (trEvents r) w1 = Ok w2" "buildOps ord i payer w2 = Ok (itOperations itx)"
      "acc' = wkNewAccounts w2" "wkNewAccounts w2 = wkNewAccounts w1" "first_ok i w1" "work_ok i w2"
      "grows i (startWork acc n) w1"
    by (rule processTxn_passes [OF assms(1), unfolded fst_conv snd_conv, OF len fresh])
  let ?w0 = "startWork acc n"
  have s0: "first_ok i ?w0" "wkNewAccounts ?w0 = acc" "wkProxyDeposits ?w0 = []" "wkProxyTransfers ?w0 = []"
    using startWork_ok [OF len] by (simp_all add: startWork_def)
  have flow: "flow_of a (itOperations itx) = uint (mget 0 (wkDeposits w2) a) + uint (mget 0 (wkProxyDeposits w2) a)
      - uint (mget 0 (wkWithdrawals w2) a) - sent a (wkProxyTransfers w2)"
    using w(7) by (intro buildOps_flow [OF w(3) ord a]) (auto simp: work_ok_defs)
  note snd = secondPasses_amounts [OF w(2), of a]
  have first: "mget 0 (wkProxyDeposits w1) a = (if isProxy i a acc then total (proxyCredit C i a) (trEvents r) else 0) \<and>
      sent a (wkProxyTransfers w1) =
        (if isProxy i a acc then sum_list (map (\<lambda>e. uint (proxyDebit C i a e)) (trEvents r)) else 0)"
    if "isProxy i a acc' = isProxy i a acc"
    using firstPasses_amounts [OF w(1) s0(1) fresh(1), of a] that fresh(2) w(4,5)
    by (simp add: s0 sent_def)
  have grow: "isProxy i a acc \<Longrightarrow> isProxy i a acc'" using w(4,5,8) s0(2) by (simp add: grows_def)
  have tok: "wkDeposits w1 = []" "wkWithdrawals w1 = []" using w(6) by (simp_all add: first_ok_def)
  show ?thesis
  proof (intro conjI impI)
    assume "isProxy i a acc"
    with grow have "isProxy i a acc'" by simp
    with first \<open>isProxy i a acc\<close> snd tok w(4,5) flow show "flow_of a (itOperations itx) =
              uint (total (proxyCredit C i a) (trEvents r)) -
              sum_list (map (\<lambda>e. uint (proxyDebit C i a e)) (trEvents r))"
      by (simp add: counted_def)
  next
    assume "\<not> isProxy i a acc'"
    with grow have "\<not> isProxy i a acc" by blast
    with first \<open>\<not> isProxy i a acc'\<close> snd tok w(4,5) flow show "flow_of a (itOperations itx) =
              (if isTracked i a acc' \<and> \<not> mget False (ixFeeAddrs i) a
               then uint (total (credit C i a) (trEvents r)) else 0) -
              (if isTracked i a acc' then uint (total (debit C i a) (trEvents r)) else 0)"
      by (simp add: counted_def)
  qed
qed

lemma processTxn_ok:
  assumes "processTxn ord C S i payer r (acc, n) = Ok (itx, acc', n')" and "indexer_ok i"
    and "\<And>k. range_order (ord k)" and "\<forall>b \<in> mkeys acc. length b = 8"
    and "distinct (created C (trEvents r))" "set (created C (trEvents r)) \<inter> mkeys acc = {}"
  shows "list_all op_ok (itOperations itx) \<and> (\<forall>b \<in> mkeys acc'. length b = 8) \<and>
    mkeys acc' \<subseteq> mkeys acc \<union> set (created C (trEvents r))"
proof -
  obtain w2 where "buildOps ord i payer w2 = Ok (itOperations itx)" "acc' = wkNewAccounts w2" "work_ok i w2"
      "mkeys acc' \<subseteq> mkeys acc \<union> set (created C (trEvents r))"
    by (rule processTxn_passes [OF assms(1), unfolded fst_conv snd_conv, OF assms(4-6)])
  then show ?thesis using buildOps_ok [of ord, OF _ assms(3,2)] by (simp add: work_ok_defs)
qed

text \<open>
  C28. Every operation of a processed transaction has the shape the index relies on: a known type, an
  account of eight bytes for a creation, and addresses of eight bytes or none elsewhere. This is the
  hypothesis on blocks under which indexing is proved correct.
\<close>

theorem operations_well_formed:
  assumes "processTxn ord C S i payer r (acc, n) = Ok (itx, acc', n')" and "indexer_ok i"
    and "\<And>k. range_order (ord k)" and "\<forall>b \<in> mkeys acc. length b = 8"
    and "distinct (created C (trEvents r))" "set (created C (trEvents r)) \<inter> mkeys acc = {}"
  shows "list_all op_ok (itOperations itx) \<and> (\<forall>b \<in> mkeys acc'. length b = 8)"
  using processTxn_ok [OF assms] by simp

subsection \<open>A concrete transaction\<close>

text \<open>Alice receives 50 that Bob pays, and Bob pays a fee of 2.\<close>

definition sampleCadence :: cadence_env where
  "sampleCadence =
     \<lparr>ccfHasMsgPrefix = (\<lambda>_. False), ccfDecode = (\<lambda>_. Inl ''no CCF''),
      jsonDecode = (\<lambda>p.
        if p = [1] then Inr (CEvent [(''amount'', CUFix64 50), (''to'', COptional (Some (CAddress alice)))])
        else if p = [2] then Inr (CEvent [(''amount'', CUFix64 52), (''from'', COptional (Some (CAddress bob)))])
        else if p = [3] then Inr (CEvent [(''amount'', CUFix64 2), (''to'', COptional (Some (CAddress [9])))])
        else Inl ''bad payload''),
      addressField = ''address'', publicKeyField = ''publicKey''\<rparr>"

definition sampleIndexer :: Indexer where
  "sampleIndexer =
     \<lparr>ixAccts = [(alice, False), (bob, False)], ixFeeAddrs = [(pad 8 [9], True)],
      ixLastIndexed = Some \<lparr>bmHash = [9], bmHeight = 5, bmParent = [], bmTimestamp = 1\<rparr>, ixLiveRoot = None,
      ixOriginators = [], ixRoot = None, ixSealedResults = [], ixSynced = False, ixTypProxyCreated = ''PC'',
      ixTypProxyDeposited = ''PD'', ixTypProxyTransferred = ''PT'', ixTypTokensDeposited = ''TD'',
      ixTypTokensWithdrawn = ''TW''\<rparr>"

definition sampleEvent :: "string \<Rightarrow> byte \<Rightarrow> Event" where
  "sampleEvent typ p =
     \<lparr>evType = typ, evTransactionId = [7], evTransactionIndex = 0, evEventIndex = 0, evPayload = [p]\<rparr>"

definition sampleTxnResult :: TransactionResult where
  "sampleTxnResult =
     \<lparr>trTransactionId = [7], trBlockId = [10], trCollectionId = [], trStatusCode = 0, trErrorMessage = [],
      trEvents = [sampleEvent ''TW'' 2, sampleEvent ''TD'' 1, sampleEvent ''TD'' 3]\<rparr>"

definition sampleTxn :: IndexedTransaction where
  "sampleTxn =
     \<lparr>itErrorMessage = [],
      itEvents = [\<lparr>teAmount = 52, teReceiver = [], teSender = bob, teType = WITHDRAWAL\<rparr>,
                  \<lparr>teAmount = 50, teReceiver = alice, teSender = [], teType = DEPOSIT\<rparr>,
                  \<lparr>teAmount = 2, teReceiver = pad 8 [9], teSender = [], teType = DEPOSIT\<rparr>],
      itFailed = False, itHash = [7],
      itOperations = [\<lparr>opAccount = bob, opAmount = 2, opProxyPublicKey = [], opReceiver = [], opType = FEE\<rparr>,
                      transferOp bob alice 50]\<rparr>"

lemma sampleTxn_processed:
  "processTxn (\<lambda>n m. m) sampleCadence sampleSecp sampleIndexer bob sampleTxnResult ([], 0) = Ok (sampleTxn, [], 0)"
  by code_simp

lemma sampleTxn_created: "created sampleCadence (trEvents sampleTxnResult) = []"
  by (simp add: sampleTxnResult_def createdBy_def sampleEvent_def)

theorem transaction_reconciles_witness:
  "processTxn (\<lambda>n m. m) sampleCadence sampleSecp sampleIndexer bob sampleTxnResult ([], 0) = Ok (sampleTxn, [], 0) \<and>
   flow_of bob (itOperations sampleTxn) =
     uint (total (credit sampleCadence sampleIndexer bob) (trEvents sampleTxnResult)) -
     uint (total (debit sampleCadence sampleIndexer bob) (trEvents sampleTxnResult))"
proof -
  have "\<not> isProxy sampleIndexer bob [] \<and> isTracked sampleIndexer bob [] \<and> \<not> mget False (ixFeeAddrs sampleIndexer) bob"
    by code_simp
  moreover have "bob \<noteq> []" by (simp add: bob_def)
  ultimately show ?thesis
    using transaction_reconciles [OF sampleTxn_processed, of bob] sampleTxn_processed
    by (simp add: sampleTxn_created)
qed

theorem operations_well_formed_witness: "list_all op_ok (itOperations sampleTxn)"
proof -
  have "indexer_ok sampleIndexer"
    by (simp add: indexer_ok_def sampleIndexer_def mkeys_def alice_def bob_def)
  from operations_well_formed [OF sampleTxn_processed this] show ?thesis by (simp add: sampleTxn_created)
qed

end
