(* ===== verification/ProcessProps.thy ===== *)
theory ProcessProps
  imports Process Accounting
begin

section \<open>Properties of block processing\<close>

text \<open>
  What holds of every block that \<open>processBlock\<close> indexes: its data is attested by a sealed execution
  result, it extends the chain of the store by one well-formed block, and transient failures of the
  servers do not stop it.
\<close>

subsection \<open>The parts of a successful attempt\<close>

lemma Index_Err_same: "Index E ord s height hash b = (s', Err e) \<Longrightarrow> s' = s"
  by (auto simp: Index_def Let_def split: option.splits outcome.splits if_splits prod.splits)

lemma indexLoop_Ok:
  "indexLoop n A E iord s height hash data t = Ok (s', t') \<Longrightarrow>
   \<exists>k. Index E (iord k) s height hash data = (s', Ok ())"
proof (induction n arbitrary: t)
  case (Suc n)
  obtain s1 r where ix: "Index E (iord t) s height hash data = (s1, r)" by force
  with Suc show ?case
    by (cases r) (auto dest: Index_Err_same split: if_splits)
qed simp

lemma orAgain_Ok [simp]: "orAgain pv m = Ok x \<longleftrightarrow> m = Ok x"
  by (simp add: orAgain_def)

lemma checkedUnsealed_Ok:
  assumes "checkedUnsealed G chain i spork height hash ehs exec pv = Ok pv'"
  shows "skipBlock chain hash \<or> (\<exists>u. integrity G chain i spork height hash ehs exec = Ok u)"
  using assms by (auto simp: checkedUnsealed_def split: if_splits)

lemma attemptBlock_Ok:
  assumes "attemptBlock F W chain spork height hash i s pv0 = Ok (i', s', t')"
  obtains block cols pv pv1 ehs exec itxs acc n pv3 pv4 where
      "acBlockByHeight (wAccess W) (pvTime pv0) (pvSkipCache pv0) height = Inr block"
      "blockCollections F (wAccess W) chain spork height hash block pv = Ok (cols, pv1)"
      "deriveEventHashes (wGo W) spork height cols = Ok ehs"
      "skipBlock chain hash \<or> (\<exists>u. integrity (wGo W) chain i spork height hash ehs exec = Ok u)"
      "allTxns (wRange W) (wAccess W) (wCadence W) (wCurve W) i (skipBlock chain hash) hash cols ([], [], 0) pv3
         = Ok ((itxs, acc, n), pv4)"
      "indexLoop F (wAccess W) (wEnv W) (wIndexRange W) s height hash
         \<lparr>ibTimestamp = unixNano (ebTimestamp block), ibTransactions = itxs\<rparr> (pvTime pv4) = Ok (s', t')"
      "finishBlock i acc height hash = Ok i'"
proof -
  from assms obtain block where b: "acBlockByHeight (wAccess W) (pvTime pv0) (pvSkipCache pv0) height = Inr block"
    by (auto simp: attemptBlock_def Let_def split: sum.splits)
  from assms obtain cols pv1 ehs exec t2 pv3 itxs acc n pv4 where
      p: "blockCollections F (wAccess W) chain spork height hash block (tick pv0) = Ok (cols, pv1)"
      "deriveEventHashes (wGo W) spork height cols = Ok ehs"
      "checkedUnsealed (wGo W) chain i spork height hash ehs exec (pv1\<lparr>pvTime := t2\<rparr>) = Ok pv3"
      "allTxns (wRange W) (wAccess W) (wCadence W) (wCurve W) i (skipBlock chain hash) hash cols ([], [], 0) pv3
         = Ok ((itxs, acc, n), pv4)"
      "indexLoop F (wAccess W) (wEnv W) (wIndexRange W) s height hash
         \<lparr>ibTimestamp = unixNano (ebTimestamp block), ibTransactions = itxs\<rparr> (pvTime pv4) = Ok (s', t')"
      "finishBlock i acc height hash = Ok i'"
    by (auto simp: attemptBlock_def Let_def b)
  show thesis by (rule that [OF b p(1,2) checkedUnsealed_Ok [OF p(3)] p(4-6)])
qed

lemma attempts_Ok:
  "attempts n F W chain spork height hash i s pv = Ok r \<Longrightarrow>
   \<exists>pv'. attemptBlock F W chain spork height hash i s pv' = Ok r"
proof (induction n arbitrary: pv)
  case (Suc n)
  show ?case
  proof (cases "\<exists>pv'. attemptBlock F W chain spork height hash i s pv = Err (Again pv')")
    case True
    with Suc show ?thesis by (auto split: if_splits)
  next
    case False
    then have "attempts (Suc n) F W chain spork height hash i s pv =
        (if acDone (wAccess W) (pvTime pv) then Err (Stopped (pvTime pv))
         else attemptBlock F W chain spork height hash i s pv)"
      by (auto split: outcome.splits exit.splits)
    with Suc.prems show ?thesis by (auto split: if_splits)
  qed
qed simp

subsection \<open>Attested data\<close>

text \<open>
  The events of the collections hash to the event collections of the chunks of an execution result,
  and its identifier is the sealed one; the root block of a later spork seals itself, and within the
  tolerance before the next spork the seal may be missing.
\<close>

definition attested ::
  "flowgo \<Rightarrow> Chain \<Rightarrow> Indexer \<Rightarrow> Spork \<Rightarrow> u64 \<Rightarrow> bytes \<Rightarrow> collectionData list \<Rightarrow> ExecutionResult \<Rightarrow> bool" where
  "attested G chain i spork height hash cols exec \<longleftrightarrow>
     (\<exists>ehs r rid.
        deriveEventHashes G spork height cols = Ok ehs \<and>
        map (map_option ckEventCollection) (exChunks exec) = map Some ehs \<and>
        convertExecutionResult G (spVersion spork) exec = Ok r \<and>
        deriveExecutionResult G (spVersion spork) r = Ok rid \<and>
        (selfSealed spork height \<or> map_of (ixSealedResults i) hash = Some rid \<or>
         (map_of (ixSealedResults i) hash = None \<and>
          (\<exists>n. spNext spork = Some n \<and>
               spRootBlock (chSporks chain ! n) - chSporkSealTolerance chain \<le> height))))"

lemma checkChunks_Ok:
  "length cks = length ehs \<Longrightarrow> checkChunks ehs cks = Ok () \<longleftrightarrow> map (map_option ckEventCollection) cks = map Some ehs"
  by (induction ehs cks rule: list_induct2') (auto split: option.splits)

lemma integrity_attested:
  assumes "deriveEventHashes G spork height cols = Ok ehs"
    and "integrity G chain i spork height hash ehs exec = Ok u"
  shows "attested G chain i spork height hash cols exec"
proof -
  from assms(2) have len: "length (exChunks exec) = length ehs"
    by (auto simp: integrity_def split: if_splits)
  from assms(2) obtain r rid where r: "checkChunks ehs (exChunks exec) = Ok ()"
      "convertExecutionResult G (spVersion spork) exec = Ok r"
      "deriveExecutionResult G (spVersion spork) r = Ok rid"
      "checkSealed chain i spork height hash rid = Ok u"
    by (auto simp: integrity_def split: if_splits)
  from r(4) have "selfSealed spork height \<or> map_of (ixSealedResults i) hash = Some rid \<or>
         (map_of (ixSealedResults i) hash = None \<and>
          (\<exists>n. spNext spork = Some n \<and>
               spRootBlock (chSporks chain ! n) - chSporkSealTolerance chain \<le> height))"
    by (auto simp: checkSealed_def split: if_splits option.splits)
  with r len assms(1) checkChunks_Ok show ?thesis unfolding attested_def by blast
qed

text \<open>
  C5. A block that is indexed and not on the configured skip list is attested: the events of the
  collections it was built from hash, collection by collection, to the event hashes in the chunks of
  an execution result whose identifier is the sealed one for the block hash (or the block is the
  self-sealed root of a later spork, or within the configured tolerance before the next spork), and
  the store is the result of indexing exactly the transactions derived from those collections.
\<close>

theorem indexed_blocks_attested:
  assumes "processBlock F W chain spork height hash i s t = Ok (i', s', t')" and "\<not> skipBlock chain hash"
  shows "\<exists>cols exec itxs acc n pv pv' ts k.
     attested (wGo W) chain i spork height hash cols exec \<and>
     allTxns (wRange W) (wAccess W) (wCadence W) (wCurve W) i False hash cols ([], [], 0) pv = Ok ((itxs, acc, n), pv') \<and>
     Index (wEnv W) (wIndexRange W k) s height hash \<lparr>ibTimestamp = ts, ibTransactions = itxs\<rparr> = (s', Ok ()) \<and>
     finishBlock i acc height hash = Ok i'"
proof -
  from attempts_Ok assms(1) obtain pv where "attemptBlock F W chain spork height hash i s pv = Ok (i', s', t')"
    unfolding processBlock_def by blast
  then show ?thesis
  proof (rule attemptBlock_Ok)
    fix block cols pv pv1 ehs exec itxs acc n pv3 pv4
    assume a: "deriveEventHashes (wGo W) spork height cols = Ok ehs"
      "skipBlock chain hash \<or> (\<exists>u. integrity (wGo W) chain i spork height hash ehs exec = Ok u)"
      "allTxns (wRange W) (wAccess W) (wCadence W) (wCurve W) i (skipBlock chain hash) hash cols ([], [], 0) pv3
         = Ok ((itxs, acc, n), pv4)"
      "indexLoop F (wAccess W) (wEnv W) (wIndexRange W) s height hash
         \<lparr>ibTimestamp = unixNano (ebTimestamp block), ibTransactions = itxs\<rparr> (pvTime pv4) = Ok (s', t')"
      "finishBlock i acc height hash = Ok i'"
    have "attested (wGo W) chain i spork height hash cols exec"
      using a(1,2) assms(2) integrity_attested by blast
    moreover have "allTxns (wRange W) (wAccess W) (wCadence W) (wCurve W) i False hash cols ([], [], 0) pv3
        = Ok ((itxs, acc, n), pv4)" using a(3) assms(2) by simp
    ultimately show ?thesis using indexLoop_Ok [OF a(4)] a(5) by blast
  qed
qed

subsection \<open>Outages\<close>

lemma attempts_outage:
  assumes "\<forall>j < k. \<not> acDone (wAccess W) (t + j) \<and> (\<exists>e. acBlockByHeight (wAccess W) (t + j) sk height = Inl e)"
    and "\<not> acDone (wAccess W) (t + k)" and "k < n"
    and "attemptBlock F W chain spork height hash i s (pv\<lparr>pvTime := t + k, pvSkipCache := sk\<rparr>) = Ok r"
  shows "attempts n F W chain spork height hash i s (pv\<lparr>pvTime := t, pvSkipCache := sk\<rparr>) = Ok r"
  using assms
proof (induction k arbitrary: n t)
  case 0
  then show ?case by (cases n) simp_all
next
  case (Suc k)
  then obtain m where n: "n = Suc m" "k < m" by (cases n) auto
  from Suc.prems(1) obtain e where e: "acBlockByHeight (wAccess W) t sk height = Inl e" "\<not> acDone (wAccess W) t"
    by (metis add.right_neutral zero_less_Suc)
  have "attemptBlock F W chain spork height hash i s (pv\<lparr>pvTime := t, pvSkipCache := sk\<rparr>) =
      Err (Again (pv\<lparr>pvTime := Suc t, pvSkipCache := sk\<rparr>))"
    by (simp add: attemptBlock_def Let_def e tick_def)
  moreover have "attempts m F W chain spork height hash i s (pv\<lparr>pvTime := Suc t, pvSkipCache := sk\<rparr>) = Ok r"
    using Suc.prems n(2) by (intro Suc.IH) (auto dest: spec [of _ "Suc _"])
  ultimately show ?case by (simp add: n e(2))
qed

text \<open>
  C25. An outage of any finite length in which the block cannot be fetched does not lose the block: if
  the attempt after the outage succeeds, so does \<^verbatim>\<open>processBlock\<close>, with the same result; the fuel
  needed is one more than the number of failed calls. The condition is that the context is not
  cancelled meanwhile.
\<close>

theorem process_block_survives_outage:
  assumes "\<forall>j < k. \<not> acDone (wAccess W) (t + j) \<and> (\<exists>e. acBlockByHeight (wAccess W) (t + j) False height = Inl e)"
    and "\<not> acDone (wAccess W) (t + k)" and "k < F"
    and "attemptBlock F W chain spork height hash i s (startVars (t + k)) = Ok r"
  shows "processBlock F W chain spork height hash i s t = Ok r"
proof -
  have sv: "startVars n = (startVars 0)\<lparr>pvTime := n, pvSkipCache := False\<rparr>" for n
    by (simp add: startVars_def)
  show ?thesis
    unfolding processBlock_def sv [of t]
    using assms attempts_outage [where pv = "startVars 0" and sk = False] sv by metis
qed

subsection \<open>A processed block extends the chain\<close>

definition creationsOf :: "cadence_env \<Rightarrow> TransactionResult list \<Rightarrow> bytes list" where
  "creationsOf C rs = concat (map (\<lambda>r. created C (trEvents r)) rs)"

lemma creationsOf_simps [simp]:
  "creationsOf C [] = []" "creationsOf C (r # rs) = created C (trEvents r) @ creationsOf C rs"
  "creationsOf C (rs @ qs) = creationsOf C rs @ creationsOf C qs"
  by (simp_all add: creationsOf_def)

text \<open>The transactions so far are well-formed, and the new accounts are addresses.\<close>

definition accum_ok :: "accum \<Rightarrow> bool" where
  "accum_ok acc \<longleftrightarrow>
     (\<forall>t \<in> set (fst acc). list_all op_ok (itOperations t)) \<and> (\<forall>b \<in> mkeys (fst (snd acc)). length b = 8)"

lemma colTxns_ok:
  assumes "indexer_ok i" and "\<And>t k. range_order (ord t k)"
  shows "colTxns ord A C S i skip hash txns rs idx acc pv = Ok (acc', pv') \<Longrightarrow> accum_ok acc \<Longrightarrow>
     distinct (creationsOf C rs) \<Longrightarrow> set (creationsOf C rs) \<inter> mkeys (fst (snd acc)) = {} \<Longrightarrow>
     accum_ok acc' \<and> mkeys (fst (snd acc')) \<subseteq> mkeys (fst (snd acc)) \<union> set (creationsOf C rs)"
proof (induction rs arbitrary: idx acc pv)
  case (Cons r rs)
  obtain itxs na n where acc: "acc = (itxs, na, n)" by (cases acc) auto
  have rest_fresh: "distinct (creationsOf C rs)" "set (creationsOf C rs) \<inter> mkeys na = {}"
    and this_fresh: "distinct (created C (trEvents r))" "set (created C (trEvents r)) \<inter> mkeys na = {}"
    and apart: "set (creationsOf C rs) \<inter> set (created C (trEvents r)) = {}"
    using Cons.prems(3,4) by (auto simp: acc)
  show ?case
  proof (cases "trBlockId r \<noteq> hash")
    case True
    with Cons.prems(1) have "colTxns ord A C S i skip hash txns rs (Suc idx) acc (tick pv) = Ok (acc', pv')"
      by (auto simp: againSkip_def split: if_splits)
    from Cons.IH [OF this Cons.prems(2)] rest_fresh show ?thesis by (auto simp: acc)
  next
    case False
    with Cons.prems(1) obtain payer itx na1 n1 where
        p: "processTxn (ord (pvTime pv)) C S i payer r (na, n) = Ok (itx, na1, n1)"
        and rest: "colTxns ord A C S i skip hash txns rs (Suc idx) (itxs @ [itx], na1, n1) (tick pv) = Ok (acc', pv')"
      by (auto simp: acc split: if_splits)
    have "\<forall>b \<in> mkeys na. length b = 8" using Cons.prems(2) by (simp add: acc accum_ok_def)
    note ok = processTxn_ok [OF p assms(1) assms(2) this this_fresh]
    have "accum_ok (itxs @ [itx], na1, n1)" using ok Cons.prems(2) by (auto simp: acc accum_ok_def)
    moreover have "set (creationsOf C rs) \<inter> mkeys na1 = {}" using ok rest_fresh(2) apart by blast
    ultimately show ?thesis
      using Cons.IH [OF rest _ rest_fresh(1)] ok by (auto simp: acc)
  qed
qed simp

definition colResults :: "collectionData list \<Rightarrow> TransactionResult list" where
  "colResults cols = concat (map cdTxnResults cols)"

lemma allTxns_ok:
  assumes "indexer_ok i" and "\<And>t k. range_order (ord t k)"
  shows "allTxns ord A C S i skip hash cols acc pv = Ok (acc', pv') \<Longrightarrow> accum_ok acc \<Longrightarrow>
     distinct (creationsOf C (colResults cols)) \<Longrightarrow>
     set (creationsOf C (colResults cols)) \<inter> mkeys (fst (snd acc)) = {} \<Longrightarrow> accum_ok acc'"
proof (induction cols arbitrary: acc pv)
  case (Cons col cols)
  then obtain acc1 pv1 where one: "colTxns ord A C S i skip hash (cdTxns col) (cdTxnResults col) 0 acc pv = Ok (acc1, pv1)"
      and rest: "allTxns ord A C S i skip hash cols acc1 pv1 = Ok (acc', pv')" by auto
  have all: "creationsOf C (colResults (col # cols)) =
      creationsOf C (cdTxnResults col) @ creationsOf C (colResults cols)" by (simp add: colResults_def)
  have f: "distinct (creationsOf C (cdTxnResults col))" "distinct (creationsOf C (colResults cols))"
      "set (creationsOf C (cdTxnResults col)) \<inter> mkeys (fst (snd acc)) = {}"
      "set (creationsOf C (colResults cols)) \<inter> mkeys (fst (snd acc)) = {}"
      "set (creationsOf C (cdTxnResults col)) \<inter> set (creationsOf C (colResults cols)) = {}"
    using Cons.prems(3,4) unfolding all by auto
  note c = colTxns_ok [OF assms one Cons.prems(2) f(1,3)]
  have "set (creationsOf C (colResults cols)) \<inter> mkeys (fst (snd acc1)) = {}" using c f(4,5) by blast
  with Cons.IH [OF rest _ f(2)] c show ?case by blast
qed simp

lemma finishBlock_ok:
  assumes "finishBlock i acc height hash = Ok i'" and "indexer_ok i" and "\<forall>b \<in> mkeys acc. length b = 8"
  shows "indexer_ok i'" and "\<exists>m. ixLastIndexed i' = Some m \<and> bmHash m = hash \<and> bmHeight m = height"
proof -
  have keys: "mkeys (fold (\<lambda>(a, p) m. mput m a p) xs m) = mkeys xs \<union> mkeys m" for xs and m :: "(bytes, bool) gomap"
  proof (induction xs arbitrary: m)
    case (Cons x xs)
    have "mkeys (x # xs) = insert (fst x) (mkeys xs)" by (simp add: mkeys_def)
    with Cons [of "mput m (fst x) (snd x)"] show ?case by (simp add: split_beta)
  qed simp
  from assms show "indexer_ok i'"
    by (auto simp: finishBlock_def indexer_ok_def keys split: option.splits)
  from assms show "\<exists>m. ixLastIndexed i' = Some m \<and> bmHash m = hash \<and> bmHeight m = height"
    by (auto simp: finishBlock_def split: option.splits)
qed

lemma Index_Ok_encoded:
  assumes "Index E ord s (bmHeight l + 1) hash b = (s', Ok ())" and "latest s = Some l"
    and "bmHeight l < bmHeight l + 1"
  shows "encoded (marshalBlock E b) \<noteq> None"
proof (cases "marshalBlock E b")
  case (Inl e)
  have "snd (Index E ord s (bmHeight l + 1) hash b) \<noteq> Ok ()"
    using assms(2,3)
    by (cases "indexOps (bmHeight l + 1) (blockOps b) ([], [])") (auto simp: Index_def Inl)
  with assms(1) show ?thesis by simp
qed simp

text \<open>
  The collections that the servers give for a block create distinct accounts: an address is created
  once on the chain.
\<close>

definition fresh_accounts :: "nat \<Rightarrow> ('db, 'k, 's) world \<Rightarrow> Chain \<Rightarrow> Spork \<Rightarrow> u64 \<Rightarrow> bytes \<Rightarrow> bool" where
  "fresh_accounts F W chain spork height hash \<longleftrightarrow>
     (\<forall>n sk block pv cols pv'. acBlockByHeight (wAccess W) n sk height = Inr block \<longrightarrow>
        blockCollections F (wAccess W) chain spork height hash block pv = Ok (cols, pv') \<longrightarrow>
        distinct (creationsOf (wCadence W) (colResults cols)))"

lemma processBlock_Index:
  assumes run: "processBlock F W chain spork height hash i s t = Ok (i', s', t')"
    and ord: "\<And>n k. range_order (wRange W n k)"
    and i: "indexer_ok i" and fresh: "fresh_accounts F W chain spork height hash"
  obtains b k where "Index (wEnv W) (wIndexRange W k) s height hash b = (s', Ok ())" "block_ok b" "indexer_ok i'"
    "\<exists>m. ixLastIndexed i' = Some m \<and> bmHash m = hash \<and> bmHeight m = height" "ixLiveRoot i' = ixLiveRoot i"
proof -
  from attempts_Ok run obtain pv where "attemptBlock F W chain spork height hash i s pv = Ok (i', s', t')"
    unfolding processBlock_def by blast
  then show ?thesis
  proof (rule attemptBlock_Ok)
    fix block cols pv pv0 pv1 ehs exec itxs acc n pv3 pv4
    assume b: "acBlockByHeight (wAccess W) (pvTime pv0) (pvSkipCache pv0) height = Inr block"
      and bc: "blockCollections F (wAccess W) chain spork height hash block pv = Ok (cols, pv1)"
      and tx: "allTxns (wRange W) (wAccess W) (wCadence W) (wCurve W) i (skipBlock chain hash) hash cols ([], [], 0) pv3
         = Ok ((itxs, acc, n), pv4)"
      and ix: "indexLoop F (wAccess W) (wEnv W) (wIndexRange W) s height hash
         \<lparr>ibTimestamp = unixNano (ebTimestamp block), ibTransactions = itxs\<rparr> (pvTime pv4) = Ok (s', t')"
      and fin: "finishBlock i acc height hash = Ok i'"
    have "distinct (creationsOf (wCadence W) (colResults cols))"
      using fresh b bc unfolding fresh_accounts_def by blast
    with allTxns_ok [OF i ord tx] have acc: "accum_ok (itxs, acc, n)" by (simp add: accum_ok_def)
    moreover from acc have "block_ok \<lparr>ibTimestamp = unixNano (ebTimestamp block), ibTransactions = itxs\<rparr>"
      by (auto simp: accum_ok_def block_ok_def blockOps_def list_all_iff)
    moreover have "ixLiveRoot i' = ixLiveRoot i" using fin by (auto simp: finishBlock_def split: option.splits)
    ultimately show ?thesis
      using indexLoop_Ok [OF ix] finishBlock_ok [OF fin i] that unfolding accum_ok_def by fastforce
  qed
qed

lemma Index_extends:
  assumes k: "Index E ord s height hash b = (s', Ok ())" and rep: "represents E s g l bs" "latest s = Some l"
    and h: "height = bmHeight l + 1" and new: "hash \<notin> fst ` set (chainOf g bs)" "Suc (tipHeight g bs) < 2 ^ 64"
    and ord: "range_order ord" and b: "block_ok b"
  obtains l' where "represents E s' g l' (bs @ [(hash, b)])" "latest s' = Some l'" "bmHeight l' = height" "covered g bs b"
proof -
  have "bmHeight l < bmHeight l + 1" using next_height [OF rep(1) new(2)] by blast
  with k h Index_Ok_encoded [OF _ rep(2)] have enc: "encoded (marshalBlock E b) \<noteq> None" by metis
  note ixr = Index_represents [OF rep ord b enc new]
  show ?thesis
  proof (cases "\<forall>a. length a = 8 \<longrightarrow> 0 \<le> sint (balanceAt g bs a (tipHeight g bs) + blockDiff a b)")
    case True
    with ixr k h have "represents E s' g (metaOf height hash b) (bs @ [(hash, b)])"
        "latest s' = Some (metaOf height hash b)" by auto
    moreover have "covered g bs b" using True covered_all [OF represents_chain [OF rep(1)]] by blast
    ultimately show ?thesis using that by (simp add: metaOf_def)
  next
    case False
    with ixr k h show ?thesis by auto
  qed
qed

text \<open>
  C8. Processing the next block extends the chain of the store by exactly that block: from a store that
  represents a chain, a successful \<^verbatim>\<open>processBlock\<close> for the height after its tip leaves a store
  that represents the chain with the block hash and some well-formed block appended, with no balance
  negative; the indexer remembers the block as the last one and still knows only addresses of eight
  bytes. The hypotheses are that the hash is new, the height stays below \<open>2 ^ 64\<close>, and an address is
  created once.
\<close>

theorem process_block_extends_chain:
  assumes run: "processBlock F W chain spork height hash i s t = Ok (i', s', t')"
    and rep: "represents (wEnv W) s g l bs" "latest s = Some l" and h: "height = bmHeight l + 1"
    and new: "hash \<notin> fst ` set (chainOf g bs)" "Suc (tipHeight g bs) < 2 ^ 64"
    and ord: "\<And>n k. range_order (wRange W n k)" "\<And>n. range_order (wIndexRange W n)"
    and i: "indexer_ok i" and fresh: "fresh_accounts F W chain spork height hash"
  shows "\<exists>b l'. represents (wEnv W) s' g l' (bs @ [(hash, b)]) \<and> latest s' = Some l' \<and> bmHeight l' = height \<and>
     block_ok b \<and> covered g bs b \<and> indexer_ok i' \<and>
     (\<exists>m. ixLastIndexed i' = Some m \<and> bmHash m = hash \<and> bmHeight m = height)"
proof -
  obtain b k where b: "Index (wEnv W) (wIndexRange W k) s height hash b = (s', Ok ())" "block_ok b" "indexer_ok i'"
      "\<exists>m. ixLastIndexed i' = Some m \<and> bmHash m = hash \<and> bmHeight m = height"
    by (rule processBlock_Index [OF run ord(1) i fresh])
  from Index_extends [OF b(1) rep h new ord(2) b(2)] b show ?thesis by metis
qed

subsection \<open>The two ways of fetching a block agree\<close>

type_synonym group = "bytes \<times> (Transaction \<times> TransactionResult) list"

definition toCollection :: "bool \<Rightarrow> (Transaction \<times> TransactionResult) list \<Rightarrow> collectionData" where
  "toCollection sys txs = \<lparr>cdSystem = sys, cdTxns = map fst txs, cdTxnResults = map snd txs\<rparr>"

definition members :: "group list \<Rightarrow> (Transaction \<times> TransactionResult) list" where
  "members gs = concat (map snd gs)"

text \<open>A group is not empty and its results name its collection; neighbours are different collections.\<close>

definition grouped :: "group list \<Rightarrow> bool" where
  "grouped gs \<longleftrightarrow>
     (\<forall>g \<in> set gs. snd g \<noteq> [] \<and> (\<forall>x \<in> set (snd g). trCollectionId (snd x) = fst g)) \<and>
     distinct_adj (map fst gs)"

lemma group_same:
  "\<forall>x \<in> set xs. trCollectionId (snd x) = c \<Longrightarrow> drop idx txns = map fst xs @ ms \<Longrightarrow>
   groupResults txns (map snd xs @ rest) idx c (cols @ [toCollection False ys]) =
   groupResults txns rest (idx + length xs) c (cols @ [toCollection False (ys @ xs)])"
proof (induction xs arbitrary: idx ys)
  case (Cons x xs)
  have i: "idx < length txns" using Cons.prems(2) by (metis append_Cons drop_eq_Nil2 list.distinct(1) list.simps(9) not_le)
  then have "txns ! idx = fst x \<and> drop (Suc idx) txns = map fst xs @ ms"
    using Cons.prems(2) by (metis Cons_nth_drop_Suc append_Cons list.inject list.simps(9))
  with Cons.IH [of "Suc idx" "ys @ [x]"] Cons.prems(1) i show ?case
    by (simp add: toCollection_def)
qed simp

lemma group_rest:
  "grouped gs \<Longrightarrow> distinct_adj (prev # map fst gs) \<Longrightarrow> idx \<noteq> 0 \<Longrightarrow> drop idx txns = map fst (members gs) \<Longrightarrow>
   groupResults txns (map snd (members gs)) idx prev cols = cols @ map (toCollection False \<circ> snd) gs"
proof (induction gs arbitrary: idx prev cols)
  case (Cons g gs)
  from Cons.prems(1) obtain x xs where g: "snd g = x # xs" by (cases "snd g") (auto simp: grouped_def)
  from Cons.prems(1) g have c: "trCollectionId (snd x) = fst g" "\<forall>y \<in> set xs. trCollectionId (snd y) = fst g"
    by (simp_all add: grouped_def)
  have ne: "fst g \<noteq> prev" and adj: "distinct_adj (fst g # map fst gs)"
    using Cons.prems(2) by auto
  have all: "members (g # gs) = x # xs @ members gs" by (simp add: members_def g)
  have i: "idx < length txns" using Cons.prems(4) all by (metis drop_eq_Nil2 list.distinct(1) list.simps(9) not_le)
  then have nth: "txns ! idx = fst x" "drop (Suc idx) txns = map fst xs @ map fst (members gs)"
    using Cons.prems(4) all by (simp_all add: Cons_nth_drop_Suc [symmetric])
  have step: "groupResults txns (map snd (members (g # gs))) idx prev cols =
      groupResults txns (map snd xs @ map snd (members gs)) (Suc idx) (fst g) (cols @ [toCollection False [x]])"
    using Cons.prems(3) c(1) ne i nth(1) by (simp add: all toCollection_def emptyCollection_def)
  have "drop (Suc idx + length xs) txns = map fst (members gs)"
    using nth(2) by (metis add.commute append_eq_conv_conj drop_drop length_map)
  moreover have "grouped gs" using Cons.prems(1) by (auto simp: grouped_def distinct_adj_Cons)
  ultimately show ?case
    using Cons.IH [of "fst g" "Suc idx + length xs" "cols @ [toCollection False (x # xs)]"] adj
      group_same [OF c(2) nth(2), of "map snd (members gs)" cols "[x]"]
    by (simp add: step g)
qed (simp add: members_def)

lemma groupResults_groups:
  assumes "grouped gs" "gs \<noteq> []"
  shows "groupResults (map fst (members gs)) (map snd (members gs)) 0 [] [emptyCollection] =
    map (toCollection False \<circ> snd) gs"
proof -
  from assms obtain g hs where gs: "gs = g # hs" by (cases gs) auto
  from assms gs obtain x xs where g: "snd g = x # xs" by (cases "snd g") (auto simp: grouped_def)
  have c: "trCollectionId (snd x) = fst g" "\<forall>y \<in> set xs. trCollectionId (snd y) = fst g"
    using assms(1) g by (simp_all add: grouped_def gs)
  let ?txns = "map fst (members gs)"
  have all: "members gs = x # xs @ members hs" by (simp add: members_def gs g)
  have d: "drop 1 ?txns = map fst xs @ map fst (members hs)" "drop (1 + length xs) ?txns = map fst (members hs)"
    by (simp_all add: all)
  have "groupResults ?txns (map snd (members gs)) 0 [] [emptyCollection] =
      groupResults ?txns (map snd xs @ map snd (members hs)) 1 (fst g) ([] @ [toCollection False [x]])"
    using c(1) by (simp add: all toCollection_def emptyCollection_def)
  also have "\<dots> = groupResults ?txns (map snd (members hs)) (1 + length xs) (fst g) ([] @ [toCollection False ([x] @ xs)])"
    by (rule group_same [OF c(2) d(1)])
  also have "\<dots> = ([] @ [toCollection False ([x] @ xs)]) @ map (toCollection False \<circ> snd) hs"
  proof (rule group_rest)
    show "grouped hs" using assms(1) by (auto simp: gs grouped_def distinct_adj_Cons)
    show "distinct_adj (fst g # map fst hs)" using assms(1) by (simp add: gs grouped_def)
  qed (use d in auto)
  finally show ?thesis by (simp add: gs g)
qed

text \<open>
  A server that answers single requests from the same data: the collections of the guarantees, every
  transaction by its hash, every result by its index in the block, and nothing past the last result.
\<close>

definition serves :: "access \<Rightarrow> bool \<Rightarrow> bytes \<Rightarrow> CollectionGuarantee list \<Rightarrow> group list \<Rightarrow> (Transaction \<times> TransactionResult) list \<Rightarrow> bool" where
  "serves A sk hash guarantees gs sys \<longleftrightarrow>
     map cgCollectionId guarantees = map fst gs \<and>
     (\<forall>n. \<forall>g \<in> set gs. acCollectionByID A n sk (fst g) = Inr (map (\<lambda>x. trTransactionId (snd x)) (snd g))) \<and>
     (\<forall>n. \<forall>x \<in> set (members gs @ sys). acTransaction A n sk (trTransactionId (snd x)) = Inr (fst x)) \<and>
     (\<forall>n. \<forall>k < length (members gs @ sys).
        acTransactionResult A n sk hash (of_nat k) = Inr (snd ((members gs @ sys) ! k))) \<and>
     (\<forall>n. \<exists>e. acTransactionResult A n sk hash (of_nat (length (members gs @ sys))) = Inl e \<and> geCode e = NotFound)"

text \<open>The system collection: one result before version 8, and then one for each scheduled transaction and a last one.\<close>

definition system_ok :: "Spork \<Rightarrow> (Transaction \<times> TransactionResult) list \<Rightarrow> bool" where
  "system_ok spork sys \<longleftrightarrow>
     sys \<noteq> [] \<and> length sys \<le> (if spVersion spork \<ge> 8 then scheduledCount (snd (hd sys)) + 2 else 1)"

lemma fetch_Inr: "0 < F \<Longrightarrow> call t = Inr x \<Longrightarrow> fetch F call t = Ok (x, Suc t)"
  by (cases F) auto

lemma slowTxns_serves:
  assumes "0 < F"
  shows "\<forall>n. \<forall>x \<in> set xs. acTransaction A n sk (trTransactionId (snd x)) = Inr (fst x) \<Longrightarrow>
     \<forall>n. \<forall>j < length xs. acTransactionResult A n sk hash (of_nat (k + j)) = Inr (snd (xs ! j)) \<Longrightarrow>
     \<exists>t'. slowTxns F A sk hash (map (\<lambda>x. trTransactionId (snd x)) xs) k t =
       Ok ((map fst xs, map snd xs), k + length xs, t')"
proof (induction xs arbitrary: k t)
  case (Cons x xs)
  have "acTransactionResult A n sk hash (of_nat k) = Inr (snd x)" for n
    using Cons.prems(2) [rule_format, of 0 n] by simp
  moreover have "\<forall>n. \<forall>j < length xs. acTransactionResult A n sk hash (of_nat (Suc k + j)) = Inr (snd (xs ! j))"
  proof (intro allI impI)
    fix n j assume "j < length xs"
    then show "acTransactionResult A n sk hash (of_nat (Suc k + j)) = Inr (snd (xs ! j))"
      using Cons.prems(2) [rule_format, of "Suc j" n] by simp
  qed
  from Cons.IH [OF _ this, of "Suc (Suc t)"] Cons.prems(1) obtain t' where
    "slowTxns F A sk hash (map (\<lambda>x. trTransactionId (snd x)) xs) (Suc k) (Suc (Suc t)) =
       Ok ((map fst xs, map snd xs), Suc k + length xs, t')" by auto
  ultimately show ?case
    using Cons.prems(1) assms by (simp add: fetch_Inr)
qed simp

lemma slowCollections_serves:
  assumes "0 < F"
  shows "map cgCollectionId guarantees = map fst gs \<Longrightarrow>
     \<forall>n. \<forall>g \<in> set gs. acCollectionByID A n sk (fst g) = Inr (map (\<lambda>x. trTransactionId (snd x)) (snd g)) \<Longrightarrow>
     \<forall>n. \<forall>x \<in> set (members gs). acTransaction A n sk (trTransactionId (snd x)) = Inr (fst x) \<Longrightarrow>
     \<forall>n. \<forall>j < length (members gs). acTransactionResult A n sk hash (of_nat (k + j)) = Inr (snd (members gs ! j)) \<Longrightarrow>
     \<exists>t'. slowCollections F A sk hash guarantees k t =
       Ok (map (toCollection False \<circ> snd) gs, k + length (members gs), t')"
proof (induction gs arbitrary: guarantees k t)
  case (Cons g gs)
  then obtain c cs where cs: "guarantees = c # cs" "cgCollectionId c = fst g" "map cgCollectionId cs = map fst gs"
    by (cases guarantees) auto
  have m: "members (g # gs) = snd g @ members gs" by (simp add: members_def)
  have r: "\<forall>n. \<forall>j < length (snd g). acTransactionResult A n sk hash (of_nat (k + j)) = Inr (snd (snd g ! j))"
    using Cons.prems(4) by (simp add: m nth_append)
  have r': "\<forall>n. \<forall>j < length (members gs).
      acTransactionResult A n sk hash (of_nat (k + length (snd g) + j)) = Inr (snd (members gs ! j))"
  proof (intro allI impI)
    fix n j assume "j < length (members gs)"
    then show "acTransactionResult A n sk hash (of_nat (k + length (snd g) + j)) = Inr (snd (members gs ! j))"
      using Cons.prems(4) [rule_format, of "length (snd g) + j" n] by (simp add: m nth_append add.assoc)
  qed
  obtain t1 where t1: "slowTxns F A sk hash (map (\<lambda>x. trTransactionId (snd x)) (snd g)) k (Suc t) =
      Ok ((map fst (snd g), map snd (snd g)), k + length (snd g), t1)"
    using slowTxns_serves [OF assms _ r, of "Suc t"] Cons.prems(3) by (auto simp: m)
  obtain t2 where "slowCollections F A sk hash cs (k + length (snd g)) t1 =
      Ok (map (toCollection False \<circ> snd) gs, k + length (snd g) + length (members gs), t2)"
    using Cons.IH [OF cs(3) _ _ r', of t1] Cons.prems(2,3) by (auto simp: m)
  then show ?case
    using Cons.prems(2) t1 assms by (simp add: cs fetch_Inr m toCollection_def [symmetric])
qed (simp add: members_def)

lemma scheduledResults_serves:
  assumes "0 < F"
    and "\<forall>n. \<exists>e. acTransactionResult A n sk hash (of_nat (k + length xs)) = Inl e \<and> geCode e = NotFound"
  shows "\<forall>n. \<forall>j < length xs. acTransactionResult A n sk hash (of_nat (k + j)) = Inr (snd (xs ! j)) \<Longrightarrow>
     length xs \<le> m \<Longrightarrow> \<exists>t'. scheduledResults F A sk hash m k t = Ok (map snd xs, t')"
  using assms(2)
proof (induction xs arbitrary: k t m)
  case Nil
  obtain f where F: "F = Suc f" using assms(1) by (cases F) auto
  from Nil.prems(3) obtain e where "acTransactionResult A t sk hash (of_nat k) = Inl e" "geCode e = NotFound"
    by auto
  then show ?case by (cases m) (auto simp: F)
next
  case (Cons x xs)
  then obtain m' where m: "m = Suc m'" "length xs \<le> m'" by (cases m) auto
  obtain f where F: "F = Suc f" using assms(1) by (cases F) auto
  have "acTransactionResult A t sk hash (of_nat k) = Inr (snd x)"
    using Cons.prems(1) [rule_format, of 0 t] by simp
  moreover have "\<forall>n. \<forall>j < length xs. acTransactionResult A n sk hash (of_nat (Suc k + j)) = Inr (snd (xs ! j))"
  proof (intro allI impI)
    fix n j assume "j < length xs"
    then show "acTransactionResult A n sk hash (of_nat (Suc k + j)) = Inr (snd (xs ! j))"
      using Cons.prems(1) [rule_format, of "Suc j" n] by simp
  qed
  from Cons.IH [OF this m(2), of "Suc t"] Cons.prems(3) obtain t' where
    "scheduledResults F A sk hash m' (Suc k) (Suc t) = Ok (map snd xs, t')" by auto
  ultimately show ?case by (simp add: m F)
qed

lemma systemTxns_serves:
  assumes "0 < F"
  shows "\<forall>n. \<forall>x \<in> set xs. acTransaction A n sk (trTransactionId (snd x)) = Inr (fst x) \<Longrightarrow>
    \<exists>t'. systemTxns F A sk (map snd xs) t = Ok (map fst xs, t')"
proof (induction xs arbitrary: t)
  case (Cons x xs)
  then obtain t' where "systemTxns F A sk (map snd xs) (Suc t) = Ok (map fst xs, t')" by force
  with Cons.prems assms show ?case by (simp add: fetch_Inr)
qed simp

lemma systemCollection_serves:
  assumes F: "0 < F" and sys: "system_ok spork sys"
    and txn: "\<forall>n. \<forall>x \<in> set sys. acTransaction A n sk (trTransactionId (snd x)) = Inr (fst x)"
    and res: "\<forall>n. \<forall>j < length sys. acTransactionResult A n sk hash (of_nat (k + j)) = Inr (snd (sys ! j))"
    and fin: "\<forall>n. \<exists>e. acTransactionResult A n sk hash (of_nat (k + length sys)) = Inl e \<and> geCode e = NotFound"
  shows "\<exists>t'. systemCollection F A sk spork hash k t = Ok (toCollection True sys, t')"
proof -
  from sys obtain x xs where s: "sys = x # xs" by (cases sys) (auto simp: system_ok_def)
  have first: "acTransactionResult A n sk hash (of_nat k) = Inr (snd x)" for n
    using res [rule_format, of 0 n] by (simp add: s)
  have rest: "\<forall>n. \<forall>j < length xs. acTransactionResult A n sk hash (of_nat (Suc k + j)) = Inr (snd (xs ! j))"
  proof (intro allI impI)
    fix n j assume "j < length xs"
    then show "acTransactionResult A n sk hash (of_nat (Suc k + j)) = Inr (snd (xs ! j))"
      using res [rule_format, of "Suc j" n] by (simp add: s)
  qed
  have "\<exists>t2. (if spVersion spork \<ge> 8 then scheduledResults F A sk hash (scheduledCount (snd x) + 1) (Suc k) (Suc t)
              else Ok ([], Suc t)) = Ok (map snd xs, t2)"
  proof (cases "spVersion spork \<ge> 8")
    case True
    then have "length xs \<le> scheduledCount (snd x) + 1" using sys by (simp add: system_ok_def s)
    from scheduledResults_serves [OF F _ rest this] True fin show ?thesis by (simp add: s)
  next
    case False
    then show ?thesis using sys by (simp add: system_ok_def s)
  qed
  then obtain t2 where t2: "(if spVersion spork \<ge> 8
      then scheduledResults F A sk hash (scheduledCount (snd x) + 1) (Suc k) (Suc t) else Ok ([], Suc t)) = Ok (map snd xs, t2)" ..
  obtain t3 where "systemTxns F A sk (snd x # map snd xs) t2 = Ok (map fst sys, t3)"
    using systemTxns_serves [OF F txn, of t2] by (auto simp: s simp del: systemTxns.simps)
  then show ?thesis
    using first F t2
    by (simp add: systemCollection_def fetch_Inr s toCollection_def del: systemTxns.simps)
qed

text \<open>
  C18. The slow path and the batched path give the same collections: against a server that answers
  from one set of data, asking for every collection, transaction and result by itself ends, and it
  ends with the collections that the batched path computes by grouping the flat lists of
  transactions and results, the system collection marked in both. The data is grouped into non-empty
  collections whose neighbours differ, and the system collection has at most the results that its
  first one announces. Fuel of one is enough, since no call fails.
\<close>

theorem slow_path_agrees:
  assumes "0 < F" and "serves A sk hash (ebCollectionGuarantees block) gs sys"
    and "grouped (gs @ [(sid, sys)])" and "system_ok spork sys" and "\<not> selfSealed spork height"
  shows "\<exists>t'. slowPathCollections F A sk spork height hash block t =
    Ok (fastCollections (map fst (members gs @ sys)) (map snd (members gs @ sys)), t')"
proof -
  have all: "members (gs @ [(sid, sys)]) = members gs @ sys" by (simp add: members_def)
  have fast: "fastCollections (map fst (members gs @ sys)) (map snd (members gs @ sys)) =
      map (toCollection False \<circ> snd) gs @ [toCollection True sys]"
    using groupResults_groups [OF assms(3)]
    by (simp add: fastCollections_def all markSystem_def toCollection_def)
  have sv: "map cgCollectionId (ebCollectionGuarantees block) = map fst gs"
      "\<forall>n. \<forall>g \<in> set gs. acCollectionByID A n sk (fst g) = Inr (map (\<lambda>x. trTransactionId (snd x)) (snd g))"
      "\<forall>n. \<forall>x \<in> set (members gs). acTransaction A n sk (trTransactionId (snd x)) = Inr (fst x)"
      "\<forall>n. \<forall>x \<in> set sys. acTransaction A n sk (trTransactionId (snd x)) = Inr (fst x)"
      "\<forall>n. \<forall>j < length (members gs). acTransactionResult A n sk hash (of_nat (0 + j)) = Inr (snd (members gs ! j))"
    using assms(2) by (auto simp: serves_def nth_append)
  have res: "\<forall>n. \<forall>j < length sys.
      acTransactionResult A n sk hash (of_nat (length (members gs) + j)) = Inr (snd (sys ! j))"
  proof (intro allI impI)
    fix n j assume "j < length sys"
    then have "length (members gs) + j < length (members gs @ sys)" by simp
    with assms(2) have "acTransactionResult A n sk hash (of_nat (length (members gs) + j)) =
        Inr (snd ((members gs @ sys) ! (length (members gs) + j)))" unfolding serves_def by blast
    then show "acTransactionResult A n sk hash (of_nat (length (members gs) + j)) = Inr (snd (sys ! j))"
      by (simp add: nth_append)
  qed
  obtain t1 where t1: "slowCollections F A sk hash (ebCollectionGuarantees block) 0 t =
      Ok (map (toCollection False \<circ> snd) gs, 0 + length (members gs), t1)"
    using slowCollections_serves [OF assms(1) sv(1,2,3,5)] by blast
  have "\<forall>n. \<exists>e. acTransactionResult A n sk hash (of_nat (length (members gs) + length sys)) = Inl e \<and> geCode e = NotFound"
    using assms(2) by (simp add: serves_def)
  then obtain t2 where "systemCollection F A sk spork hash (length (members gs)) t1 = Ok (toCollection True sys, t2)"
    using systemCollection_serves [OF assms(1,4) sv(4) res] by blast
  with t1 assms(5) show ?thesis unfolding fast by (simp add: slowPathCollections_def)
qed

subsection \<open>A concrete run\<close>

text \<open>
  A server for the block after the genesis block of the sample store: the first call fails, the block
  has no transactions, and its execution result has one chunk, without events.
\<close>

definition emptyResult :: ExecutionResult where
  "emptyResult =
     \<lparr>exPreviousResultId = [6], exBlockId = [10],
      exChunks = [Some ((sampleChunk 0)\<lparr>ckEventCollection := replicate 32 0\<rparr>)],
      exServiceEvents = [], exExecutionDataId = [7]\<rparr>"

definition noAnswer :: grpcError where
  "noAnswer = \<lparr>geCode = NotFound, geMessage = ''not found''\<rparr>"

definition sampleAccess :: access where
  "sampleAccess =
     \<lparr>acDone = (\<lambda>_. False),
      acBlockByHeight = (\<lambda>n _ _. if n = 0 then Inl noAnswer else Inr sampleBlock),
      acBlockHeaderByHeight = (\<lambda>_ _ _. Inr sampleHeader),
      acTransactionsByBlockID = (\<lambda>_ _ _. Inr []), acTransactionResultsByBlockID = (\<lambda>_ _ _. Inr []),
      acCollectionByID = (\<lambda>_ _ _. Inl noAnswer), acTransaction = (\<lambda>_ _ _. Inl noAnswer),
      acTransactionResult = (\<lambda>_ _ _ _. Inl noAnswer),
      acExecutionResultForBlockID = (\<lambda>_ _ _. Inr emptyResult)\<rparr>"

definition sampleWorld :: "((bytes \<times> bytes) list, bool, nat) world" where
  "sampleWorld =
     \<lparr>wGo = sampleGo, wAccess = sampleAccess, wCadence = sampleCadence, wCurve = sampleSecp, wEnv = sampleEnv,
      wRange = (\<lambda>_ _ m. m), wIndexRange = (\<lambda>_ m. m), wNow = (\<lambda>_. 0), wBlockIDAt = (\<lambda>_ _. Inl True),
      wSealIDOf = (\<lambda>_ _. None), wSealAt = (\<lambda>_ _. None)\<rparr>"

definition emptyResultID :: bytes where
  "emptyResultID =
     (case andThen (convertExecutionResult sampleGo 8 emptyResult) (deriveExecutionResult sampleGo 8) of
        Ok x \<Rightarrow> x | _ \<Rightarrow> [])"

definition sealedIndexer :: Indexer where
  "sealedIndexer = sampleIndexer\<lparr>ixSealedResults := [([10], emptyResultID)]\<rparr>"

definition sampleData :: IndexedBlock where
  "sampleData = \<lparr>ibTimestamp = unixNano (ebTimestamp sampleBlock), ibTransactions = []\<rparr>"

definition nextStore :: "(bytes \<times> bytes) list Store" where
  "nextStore = fst (Index sampleEnv (\<lambda>m. m) sampleStore 6 [10] sampleData)"

definition nextIndexer :: Indexer where
  "nextIndexer = (case finishBlock sealedIndexer [] 6 [10] of Ok j \<Rightarrow> j | _ \<Rightarrow> sealedIndexer)"

lemma sample_stages:
  "blockCollections 2 sampleAccess sampleChain sampleSpork 6 [10] sampleBlock (tick (startVars 1)) =
     Ok (fastCollections [] [], tick (tick (tick (startVars 1))))"
  "deriveEventHashes sampleGo sampleSpork 6 (fastCollections [] []) = Ok [replicate 32 0]"
  "checkedUnsealed sampleGo sampleChain sealedIndexer sampleSpork 6 [10] [replicate 32 0] emptyResult pv = Ok pv"
  "allTxns ord A C S sealedIndexer b [10] (fastCollections [] []) ([], [], 0) pv = Ok (([], [], 0), pv)"
  "finishBlock sealedIndexer [] 6 [10] = Ok nextIndexer"
  by code_simp+

lemma sample_diffAt: "diffAt sampleGenesis [] a n = 0"
  by (rule diffAt_untouched)
    (auto simp: blkAt_def chainOf_def genesisBlk_def blockTouches_def blockOps_def tipHeight_def
      baseHeight_def split: if_splits)

lemma sample_index: "Index sampleEnv (\<lambda>m. m) sampleStore 6 [10] sampleData = (nextStore, Ok ())"
proof -
  have s: "bmHeight sampleGenesis + 1 = 6" "[10] \<notin> fst ` set (chainOf sampleGenesis [])"
    "Suc (tipHeight sampleGenesis []) < 2 ^ 64"
    by (simp_all add: sampleGenesis_def chainOf_def genesisBlk_def tipHeight_def baseHeight_def)
  have d: "block_ok sampleData" "encoded (marshalBlock sampleEnv sampleData) \<noteq> None"
    by (simp_all add: sampleData_def block_ok_def blockOps_def sampleEnv_def sampleBlockEnc_def)
  have "\<forall>a. length a = 8 \<longrightarrow>
      0 \<le> sint (balanceAt sampleGenesis [] a (tipHeight sampleGenesis []) + blockDiff a sampleData)"
    using sample_diffAt by (simp add: sampleData_def blockDiff_def blockOps_def balanceAt_def)
  with Index_represents [OF sampleStore_represents(1,2) range_order_id d s(2,3)] show ?thesis
    unfolding s(1) nextStore_def by auto
qed

lemma sample_attempt:
  "attemptBlock 2 sampleWorld sampleChain sampleSpork 6 [10] sealedIndexer sampleStore (startVars 1) =
     Ok (nextIndexer, nextStore, 6)"
proof -
  have "acBlockByHeight sampleAccess (pvTime (startVars 1)) sk h = Inr sampleBlock"
    "acExecutionResultForBlockID sampleAccess n sk x = Inr emptyResult" "\<not> acDone sampleAccess n" for sk h n x
    by (simp_all add: sampleAccess_def startVars_def)
  with sample_stages(1-3,5) sample_index [unfolded sampleData_def] show ?thesis
    by (simp add: attemptBlock_def sampleWorld_def orAgain_def Let_def numeral_2_eq_2 sample_stages(4) tick_def startVars_def
        del: andThen_Ok_iff andThen_Ok_rev)
qed

lemma sample_run:
  "processBlock 2 sampleWorld sampleChain sampleSpork 6 [10] sealedIndexer sampleStore 0 = Ok (nextIndexer, nextStore, 6)"
proof -
  have "attemptBlock 2 sampleWorld sampleChain sampleSpork 6 [10] sealedIndexer sampleStore (startVars 0) =
      Err (Again (startVars 1))"
    by (simp add: attemptBlock_def sampleWorld_def sampleAccess_def startVars_def tick_def)
  with sample_attempt show ?thesis
    by (simp add: processBlock_def numeral_2_eq_2 sampleWorld_def sampleAccess_def)
qed

lemma fetch_fails: "(\<And>n. \<exists>e. call n = Inl e) \<Longrightarrow> fetch F call t \<noteq> Ok x"
proof (induction F arbitrary: t)
  case (Suc F)
  then obtain e where "call t = Inl e" by blast
  with Suc show ?case by simp
qed simp

lemma sample_open: "\<not> selfSealed sampleSpork 6"
  by code_simp

lemma sample_fresh: "fresh_accounts F sampleWorld sampleChain sampleSpork 6 [10]"
proof -
  have "systemCollection F sampleAccess sk sampleSpork [10] k t \<noteq> Ok x" for sk k t x
    using fetch_fails [of "\<lambda>n. acTransactionResult sampleAccess n sk [10] (of_nat k)"]
    by (auto simp: systemCollection_def sampleAccess_def)
  then have slow: "slowPathCollections F sampleAccess sk sampleSpork 6 [10] block t \<noteq> Ok x" for sk block t x
    by (auto simp: slowPathCollections_def sample_open)
  have "cols = fastCollections [] []"
    if "blockCollections F sampleAccess sampleChain sampleSpork 6 [10] block pv = Ok (cols, pv')" for block pv cols pv'
    using that slow
    by (auto simp: blockCollections_def batched_def sampleAccess_def split: if_splits)
  moreover have "creationsOf sampleCadence (colResults (fastCollections [] [])) = []" by code_simp
  ultimately show ?thesis unfolding fresh_accounts_def by (auto simp: sampleWorld_def)
qed

theorem process_block_survives_outage_witness:
  "processBlock 2 sampleWorld sampleChain sampleSpork 6 [10] sealedIndexer sampleStore 0 = Ok (nextIndexer, nextStore, 6)"
  by (rule process_block_survives_outage [where k = 1])
    (use sample_attempt in \<open>simp_all add: sampleWorld_def sampleAccess_def\<close>)

theorem indexed_blocks_attested_witness:
  "\<exists>cols exec itxs acc n pv pv' ts k.
     attested sampleGo sampleChain sealedIndexer sampleSpork 6 [10] cols exec \<and>
     allTxns (wRange sampleWorld) sampleAccess sampleCadence sampleSecp sealedIndexer False [10] cols ([], [], 0) pv =
       Ok ((itxs, acc, n), pv') \<and>
     Index sampleEnv (wIndexRange sampleWorld k) sampleStore 6 [10] \<lparr>ibTimestamp = ts, ibTransactions = itxs\<rparr> =
       (nextStore, Ok ()) \<and>
     finishBlock sealedIndexer acc 6 [10] = Ok nextIndexer"
proof -
  have "\<not> skipBlock sampleChain [10]" by code_simp
  from indexed_blocks_attested [OF sample_run this] show ?thesis by (simp add: sampleWorld_def)
qed

theorem process_block_extends_chain_witness:
  "\<exists>b l'. represents sampleEnv nextStore sampleGenesis l' [([10], b)] \<and> latest nextStore = Some l' \<and> bmHeight l' = 6 \<and>
     block_ok b \<and> covered sampleGenesis [] b \<and> indexer_ok nextIndexer \<and>
     (\<exists>m. ixLastIndexed nextIndexer = Some m \<and> bmHash m = [10] \<and> bmHeight m = 6)"
proof -
  have w: "wEnv sampleWorld = sampleEnv" "range_order (wRange sampleWorld n k)" "range_order (wIndexRange sampleWorld n)" for n k
    by (simp_all add: sampleWorld_def range_order_id)
  have s: "6 = bmHeight sampleGenesis + 1" "[10] \<notin> fst ` set (chainOf sampleGenesis [])"
    "Suc (tipHeight sampleGenesis []) < 2 ^ 64" "indexer_ok sealedIndexer"
    by (simp_all add: sampleGenesis_def chainOf_def genesisBlk_def tipHeight_def baseHeight_def indexer_ok_def
        sealedIndexer_def sampleIndexer_def mkeys_def alice_def bob_def)
  from process_block_extends_chain [OF sample_run _ sampleStore_represents(2) s(1-3) w(2,3) s(4) sample_fresh]
  show ?thesis using sampleStore_represents(1) by (simp add: w(1))
qed

text \<open>A server for a block with one collection of one transaction and a system collection of two results.\<close>

definition paidTxn :: Transaction where
  "paidTxn =
     \<lparr>txScript = [], txArguments = [], txReferenceBlockId = [], txGasLimit = 9999, txProposalKey = None,
      txPayer = alice, txAuthorizers = [alice], txPayloadSignatures = [], txEnvelopeSignatures = []\<rparr>"

definition oneOf :: "bytes \<Rightarrow> bytes \<Rightarrow> Transaction \<times> TransactionResult" where
  "oneOf c x = (paidTxn, sampleTxnResult\<lparr>trCollectionId := c, trTransactionId := x\<rparr>)"

definition slowAccess :: access where
  "slowAccess = sampleAccess
     \<lparr>acCollectionByID := (\<lambda>_ _ _. Inr [[1]]), acTransaction := (\<lambda>_ _ _. Inr paidTxn),
      acTransactionResult := (\<lambda>_ _ _ k.
        if k = 0 then Inr (snd (oneOf [1] [1])) else if k = 1 then Inr (snd (oneOf [2] [2]))
        else if k = 2 then Inr (snd (oneOf [2] [3])) else Inl noAnswer)\<rparr>"

definition slowBlock :: Block where
  "slowBlock = sampleBlock\<lparr>ebCollectionGuarantees := [(hd (ebCollectionGuarantees sampleBlock))\<lparr>cgCollectionId := [1]\<rparr>]\<rparr>"

theorem slow_path_agrees_witness:
  "\<exists>t'. slowPathCollections 1 slowAccess False sampleSpork 6 [10] slowBlock 0 =
    Ok (fastCollections [paidTxn, paidTxn, paidTxn]
          [snd (oneOf [1] [1]), snd (oneOf [2] [2]), snd (oneOf [2] [3])], t')"
proof -
  let ?gs = "[([1], [oneOf [1] [1]])]" and ?sys = "[oneOf [2] [2], oneOf [2] [3]]"
  have "serves slowAccess False [10] (ebCollectionGuarantees slowBlock) ?gs ?sys"
    by (auto simp: serves_def members_def slowAccess_def slowBlock_def oneOf_def noAnswer_def less_Suc_eq)
  moreover have "grouped (?gs @ [([2], ?sys)])" by (simp add: grouped_def oneOf_def)
  moreover have "system_ok sampleSpork ?sys" by code_simp
  ultimately show ?thesis
    using sample_open slow_path_agrees [of 1 slowAccess False "[10]" slowBlock ?gs ?sys "[2]" sampleSpork 6 0]
    by (simp add: members_def oneOf_def)
qed

end
