(* ===== verification/Bootstrap.thy ===== *)
theory Bootstrap
  imports Process
begin

section \<open>Package state: starting the consensus follower\<close>

text \<open>
  The part of \<^verbatim>\<open>state/state.go\<close> that runs before the indexer: the download of the root protocol state
  of the live spork with the check of its signature, the construction of the consensus follower, and the
  start of the prefetch workers. The file system, HTTP, the JSON decoding of the snapshot, OpenPGP and
  the follower of flow-go are the record \<open>host\<close>; an answer of a GET carries its status code, which the
  code never looks at. A \<open>None\<close> of an operation with a \<open>string option\<close> is its success.
\<close>

record bootNode =
  bnHost :: string
  bnPort :: u64
  bnKey :: bytes

record syncConfig =
  syMaxAttempts :: nat
  syMaxRequests :: nat
  syMaxSize :: nat
  syRetryInterval :: int
  syTolerance :: nat

record follower =
  flKey :: bytes
  flAddress :: string
  flNodes :: "bootNode list"
  flBootstrapDir :: string
  flSkipFactor :: nat
  flSync :: syncConfig

record 'k host =
  hsJoin :: "string list \<Rightarrow> string"
  hsMkdirAll :: "string \<Rightarrow> string option"
  hsWriteFile :: "string \<Rightarrow> bytes \<Rightarrow> string option"
  hsNewRequest :: "string \<Rightarrow> string option"
  hsGet :: "string \<Rightarrow> nat \<Rightarrow> (string, nat \<times> (string, bytes) sum) sum"
  hsUnmarshal :: "bytes \<Rightarrow> (string, stateSnapshot) sum"
  hsReadKeyRing :: "string \<Rightarrow> (string, 'k) sum"
  hsArmorDecode :: "bytes \<Rightarrow> (string, string \<times> bytes) sum"
  hsCheckSignature :: "'k \<Rightarrow> bytes \<Rightarrow> bytes \<Rightarrow> string option"
  hsOpenPebble :: "string \<Rightarrow> string option"
  hsRandom :: "bytes option"
  hsSeedLen :: nat
  hsGenerateKey :: "bytes \<Rightarrow> bytes option"
  hsDecodeKey :: "bytes \<Rightarrow> (string, bytes) sum"
  hsNewFollower :: "follower \<Rightarrow> string option"
  hsMakeChan :: "u64 \<Rightarrow> bool"

text \<open>A call whose error stops the process.\<close>

definition must :: "string \<Rightarrow> string option \<Rightarrow> unit run" where
  "must msg r = (case r of None \<Rightarrow> Ok () | Some err \<Rightarrow> Fatal (msg @ err))"

definition mustGet :: "string \<Rightarrow> (string, 'a) sum \<Rightarrow> 'a run" where
  "mustGet msg r = (case r of Inr x \<Rightarrow> Ok x | Inl err \<Rightarrow> Fatal (msg @ err))"

lemma must_Ok [simp]: "must msg r = Ok u \<longleftrightarrow> r = None"
  by (simp add: must_def split: option.splits)

lemma mustGet_Ok [simp]: "mustGet msg r = Ok x \<longleftrightarrow> r = Inr x"
  by (auto simp: mustGet_def split: sum.splits)

text \<open>The loop has no exit but a body that was read: the fuel counts the attempts.\<close>

fun download :: "nat \<Rightarrow> 'k host \<Rightarrow> string \<Rightarrow> nat \<Rightarrow> (bytes \<times> nat) run" where
  "download 0 H src n = Err OutOfFuel"
| "download (Suc F) H src n =
     andThen (must (''Failed to create HTTP request to '' @ src @ '': '') (hsNewRequest H src)) (\<lambda>_.
     case hsGet H src n of
       Inl err \<Rightarrow> download F H src (Suc n)
     | Inr (status, Inl err) \<Rightarrow> download F H src (Suc n)
     | Inr (status, Inr bs) \<Rightarrow> Ok (bs, Suc n))"

definition signatureType :: string where
  "signatureType = ''PGP SIGNATURE''"

definition snapshotPath :: "'k host \<Rightarrow> string \<Rightarrow> string" where
  "snapshotPath H sporkDir =
     hsJoin H [hsJoin H [sporkDir, ''public-root-information''], ''root-protocol-state-snapshot.json'']"

text \<open>The signature check over the bytes that were downloaded and written.\<close>

definition checkRootState :: "nat \<Rightarrow> 'k host \<Rightarrow> Consensus \<Rightarrow> bytes \<Rightarrow> nat \<Rightarrow> nat run" where
  "checkRootState F H cs bs n =
     (if csDisableSignatureCheck cs then Ok n
      else
        andThen (mustGet ''Failed to read PGP keyring from the configured signing_key: ''
                   (hsReadKeyRing H (csSigningKey cs))) (\<lambda>keyring.
        andThen (download F H (csRootProtocolStateSignatureURL cs) n) (\<lambda>(sig, n1).
        andThen (mustGet ''Failed to decode PGP signature block: '' (hsArmorDecode H sig)) (\<lambda>(kind, body).
        if kind \<noteq> signatureType then Fatal ''Failed to get PGP signature block''
        else
          andThen (must ''Failed to get valid PGP signature for the root protocol state: ''
                     (hsCheckSignature H keyring bs body)) (\<lambda>_. Ok n1)))))"

text \<open>The result has the file that was written and the snapshot that goes to \<^verbatim>\<open>i.root\<close>.\<close>

definition downloadRootState ::
  "nat \<Rightarrow> 'k host \<Rightarrow> Spork \<Rightarrow> string \<Rightarrow> nat \<Rightarrow> ((string \<times> bytes) \<times> stateSnapshot \<times> nat) run" where
  "downloadRootState F H spork sporkDir n =
     andThen (must ''Failed to create the spork bootstrap directory: ''
                (hsMkdirAll H (hsJoin H [sporkDir, ''public-root-information'']))) (\<lambda>_.
     case spConsensus spork of
       None \<Rightarrow> Panic ''nil pointer dereference''
     | Some cs \<Rightarrow>
         andThen (download F H (csRootProtocolStateURL cs) n) (\<lambda>(bs, n1).
         andThen (must ''Failed to write: '' (hsWriteFile H (snapshotPath H sporkDir) bs)) (\<lambda>_.
         andThen (mustGet ''Failed to decode root protocol state snapshot: '' (hsUnmarshal H bs)) (\<lambda>root.
         andThen (checkRootState F H cs bs n1) (\<lambda>n2.
         Ok ((snapshotPath H sporkDir, bs), root, n2))))))"

fun bootstrapNodes :: "'k host \<Rightarrow> SeedNode list \<Rightarrow> bootNode list run" where
  "bootstrapNodes H [] = Ok []"
| "bootstrapNodes H (node # nodes) =
     (case hexDecode (snPublicKey node) of
        None \<Rightarrow> Fatal ''Failed to hex decode the seed node key''
      | Some rawkey \<Rightarrow>
          andThen (mustGet ''Failed to decode the seed node key: '' (hsDecodeKey H rawkey)) (\<lambda>pubkey.
          andThen (bootstrapNodes H nodes) (\<lambda>rest.
          Ok (\<lparr>bnHost = snHost node, bnPort = ucast (snPort node), bnKey = pubkey\<rparr> # rest))))"

definition followerSync :: syncConfig where
  "followerSync =
     \<lparr>syMaxAttempts = 5, syMaxRequests = 5, syMaxSize = 64, syRetryInterval = 4 * 1000000000, syTolerance = 10\<rparr>"

text \<open>A short read of random bytes is a failure like an error of \<^verbatim>\<open>rand.Read\<close>.\<close>

definition networkKey :: "'k host \<Rightarrow> bytes run" where
  "networkKey H =
     (case hsRandom H of
        None \<Rightarrow> Fatal ''Could not generate seed for the consensus follower private key''
      | Some seed \<Rightarrow>
          if length seed \<noteq> hsSeedLen H then Fatal ''Could not generate seed for the consensus follower private key''
          else (case hsGenerateKey H seed of
                  None \<Rightarrow> Fatal ''Could not generate the consensus follower private key''
                | Some key \<Rightarrow> Ok key))"

definition runConsensusFollower ::
  "nat \<Rightarrow> 'k host \<Rightarrow> Chain \<Rightarrow> nat \<Rightarrow> (follower \<times> (string \<times> bytes) \<times> stateSnapshot) run" where
  "runConsensusFollower F H chain n =
     andThen (mapErr (\<lambda>_. OutOfFuel) (LatestSpork chain)) (\<lambda>spork.
     let sporkDir = hsJoin H [chDataDir chain, sporkString spork] in
     andThen (downloadRootState F H spork sporkDir n) (\<lambda>(file, root, n1).
     andThen (must ''Failed to open consensus database: '' (hsOpenPebble H (hsJoin H [sporkDir, ''consensus'']))) (\<lambda>_.
     andThen (networkKey H) (\<lambda>key.
     case spConsensus spork of
       None \<Rightarrow> Panic ''nil pointer dereference''
     | Some cs \<Rightarrow>
         andThen (bootstrapNodes H (csSeedNodes cs)) (\<lambda>nodes.
         let fl = \<lparr>flKey = key, flAddress = ''0.0.0.0:8040'', flNodes = nodes, flBootstrapDir = sporkDir,
                   flSkipFactor = 5, flSync = followerSync\<rparr> in
         andThen (must ''Failed to create the consensus follower: '' (hsNewFollower H fl)) (\<lambda>_.
         Ok (fl, file, root)))))))"

text \<open>The goroutines that \<^verbatim>\<open>initWorkers\<close> starts, after it has made the channel of jobs.\<close>

datatype goroutine = Worker nat | Scheduler u64

definition initWorkers :: "'k host \<Rightarrow> Chain \<Rightarrow> Indexer \<Rightarrow> goroutine list run" where
  "initWorkers H chain i =
     (if \<not> chCache chain then Ok []
      else if \<not> hsMakeChan H (chWorkers chain) then Panic ''makechan: size out of range''
      else (case ixLastIndexed i of
              None \<Rightarrow> Panic ''nil pointer dereference''
            | Some m \<Rightarrow> Ok (map Worker [0..<nat (sint (chWorkers chain))] @ [Scheduler (bmHeight m)])))"

subsection \<open>What the follower starts from\<close>

lemma download_Ok:
  "download F H src n = Ok (bs, n') \<Longrightarrow> \<exists>m status. n \<le> m \<and> n' = Suc m \<and> hsGet H src m = Inr (status, Inr bs)"
proof (induction F arbitrary: n)
  case (Suc F)
  show ?case
  proof (cases "\<exists>status. hsGet H src n = Inr (status, Inr bs) \<and> n' = Suc n")
    case False
    with Suc.prems have "download F H src (Suc n) = Ok (bs, n')"
      by (auto split: sum.splits prod.splits)
    from Suc.IH [OF this] show ?thesis using Suc_leD by blast
  qed auto
qed simp

lemma download_returns:
  assumes "hsNewRequest H src = None" and "hsGet H src (n + k) = Inr (status, Inr bs)"
    and "\<forall>j < k. \<forall>st b. hsGet H src (n + j) \<noteq> Inr (st, Inr b)"
  shows "download (Suc k) H src n = Ok (bs, Suc (n + k))"
  using assms(2,3)
proof (induction k arbitrary: n)
  case 0
  then show ?case by (simp add: must_def assms(1))
next
  case (Suc k)
  have fails: "\<forall>st b. hsGet H src n \<noteq> Inr (st, Inr b)" using Suc.prems(2) [rule_format, of 0] by simp
  have "download (Suc k) H src (Suc n) = Ok (bs, Suc (Suc n + k))"
    using Suc.prems by (intro Suc.IH) (auto dest: spec [of _ "Suc _"])
  with fails show ?case
    by (auto simp: must_def assms(1) simp del: download.simps(2) andThen_Ok_iff
        simp: download.simps(2) [of "Suc k"] split: sum.splits prod.splits)
qed

text \<open>What a valid bootstrap directory is: the written snapshot and who vouches for it.\<close>

definition vouched :: "'k host \<Rightarrow> Consensus \<Rightarrow> bytes \<Rightarrow> bool" where
  "vouched H cs bs \<longleftrightarrow>
     csDisableSignatureCheck cs \<or>
     (\<exists>keyring sig body st m. hsReadKeyRing H (csSigningKey cs) = Inr keyring \<and>
        hsGet H (csRootProtocolStateSignatureURL cs) m = Inr (st, Inr sig) \<and>
        hsArmorDecode H sig = Inr (signatureType, body) \<and> hsCheckSignature H keyring bs body = None)"

lemma checkRootState_Ok: "checkRootState F H cs bs n = Ok n' \<Longrightarrow> vouched H cs bs"
  by (auto simp: checkRootState_def vouched_def dest!: download_Ok split: if_splits)

lemma bootstrapNodes_Ok:
  "bootstrapNodes H ns = Ok bs \<Longrightarrow>
     list_all2 (\<lambda>sn bn. bnHost bn = snHost sn \<and> bnPort bn = ucast (snPort sn) \<and>
       (\<exists>raw. hexDecode (snPublicKey sn) = Some raw \<and> hsDecodeKey H raw = Inr (bnKey bn))) ns bs"
  by (induction ns arbitrary: bs) (auto split: option.splits)

text \<open>
  C19. The consensus follower starts only from authenticated data: when \<^verbatim>\<open>runConsensusFollower\<close> gets past
  its set-up, the file in the follower's bootstrap directory holds bytes that were downloaded from the
  configured address and decode as a snapshot, and, unless the configuration turns the check off, a
  detached signature from the configured address verifies over exactly these bytes with the configured
  key ring; and the follower connects to the configured seed nodes with their keys and no others.
\<close>

theorem root_state_authenticated:
  assumes "runConsensusFollower F H chain n = Ok (fl, (path, bs), root)"
  shows "\<exists>spork cs m st. LatestSpork chain = Ok spork \<and> spConsensus spork = Some cs \<and>
     flBootstrapDir fl = hsJoin H [chDataDir chain, sporkString spork] \<and> path = snapshotPath H (flBootstrapDir fl) \<and>
     hsGet H (csRootProtocolStateURL cs) m = Inr (st, Inr bs) \<and> hsUnmarshal H bs = Inr root \<and> vouched H cs bs \<and>
     list_all2 (\<lambda>sn bn. bnHost bn = snHost sn \<and> bnPort bn = ucast (snPort sn) \<and>
       (\<exists>raw. hexDecode (snPublicKey sn) = Some raw \<and> hsDecodeKey H raw = Inr (bnKey bn))) (csSeedNodes cs) (flNodes fl)"
proof -
  from assms obtain spork cs n1 where sp: "LatestSpork chain = Ok spork" "spConsensus spork = Some cs"
    and d: "downloadRootState F H spork (flBootstrapDir fl) n = Ok ((path, bs), root, n1)"
    and dir: "flBootstrapDir fl = hsJoin H [chDataDir chain, sporkString spork]"
    and nodes: "bootstrapNodes H (csSeedNodes cs) = Ok (flNodes fl)"
    by (auto simp: runConsensusFollower_def Let_def split: option.splits)
  from d sp(2) obtain n2 where "download F H (csRootProtocolStateURL cs) n = Ok (bs, n2)"
      "path = snapshotPath H (flBootstrapDir fl)" "hsUnmarshal H bs = Inr root" "checkRootState F H cs bs n2 = Ok n1"
    by (auto simp: downloadRootState_def)
  with sp dir bootstrapNodes_Ok [OF nodes] show ?thesis
    by (blast dest: download_Ok checkRootState_Ok)
qed

text \<open>A live spork whose root state is served after a failed attempt, and a signature over these bytes.\<close>

definition followerConsensus :: Consensus where
  "followerConsensus =
     \<lparr>csDisableSignatureCheck = False, csRootProtocolStateURL = ''root'', csRootProtocolStateSignatureURL = ''sig'',
      csSeedNodes = [\<lparr>snHost = ''seed'', snPort = 3569, snPublicKey = ''0a''\<rparr>], csSigningKey = ''key''\<rparr>"

definition followerChain :: Chain where
  "followerChain =
     emptyChain\<lparr>chDataDir := ''data'', chUseConsensusFollower := True,
       chSporks := [\<lparr>spAccessNodes = [], spNetwork = ''mainnet'', spConsensus = Some followerConsensus, spID = 24,
                     spNext = None, spPrev = None, spRootBlock = 10, spVersion = 8\<rparr>]\<rparr>"

definition sampleSnapshot :: stateSnapshot where
  "sampleSnapshot = \<lparr>snHead = \<lparr>shChainID = ''flow-mainnet'', shHeight = 10, shParentID = ''00''\<rparr>, snLatestSeal = \<lparr>slBlockID = ''01''\<rparr>\<rparr>"

definition sampleHost :: "string host" where
  "sampleHost =
     \<lparr>hsJoin = concat, hsMkdirAll = (\<lambda>_. None), hsWriteFile = (\<lambda>_ _. None), hsNewRequest = (\<lambda>_. None),
      hsGet = (\<lambda>src n. if n = 0 then Inl ''refused'' else Inr (200, Inr (if src = ''root'' then [1, 2] else [3]))),
      hsUnmarshal = (\<lambda>bs. if bs = [1, 2] then Inr sampleSnapshot else Inl ''bad''),
      hsReadKeyRing = Inr, hsArmorDecode = (\<lambda>bs. Inr (signatureType, bs)),
      hsCheckSignature = (\<lambda>k bs body. if k = ''key'' \<and> bs = [1, 2] \<and> body = [3] then None else Some ''invalid''),
      hsOpenPebble = (\<lambda>_. None), hsRandom = Some [7, 7], hsSeedLen = 2, hsGenerateKey = Some,
      hsDecodeKey = Inr, hsNewFollower = (\<lambda>_. None), hsMakeChan = (\<lambda>_. True)\<rparr>"

theorem root_state_authenticated_witness:
  "\<exists>fl path bs root. runConsensusFollower 2 sampleHost followerChain 0 = Ok (fl, (path, bs), root) \<and>
     vouched sampleHost followerConsensus bs"
proof -
  have l: "LatestSpork followerChain = Ok (hd (chSporks followerChain))"
      "spConsensus (hd (chSporks followerChain)) = Some followerConsensus" by code_simp+
  have "case runConsensusFollower 2 sampleHost followerChain 0 of Ok _ \<Rightarrow> True | _ \<Rightarrow> False" by code_simp
  then obtain fl path bs root where r: "runConsensusFollower 2 sampleHost followerChain 0 = Ok (fl, (path, bs), root)"
    by (auto split: outcome.splits)
  from root_state_authenticated [OF r] l have "vouched sampleHost followerConsensus bs" by auto
  with r show ?thesis by blast
qed

end
