(* ===== verification/Syncer.thy ===== *)
theory Syncer
  imports Bootstrap
begin

section \<open>Package state: the indexer\<close>

text \<open>
  The methods of \<^verbatim>\<open>state/state.go\<close> that drive the indexer, and the prefetch worker of
  \<^verbatim>\<open>state/worker.go\<close>. The state of the indexer is the pair of the record \<open>Indexer\<close> and the
  store, with the time of the Access API. The loop over the live spork never ends by itself: it is the
  step function \<open>liveStep\<close> (one turn of the inner loop) and its reachable states. The
  consensus follower is started as in \<open>Bootstrap\<close>; the database that it fills is a parameter.
\<close>

subsection \<open>Sporks and root blocks\<close>

text \<open>The spork of a height as the callers use it: they dereference the pointer.\<close>

definition sporkFor :: "Chain \<Rightarrow> u64 \<Rightarrow> Spork run" where
  "sporkFor chain height =
     (case SporkFor chain height of
        None \<Rightarrow> Err OutOfFuel
      | Some (Ok (Some sp)) \<Rightarrow> Ok sp
      | Some (Panic p) \<Rightarrow> Panic p
      | _ \<Rightarrow> Panic ''nil pointer dereference'')"

fun findRootBlock :: "nat \<Rightarrow> access \<Rightarrow> Spork \<Rightarrow> nat \<Rightarrow> (BlockMeta option \<times> nat) run" where
  "findRootBlock 0 A spork t = Err OutOfFuel"
| "findRootBlock (Suc n) A spork t =
     (if acDone A t then Ok (None, t)
      else (case acBlockByHeight A t False (spRootBlock spork) of
              Inl e \<Rightarrow> findRootBlock n A spork (Suc t)
            | Inr block \<Rightarrow>
                if ebHeight block \<noteq> spRootBlock spork then findRootBlock n A spork (Suc t)
                else Ok (Some \<lparr>bmHash = ebId block, bmHeight = ebHeight block, bmParent = ebParentId block,
                               bmTimestamp = unixNano (ebTimestamp block)\<rparr>, Suc t)))"

subsection \<open>Verified parents\<close>

definition recordSeals :: "BlockSeal list \<Rightarrow> Indexer \<Rightarrow> Indexer" where
  "recordSeals seals i =
     i\<lparr>ixSealedResults := fold (\<lambda>seal m. mput m (bsBlockId seal) (bsResultId seal)) seals (ixSealedResults i)\<rparr>"

text \<open>
  One turn of the loop: \<open>Inl\<close> is the value of \<^verbatim>\<open>skipCache\<close> for the next turn, \<open>Inr\<close> the block
  that was accepted.
\<close>

definition tryParent ::
  "flowgo \<Rightarrow> access \<Rightarrow> Spork \<Rightarrow> bytes \<Rightarrow> u64 \<Rightarrow> bool \<Rightarrow> nat \<Rightarrow> ((bool, Block) sum \<times> nat) run" where
  "tryParent G A spork hash height sk t =
     (case acBlockHeaderByHeight A t sk height of
        Inl e \<Rightarrow> Ok (Inl sk, Suc t)
      | Inr hdr \<Rightarrow>
          if bhId hdr \<noteq> hash then Ok (Inl True, Suc t)
          else (case acBlockByHeight A (Suc t) sk height of
                  Inl e \<Rightarrow> Ok (Inl sk, Suc (Suc t))
                | Inr block \<Rightarrow>
                    if ebId block \<noteq> hash then Ok (Inl True, Suc (Suc t))
                    else (case verifyBlockHash G spork hash hdr block of
                            Ok _ \<Rightarrow> Ok (Inr block, Suc (Suc t))
                          | Err e \<Rightarrow> Ok (Inl True, Suc (Suc t))
                          | Panic p \<Rightarrow> Panic p
                          | Fatal m \<Rightarrow> Fatal m)))"

fun parentLoop ::
  "nat \<Rightarrow> flowgo \<Rightarrow> access \<Rightarrow> Spork run \<Rightarrow> bytes \<Rightarrow> u64 \<Rightarrow> bool \<Rightarrow> Indexer \<Rightarrow> nat
     \<Rightarrow> (bytes \<times> Indexer \<times> nat) run" where
  "parentLoop 0 G A spork hash height sk i t = Err OutOfFuel"
| "parentLoop (Suc n) G A spork hash height sk i t =
     (if acDone A t then Ok ([], i, t)
      else
        andThen spork (\<lambda>sp.
        andThen (tryParent G A sp hash height sk t) (\<lambda>(r, t1).
        case r of
          Inl sk' \<Rightarrow> parentLoop n G A spork hash height sk' i t1
        | Inr block \<Rightarrow> Ok (ebParentId block, recordSeals (ebBlockSeals block) i, t1))))"

text \<open>The nil result is the empty list: an absent bytes field of a message is nil too.\<close>

definition getVerifiedParent ::
  "nat \<Rightarrow> flowgo \<Rightarrow> access \<Rightarrow> Chain \<Rightarrow> bytes \<Rightarrow> u64 \<Rightarrow> Indexer \<Rightarrow> nat \<Rightarrow> (bytes \<times> Indexer \<times> nat) run" where
  "getVerifiedParent F G A chain hash height i t =
     parentLoop F G A (sporkFor chain height) hash height False i t"

subsection \<open>Past sporks\<close>

text \<open>A call of \<^verbatim>\<open>processBlock\<close> as its callers see it: on a cancelled context it just returns.\<close>

definition runBlock ::
  "nat \<Rightarrow> ('db, 'k, 's) world \<Rightarrow> Chain \<Rightarrow> Spork \<Rightarrow> u64 \<Rightarrow> bytes \<Rightarrow> Indexer \<Rightarrow> 'db Store \<Rightarrow> nat
     \<Rightarrow> (Indexer \<times> 'db Store \<times> nat) run" where
  "runBlock F W chain spork height hash i s t =
     (case processBlock F W chain spork height hash i s t of
        Err (Stopped t') \<Rightarrow> Ok (i, s, t')
      | r \<Rightarrow> r)"

text \<open>The hashes from the root of the live spork down to the start, the last one first.\<close>

fun pastHashes ::
  "nat \<Rightarrow> nat \<Rightarrow> flowgo \<Rightarrow> access \<Rightarrow> Chain \<Rightarrow> BlockMeta \<Rightarrow> u64 \<Rightarrow> u64 \<Rightarrow> bytes list \<Rightarrow> bytes \<Rightarrow> Indexer \<Rightarrow> nat
     \<Rightarrow> ((bytes list \<times> bytes) option \<times> Indexer \<times> nat) run" where
  "pastHashes 0 F G A chain root start height hashes parent i t = Err OutOfFuel"
| "pastHashes (Suc n) F G A chain root start height hashes parent i t =
     (if height < start then Ok (Some (hashes, parent), i, t)
      else if hashes = [] then
        pastHashes n F G A chain root start (height - 1) [bmHash root] (bmParent root) i t
      else
        andThen (getVerifiedParent F G A chain parent height i t) (\<lambda>(p, i1, t1).
        if p = [] then Ok (None, i1, t1)
        else pastHashes n F G A chain root start (height - 1) (hashes @ [parent]) p i1 t1))"

fun processHashes ::
  "nat \<Rightarrow> ('db, 'k, 's) world \<Rightarrow> Chain \<Rightarrow> u64 \<Rightarrow> bytes list \<Rightarrow> Indexer \<Rightarrow> 'db Store \<Rightarrow> nat
     \<Rightarrow> (Indexer \<times> 'db Store \<times> nat) run" where
  "processHashes F W chain height [] i s t = Ok (i, s, t)"
| "processHashes F W chain height (x # xs) i s t =
     (if acDone (wAccess W) t then Ok (i, s, t)
      else
        andThen (sporkFor chain height) (\<lambda>spork.
        andThen (runBlock F W chain spork height x i s t) (\<lambda>(i1, s1, t1).
        processHashes F W chain (height + 1) xs i1 s1 t1)))"

definition indexPastSporks ::
  "nat \<Rightarrow> ('db, 'k, 's) world \<Rightarrow> Chain \<Rightarrow> BlockMeta \<Rightarrow> u64 \<Rightarrow> Indexer \<Rightarrow> 'db Store \<Rightarrow> nat
     \<Rightarrow> (Indexer \<times> 'db Store \<times> nat) run" where
  "indexPastSporks F W chain lastIdx start i s t =
     (case ixLiveRoot i of
        None \<Rightarrow> Panic ''nil pointer dereference''
      | Some root \<Rightarrow>
          andThen (pastHashes F F (wGo W) (wAccess W) chain root start (bmHeight root) [] [] i t) (\<lambda>(r, i1, t1).
          case r of
            None \<Rightarrow> Ok (i1, s, t1)
          | Some (hashes, parent) \<Rightarrow>
              if bmHash lastIdx \<noteq> parent then Ok (i1, s, t1)
              else processHashes F W chain start (rev hashes) i1 s t1))"

subsection \<open>The live spork\<close>

record 'db live =
  lvIndexer :: Indexer
  lvStore :: "'db Store"
  lvTime :: nat
  lvHeight :: u64
  lvParent :: bytes
  lvBlocks :: "(bytes, u64) gomap"
  lvSynced :: bool
  lvBackoff :: int
  lvSkipCache :: bool

text \<open>The next turn for the same height, with the cache bypassed from now on or not.\<close>

definition liveRetry :: "bool \<Rightarrow> nat \<Rightarrow> 'db live \<Rightarrow> 'db live" where
  "liveRetry skip t lv = lv\<lparr>lvTime := t, lvSkipCache := (skip \<or> lvSkipCache lv)\<rparr>"

text \<open>The comparison of the block with the consensus follower: the error says what the next turn changes.\<close>

definition checkConsensusBlock ::
  "('db, 'k, 's) world \<Rightarrow> Chain \<Rightarrow> Block \<Rightarrow> 'db live \<Rightarrow> ('db live, unit) sum" where
  "checkConsensusBlock W chain block lv =
     (if \<not> chUseConsensusFollower chain then Inr ()
      else (case wBlockIDAt W (lvTime lv) (lvHeight lv) of
              Inl notFound \<Rightarrow>
                Inl (lv\<lparr>lvBackoff := (if notFound then nextBackoff chain (lvBackoff lv) else lvBackoff lv)\<rparr>)
            | Inr bid \<Rightarrow> if bid \<noteq> ebId block then Inl (lv\<lparr>lvSkipCache := True\<rparr>) else Inr ()))"

definition checkConsensusSeal :: "('db, 'k, 's) world \<Rightarrow> Chain \<Rightarrow> BlockSeal \<Rightarrow> nat \<Rightarrow> bool" where
  "checkConsensusSeal W chain seal t =
     (if \<not> chUseConsensusFollower chain then True
      else (case wSealIDOf W t (toFlowIdentifier (bsBlockId seal)) of
              None \<Rightarrow> False
            | Some sid \<Rightarrow>
                (case wSealAt W t sid of
                   None \<Rightarrow> False
                 | Some (bid, rid) \<Rightarrow> bsBlockId seal = bid \<and> bsResultId seal = rid)))"

text \<open>
  The seals of a block, in order. The boolean says that all of them were handled; otherwise the code
  jumps to the next turn with what was done so far.
\<close>

fun liveSeals ::
  "nat \<Rightarrow> ('db, 'k, 's) world \<Rightarrow> Chain \<Rightarrow> Spork \<Rightarrow> BlockSeal list \<Rightarrow> 'db live \<Rightarrow> (bool \<times> 'db live) run" where
  "liveSeals F W chain spork [] lv = Ok (True, lv)"
| "liveSeals F W chain spork (seal # seals) lv =
     (case map_of (lvBlocks lv) (bsBlockId seal) of
        None \<Rightarrow> liveSeals F W chain spork seals lv
      | Some height \<Rightarrow>
          if \<not> checkConsensusSeal W chain seal (lvTime lv) then Ok (False, lv)
          else
            andThen (runBlock F W chain spork height (bsBlockId seal)
                       ((lvIndexer lv)\<lparr>ixSealedResults :=
                          mput (ixSealedResults (lvIndexer lv)) (bsBlockId seal) (bsResultId seal)\<rparr>)
                       (lvStore lv) (lvTime lv)) (\<lambda>(i, s, t).
            liveSeals F W chain spork seals
              (lv\<lparr>lvIndexer := i, lvStore := s, lvTime := t,
                  lvBlocks := AList.delete (bsBlockId seal) (lvBlocks lv)\<rparr>)))"

text \<open>Within a minute of the tip the indexer counts as synced.\<close>

definition liveAdvance :: "('db, 'k, 's) world \<Rightarrow> Block \<Rightarrow> 'db live \<Rightarrow> 'db live" where
  "liveAdvance W block lv =
     (let near = (wNow W (lvTime lv) - (tsSeconds (ebTimestamp block) * 1000000000 + tsNanos (ebTimestamp block))
                    < 60000000000)
      in lv\<lparr>lvHeight := lvHeight lv + 1, lvParent := ebId block, lvSynced := near,
            lvIndexer := (if near \<noteq> lvSynced lv then (lvIndexer lv)\<lparr>ixSynced := near\<rparr> else lvIndexer lv),
            lvBackoff := 1000000000, lvSkipCache := False\<rparr>)"

text \<open>The checks of a block: \<open>Inl\<close> is the state for the next turn, \<open>Inr\<close> the state with the accepted block.\<close>

definition liveAccept ::
  "('db, 'k, 's) world \<Rightarrow> Chain \<Rightarrow> Spork \<Rightarrow> BlockHeader \<Rightarrow> Block \<Rightarrow> 'db live \<Rightarrow> ('db live, 'db live) sum run" where
  "liveAccept W chain spork hdr block lv =
     (if ebParentId block \<noteq> lvParent lv then Ok (Inl (liveRetry True (lvTime lv) lv))
      else (case verifyBlockHash (wGo W) spork (ebId block) hdr block of
              Err e \<Rightarrow> Ok (Inl (liveRetry True (lvTime lv) lv))
            | Panic p \<Rightarrow> Panic p
            | Fatal m \<Rightarrow> Fatal m
            | Ok _ \<Rightarrow>
                (case checkConsensusBlock W chain block lv of
                   Inl lv' \<Rightarrow> Ok (Inl lv')
                 | Inr _ \<Rightarrow> Ok (Inr (lv\<lparr>lvBlocks := mput (lvBlocks lv) (ebId block) (lvHeight lv)\<rparr>)))))"

definition liveBlock ::
  "nat \<Rightarrow> ('db, 'k, 's) world \<Rightarrow> Chain \<Rightarrow> Spork \<Rightarrow> BlockHeader \<Rightarrow> Block \<Rightarrow> 'db live \<Rightarrow> 'db live run" where
  "liveBlock F W chain spork hdr block lv =
     andThen (liveAccept W chain spork hdr block lv) (\<lambda>r.
     case r of
       Inl lv' \<Rightarrow> Ok lv'
     | Inr lv0 \<Rightarrow>
         andThen (liveSeals F W chain spork (ebBlockSeals block) lv0) (\<lambda>(finished, lv1).
         Ok (if finished then liveAdvance W block lv1 else lv1)))"

text \<open>The two requests at the start of a turn.\<close>

definition liveFetch :: "access \<Rightarrow> 'db live \<Rightarrow> ('db live, BlockHeader \<times> Block) sum run" where
  "liveFetch A lv =
     (let t = lvTime lv in
      if acDone A t then Err (Stopped t)
      else (case acBlockHeaderByHeight A t (lvSkipCache lv) (lvHeight lv) of
              Inl e \<Rightarrow> Ok (Inl (liveRetry False (Suc t) lv))
            | Inr hdr \<Rightarrow>
                (case acBlockByHeight A (Suc t) (lvSkipCache lv) (lvHeight lv) of
                   Inl e \<Rightarrow> Ok (Inl (liveRetry False (Suc (Suc t)) lv))
                 | Inr block \<Rightarrow> Ok (Inr (hdr, block)))))"

definition liveStep ::
  "nat \<Rightarrow> ('db, 'k, 's) world \<Rightarrow> Chain \<Rightarrow> Spork \<Rightarrow> 'db live \<Rightarrow> 'db live run" where
  "liveStep F W chain spork lv =
     andThen (liveFetch (wAccess W) lv) (\<lambda>r.
     case r of
       Inl lv' \<Rightarrow> Ok lv'
     | Inr (hdr, block) \<Rightarrow> liveBlock F W chain spork hdr block (lv\<lparr>lvTime := Suc (Suc (lvTime lv))\<rparr>))"

definition liveStart ::
  "nat \<Rightarrow> ('db, 'k, 's) world \<Rightarrow> Chain \<Rightarrow> Spork \<Rightarrow> BlockMeta \<Rightarrow> u64 \<Rightarrow> Indexer \<Rightarrow> 'db Store \<Rightarrow> nat \<Rightarrow> 'db live run" where
  "liveStart F W chain spork lastIdx start i s t =
     (let lv = \<lparr>lvIndexer = i, lvStore = s, lvTime = t, lvHeight = start, lvParent = bmHash lastIdx,
                lvBlocks = [], lvSynced = False, lvBackoff = 1000000000, lvSkipCache = False\<rparr>
      in if start = spRootBlock spork then
           (case ixLiveRoot i of
              None \<Rightarrow> Panic ''nil pointer dereference''
            | Some root \<Rightarrow>
                andThen (runBlock F W chain spork start (bmHash root) i s t) (\<lambda>(i1, s1, t1).
                Ok (lv\<lparr>lvIndexer := i1, lvStore := s1, lvTime := t1, lvHeight := start + 1,
                       lvParent := bmHash root\<rparr>)))
         else Ok lv)"

fun liveLoop ::
  "nat \<Rightarrow> nat \<Rightarrow> ('db, 'k, 's) world \<Rightarrow> Chain \<Rightarrow> Spork \<Rightarrow> 'db live \<Rightarrow> 'db live run" where
  "liveLoop 0 F W chain spork lv = Err OutOfFuel"
| "liveLoop (Suc n) F W chain spork lv =
     (case liveStep F W chain spork lv of
        Err (Stopped t) \<Rightarrow> Ok (lv\<lparr>lvTime := t\<rparr>)
      | Ok lv' \<Rightarrow> liveLoop n F W chain spork lv'
      | r \<Rightarrow> r)"

definition indexLiveSpork ::
  "nat \<Rightarrow> ('db, 'k, 's) world \<Rightarrow> Chain \<Rightarrow> Spork \<Rightarrow> BlockMeta \<Rightarrow> u64 \<Rightarrow> Indexer \<Rightarrow> 'db Store \<Rightarrow> nat
     \<Rightarrow> (Indexer \<times> 'db Store \<times> nat) run" where
  "indexLiveSpork F W chain spork lastIdx start i s t =
     andThen (liveStart F W chain spork lastIdx start i s t) (\<lambda>lv.
     andThen (liveLoop F F W chain spork lv) (\<lambda>lv1. Ok (lvIndexer lv1, lvStore lv1, lvTime lv1)))"

fun indexBlocks ::
  "nat \<Rightarrow> nat \<Rightarrow> ('db, 'k, 's) world \<Rightarrow> Chain \<Rightarrow> Indexer \<Rightarrow> 'db Store \<Rightarrow> nat
     \<Rightarrow> (Indexer \<times> 'db Store \<times> nat) run" where
  "indexBlocks 0 F W chain i s t = Err OutOfFuel"
| "indexBlocks (Suc n) F W chain i s t =
     (if acDone (wAccess W) t then Ok (i, s, t)
      else (case ixLastIndexed i of
              None \<Rightarrow> Panic ''nil pointer dereference''
            | Some m \<Rightarrow>
                let lastIdx = Clone m; start = bmHeight lastIdx + 1 in
                andThen (sporkFor chain start) (\<lambda>spork.
                if spNext spork = None then indexLiveSpork F W chain spork lastIdx start i s t
                else
                  andThen (indexPastSporks F W chain lastIdx start i s t) (\<lambda>(i1, s1, t1).
                  indexBlocks n F W chain i1 s1 t1))))"

subsection \<open>The goroutine, step by step\<close>

text \<open>
  \<^verbatim>\<open>indexBlocks\<close> runs in a goroutine of its own, beside the server that reads the same store. A position of the goroutine
  is one of the places of the code between two accesses of the store: the head of the loop of \<^verbatim>\<open>indexBlocks\<close>, the
  loop over the hashes of \<^verbatim>\<open>indexPastSporks\<close>, the head of the loop of \<^verbatim>\<open>indexLiveSpork\<close>, and its loop over the seals of a
  block. \<open>indexTurn\<close> goes to the next position. The store changes at most once on the way, by the last access of
  \<^verbatim>\<open>processBlock\<close>, so that the stores of the positions are all that the server can see. The end on a cancelled
  context is \<open>Stopped\<close>.
\<close>

datatype 'db position =
    Outer Indexer "'db Store" nat
  | Hashes u64 "bytes list" Indexer "'db Store" nat
  | LiveAt Spork "'db live"
  | Sealing Spork Block "BlockSeal list" "'db live"

fun posStore :: "'db position \<Rightarrow> 'db Store" where
  "posStore (Outer i s t) = s"
| "posStore (Hashes height hashes i s t) = s"
| "posStore (LiveAt spork lv) = lvStore lv"
| "posStore (Sealing spork block seals lv) = lvStore lv"

fun posIndexer :: "'db position \<Rightarrow> Indexer" where
  "posIndexer (Outer i s t) = i"
| "posIndexer (Hashes height hashes i s t) = i"
| "posIndexer (LiveAt spork lv) = lvIndexer lv"
| "posIndexer (Sealing spork block seals lv) = lvIndexer lv"

definition pastTurn ::
  "nat \<Rightarrow> ('db, 'k, 's) world \<Rightarrow> Chain \<Rightarrow> BlockMeta \<Rightarrow> u64 \<Rightarrow> Indexer \<Rightarrow> 'db Store \<Rightarrow> nat \<Rightarrow> 'db position run" where
  "pastTurn F W chain lastIdx start i s t =
     (case ixLiveRoot i of
        None \<Rightarrow> Panic ''nil pointer dereference''
      | Some root \<Rightarrow>
          andThen (pastHashes F F (wGo W) (wAccess W) chain root start (bmHeight root) [] [] i t) (\<lambda>(r, i1, t1).
          case r of
            None \<Rightarrow> Ok (Outer i1 s t1)
          | Some (hashes, parent) \<Rightarrow>
              if bmHash lastIdx \<noteq> parent then Ok (Outer i1 s t1) else Ok (Hashes start (rev hashes) i1 s t1)))"

fun indexTurn :: "nat \<Rightarrow> ('db, 'k, 's) world \<Rightarrow> Chain \<Rightarrow> 'db position \<Rightarrow> 'db position run" where
  "indexTurn F W chain (Outer i s t) =
     (if acDone (wAccess W) t then Err (Stopped t)
      else (case ixLastIndexed i of
              None \<Rightarrow> Panic ''nil pointer dereference''
            | Some m \<Rightarrow>
                let lastIdx = Clone m; start = bmHeight lastIdx + 1 in
                andThen (sporkFor chain start) (\<lambda>spork.
                if spNext spork = None
                then andThen (liveStart F W chain spork lastIdx start i s t) (\<lambda>lv. Ok (LiveAt spork lv))
                else pastTurn F W chain lastIdx start i s t)))"
| "indexTurn F W chain (Hashes height [] i s t) = Ok (Outer i s t)"
| "indexTurn F W chain (Hashes height (x # xs) i s t) =
     (if acDone (wAccess W) t then Ok (Outer i s t)
      else
        andThen (sporkFor chain height) (\<lambda>spork.
        andThen (runBlock F W chain spork height x i s t) (\<lambda>(i1, s1, t1).
        Ok (Hashes (height + 1) xs i1 s1 t1))))"
| "indexTurn F W chain (LiveAt spork lv) =
     andThen (liveFetch (wAccess W) lv) (\<lambda>r.
     case r of
       Inl lv' \<Rightarrow> Ok (LiveAt spork lv')
     | Inr (hdr, block) \<Rightarrow>
         andThen (liveAccept W chain spork hdr block (lv\<lparr>lvTime := Suc (Suc (lvTime lv))\<rparr>)) (\<lambda>r.
         case r of
           Inl lv' \<Rightarrow> Ok (LiveAt spork lv')
         | Inr lv0 \<Rightarrow> Ok (Sealing spork block (ebBlockSeals block) lv0)))"
| "indexTurn F W chain (Sealing spork block [] lv) = Ok (LiveAt spork (liveAdvance W block lv))"
| "indexTurn F W chain (Sealing spork block (seal # seals) lv) =
     andThen (liveSeals F W chain spork [seal] lv) (\<lambda>(handled, lv1).
     Ok (if handled then Sealing spork block seals lv1 else LiveAt spork lv1))"

text \<open>The goroutine after a number of turns. When it has ended on a cancelled context, it stays at its last position.\<close>

fun indexTurns :: "nat \<Rightarrow> nat \<Rightarrow> ('db, 'k, 's) world \<Rightarrow> Chain \<Rightarrow> 'db position \<Rightarrow> 'db position run" where
  "indexTurns 0 F W chain p = Ok p"
| "indexTurns (Suc n) F W chain p =
     (case indexTurn F W chain p of
        Err (Stopped t) \<Rightarrow> Ok p
      | Ok q \<Rightarrow> indexTurns n F W chain q
      | r \<Rightarrow> r)"

subsection \<open>Starting up\<close>

text \<open>A store operation whose failure stops the process.\<close>

definition orFatal :: "string \<Rightarrow> 'db Store \<times> (db_error, 'a) outcome \<Rightarrow> ('a \<times> 'db Store) run" where
  "orFatal msg r =
     (case r of
        (s, Ok x) \<Rightarrow> Ok (x, s)
      | (s, Err e) \<Rightarrow> Fatal msg
      | (s, Panic p) \<Rightarrow> Panic p
      | (s, Fatal m) \<Rightarrow> Fatal m)"

definition checkedRun :: "'a checked \<Rightarrow> 'a run" where
  "checkedRun m = mapErr (\<lambda>_. OutOfFuel) m"

definition initStore ::
  "nat \<Rightarrow> 'db env \<Rightarrow> access \<Rightarrow> Chain \<Rightarrow> Indexer \<Rightarrow> 'db Store \<Rightarrow> nat \<Rightarrow> (bool \<times> Indexer \<times> 'db Store \<times> nat) run" where
  "initStore F E A chain i s t =
     andThen (orFatal [] (Genesis E s)) (\<lambda>(g, s1).
     case g of
       Some _ \<Rightarrow>
         andThen (orFatal [] (Latest E s1)) (\<lambda>(l, s2).
         andThen (checkedRun (LatestSpork chain)) (\<lambda>sp.
         andThen (findRootBlock F A sp t) (\<lambda>(root, t1).
         Ok (root \<noteq> None, i\<lparr>ixLastIndexed := l, ixLiveRoot := root\<rparr>, s2, t1))))
     | None \<Rightarrow>
         andThen (checkedRun (FirstSpork chain)) (\<lambda>sp0.
         andThen (findRootBlock F A sp0 t) (\<lambda>(gen, t1).
         case gen of
           None \<Rightarrow> Ok (False, i, s1, t1)
         | Some gb \<Rightarrow>
             andThen (orFatal ''Could not set the genesis block on the index database'' (SetGenesis E s1 gb)) (\<lambda>(_, s2).
             andThen (checkedRun (LatestSpork chain)) (\<lambda>sp.
             andThen (findRootBlock F A sp t1) (\<lambda>(root, t2).
             Ok (root \<noteq> None, i\<lparr>ixLastIndexed := Some gb, ixLiveRoot := root\<rparr>, s2, t2)))))))"

definition handlePurgeProxyAccounts ::
  "'db env \<Rightarrow> ((bytes \<times> bytes) list \<Rightarrow> (bytes \<times> bytes) list) \<Rightarrow> Chain \<Rightarrow> 'db Store \<Rightarrow> 'db Store run" where
  "handlePurgeProxyAccounts E ord chain s =
     (if chPurgeProxyAccounts chain then andThen (orFatal [] (PurgeProxyAccounts E ord s)) (\<lambda>(_, s1). Ok s1)
      else Ok s)"

definition handleResyncFrom :: "'db env \<Rightarrow> Chain \<Rightarrow> Indexer \<Rightarrow> 'db Store \<Rightarrow> (Indexer \<times> 'db Store) run" where
  "handleResyncFrom E chain i s =
     (let height = chResyncFrom chain in
      if height = 0 then Ok (i, s)
      else
        andThen (orFatal [] (Genesis E s)) (\<lambda>(g, s1).
        case g of
          None \<Rightarrow> Panic ''nil pointer dereference''
        | Some gb \<Rightarrow>
            if height < bmHeight gb then Fatal ''The resync_from value cannot be less than the genesis height''
            else
              andThen (orFatal ''Failed to reset data for resync_from'' (ResetTo E s1 height)) (\<lambda>(_, s2).
              andThen (orFatal [] (Latest E s2)) (\<lambda>(l, s3).
              case l of
                None \<Rightarrow> Panic ''nil pointer dereference''
              | Some _ \<Rightarrow> Ok (i\<lparr>ixLastIndexed := l\<rparr>, s3)))))"

definition eventType :: "string \<Rightarrow> string \<Rightarrow> string" where
  "eventType addr name = ''A.'' @ addr @ ''.'' @ name"

definition initState :: "'db env \<Rightarrow> Chain \<Rightarrow> Indexer \<Rightarrow> 'db Store \<Rightarrow> Indexer run" where
  "initState E chain i s =
     andThen (orFatal ''Failed to load accounts from the index database'' (s, Accounts E s)) (\<lambda>(accts, _).
     andThen (checkedRun (FeeAddresses (chContracts chain))) (\<lambda>fees.
     let proxy = ctFlowColdStorageProxy (chContracts chain); token = ctFlowToken (chContracts chain) in
     Ok (i\<lparr>ixAccts := accts, ixFeeAddrs := fees,
           ixOriginators := fold (\<lambda>addr m. mput m addr True) (chOriginators chain) [],
           ixSealedResults := [],
           ixTypProxyCreated := eventType proxy ''FlowColdStorageProxy.Created'',
           ixTypProxyDeposited := eventType proxy ''FlowColdStorageProxy.Deposited'',
           ixTypProxyTransferred := eventType proxy ''FlowColdStorageProxy.Transferred'',
           ixTypTokensDeposited := eventType token ''FlowToken.TokensDeposited'',
           ixTypTokensWithdrawn := eventType token ''FlowToken.TokensWithdrawn''\<rparr>)))"

definition lastIndexedHeight :: "Indexer \<Rightarrow> u64 run" where
  "lastIndexedHeight i =
     (case ixLastIndexed i of None \<Rightarrow> Panic ''nil pointer dereference'' | Some m \<Rightarrow> Ok (bmHeight m))"

definition Synced :: "Indexer \<Rightarrow> bool" where
  "Synced i = ixSynced i"

text \<open>
  \<^verbatim>\<open>Run\<close> as its caller sees it is \<open>startUp\<close>: it returns when the goroutine that indexes is started, or without one when
  the context was cancelled, and the boolean says which. The workers only fill the cache; the follower keeps its
  snapshot in \<^verbatim>\<open>i.root\<close>. \<open>Run\<close> goes on with the goroutine until it ends.
\<close>

definition startFollower :: "nat \<Rightarrow> 'h host \<Rightarrow> Chain \<Rightarrow> Indexer \<Rightarrow> Indexer run" where
  "startFollower F H chain i =
     (if chUseConsensusFollower chain
      then andThen (runConsensusFollower F H chain 0) (\<lambda>(_, _, root). Ok (i\<lparr>ixRoot := Some root\<rparr>))
      else Ok i)"

definition startUp ::
  "nat \<Rightarrow> ('db, 'k, 's) world \<Rightarrow> 'h host \<Rightarrow> ((bytes \<times> bytes) list \<Rightarrow> (bytes \<times> bytes) list) \<Rightarrow> Chain \<Rightarrow> Indexer
     \<Rightarrow> 'db Store \<Rightarrow> nat \<Rightarrow> (bool \<times> Indexer \<times> 'db Store \<times> nat) run" where
  "startUp F W H ord chain i s t =
     andThen (initStore F (wEnv W) (wAccess W) chain i s t) (\<lambda>(ok, i1, s1, t1).
     if \<not> ok then Ok (False, i1, s1, t1)
     else
       andThen (handlePurgeProxyAccounts (wEnv W) ord chain s1) (\<lambda>s2.
       andThen (handleResyncFrom (wEnv W) chain i1 s2) (\<lambda>(i3, s3).
       andThen (initState (wEnv W) chain i3 s3) (\<lambda>i4.
       andThen (initWorkers H chain i4) (\<lambda>_.
       andThen (startFollower F H chain i4) (\<lambda>i5. Ok (True, i5, s3, t1)))))))"

definition Run ::
  "nat \<Rightarrow> ('db, 'k, 's) world \<Rightarrow> 'h host \<Rightarrow> ((bytes \<times> bytes) list \<Rightarrow> (bytes \<times> bytes) list) \<Rightarrow> Chain \<Rightarrow> Indexer
     \<Rightarrow> 'db Store \<Rightarrow> nat \<Rightarrow> (Indexer \<times> 'db Store \<times> nat) run" where
  "Run F W H ord chain i s t =
     andThen (startUp F W H ord chain i s t) (\<lambda>(started, i1, s1, t1).
     if started then indexBlocks F F W chain i1 s1 t1 else Ok (i1, s1, t1))"

subsection \<open>Prefetching\<close>

text \<open>
  The jobs that one header of a finalised block adds: the heights after the last scheduled one. (At
  the largest 64-bit height the loop of the code would not end; no chain reaches it.)
\<close>

definition jobsFor :: "u64 \<Rightarrow> u64 \<Rightarrow> u64 list" where
  "jobsFor start tip = (if start \<ge> tip then [] else map of_nat [unat start + 1..<unat tip + 1])"

text \<open>\<^verbatim>\<open>scheduleJobs\<close> on the heights of the headers it receives, in order; errors are skipped.\<close>

fun scheduleJobs :: "u64 \<Rightarrow> (grpcError, u64) sum list \<Rightarrow> u64 list \<times> u64" where
  "scheduleJobs start [] = ([], start)"
| "scheduleJobs start (Inl e # rs) = scheduleJobs start rs"
| "scheduleJobs start (Inr tip # rs) =
     (if start \<ge> tip then scheduleJobs start rs
      else (case scheduleJobs tip rs of (jobs, fin) \<Rightarrow> (jobsFor start tip @ jobs, fin)))"

text \<open>A call whose answer is only wanted in the cache; an error starts the next attempt.\<close>

definition prefetchCall :: "(grpcError, 'a) sum \<Rightarrow> pvars \<Rightarrow> ('a \<times> pvars) run" where
  "prefetchCall r pv = (case r of Inl e \<Rightarrow> Err (Again (tick pv)) | Inr x \<Rightarrow> Ok (x, tick pv))"

fun prefetchTxns :: "access \<Rightarrow> bytes \<Rightarrow> bytes list \<Rightarrow> nat \<Rightarrow> pvars \<Rightarrow> (nat \<times> pvars) run" where
  "prefetchTxns A hid [] k pv = Ok (k, pv)"
| "prefetchTxns A hid (x # xs) k pv =
     (if acDone A (pvTime pv) then Err (Stopped (pvTime pv))
      else
        andThen (prefetchCall (acTransaction A (pvTime pv) False x) pv) (\<lambda>(_, pv1).
        andThen (prefetchCall (acTransactionResult A (pvTime pv1) False hid (of_nat k)) pv1) (\<lambda>(_, pv2).
        prefetchTxns A hid xs (Suc k) pv2)))"

fun prefetchCollections :: "access \<Rightarrow> bytes \<Rightarrow> CollectionGuarantee list \<Rightarrow> nat \<Rightarrow> pvars \<Rightarrow> (nat \<times> pvars) run" where
  "prefetchCollections A hid [] k pv = Ok (k, pv)"
| "prefetchCollections A hid (g # gs) k pv =
     (if acDone A (pvTime pv) then Err (Stopped (pvTime pv))
      else
        andThen (prefetchCall (acCollectionByID A (pvTime pv) False (cgCollectionId g)) pv) (\<lambda>(ids, pv1).
        andThen (prefetchTxns A hid ids k pv1) (\<lambda>(k1, pv2). prefetchCollections A hid gs k1 pv2)))"

definition prefetchSlow :: "access \<Rightarrow> bytes \<Rightarrow> Block \<Rightarrow> pvars \<Rightarrow> pvars run" where
  "prefetchSlow A hid block pv =
     (if \<not> pvSlowPath pv then Ok pv
      else
        andThen (prefetchCollections A hid (ebCollectionGuarantees block) 0 pv) (\<lambda>(k, pv1).
        andThen (prefetchCall (acTransactionResult A (pvTime pv1) False hid (of_nat k)) pv1) (\<lambda>(_, pv2). Ok pv2)))"

definition prefetchExecution :: "access \<Rightarrow> Chain \<Rightarrow> Block \<Rightarrow> pvars \<Rightarrow> pvars run" where
  "prefetchExecution A chain block pv =
     (case acExecutionResultForBlockID A (pvTime pv) False (ebId block) of
        Inr _ \<Rightarrow> Ok (tick pv)
      | Inl e \<Rightarrow>
          Err (Again (if geCode e = NotFound then (tick pv)\<lparr>pvBackoff := nextBackoff chain (pvBackoff pv)\<rparr>
                      else tick pv)))"

definition prefetchBlock :: "access \<Rightarrow> Chain \<Rightarrow> u64 \<Rightarrow> pvars \<Rightarrow> pvars run" where
  "prefetchBlock A chain height pv =
     andThen (prefetchCall (acBlockHeaderByHeight A (pvTime pv) False height) pv) (\<lambda>(hdr, pv1).
     andThen (prefetchCall (acBlockByHeight A (pvTime pv1) False height) pv1) (\<lambda>(block, pv2).
     andThen (batched chain True (\<lambda>n sk. acTransactionsByBlockID A n sk (bhId hdr)) pv2) (\<lambda>(_, pv3).
     andThen (batched chain True (\<lambda>n sk. acTransactionResultsByBlockID A n sk (bhId hdr)) pv3) (\<lambda>(_, pv4).
     andThen (prefetchSlow A (bhId hdr) block pv4) (\<lambda>pv5.
     prefetchExecution A chain block pv5)))))"

fun runWorker :: "nat \<Rightarrow> access \<Rightarrow> Chain \<Rightarrow> u64 \<Rightarrow> pvars \<Rightarrow> pvars run" where
  "runWorker 0 A chain height pv = Err OutOfFuel"
| "runWorker (Suc n) A chain height pv =
     (if acDone A (pvTime pv) then Err (Stopped (pvTime pv))
      else (case andThen (sporkFor chain height) (\<lambda>_. prefetchBlock A chain height pv) of
              Err (Again pv') \<Rightarrow> runWorker n A chain height pv'
            | r \<Rightarrow> r))"

end
