(* ===== verification/SyncerProps.thy ===== *)
theory SyncerProps
  imports Syncer ProcessProps
begin

section \<open>Properties of the indexer\<close>

text \<open>
  What the loops of \<open>Syncer\<close> do to the store, over many blocks: they only ever append blocks to the
  chain that the store represents, and the hashes they index are linked by verified blocks. Then the
  arithmetic of the back-off and of the scheduled jobs, and the start-up from an existing store.
\<close>

subsection \<open>The chain only grows\<close>

text \<open>
  The identifier of a block names its height. \<open>tame\<close> collects what the loops rely on: the
  iteration order of Go maps loses nothing, an address is created once, and the Access API answers a
  request by height with a block of that height.
\<close>

definition ids_ok :: "(bytes \<Rightarrow> u64) \<Rightarrow> BlockMeta \<Rightarrow> blk list \<Rightarrow> bool" where
  "ids_ok idh g bs \<longleftrightarrow> (\<forall>n b. blkAt g bs n = Some b \<longrightarrow> unat (idh (fst b)) = n)"

definition tame :: "nat \<Rightarrow> ('db, 'k, 's) world \<Rightarrow> Chain \<Rightarrow> (bytes \<Rightarrow> u64) \<Rightarrow> bool" where
  "tame F W chain idh \<longleftrightarrow>
     (\<forall>n k. range_order (wRange W n k)) \<and> (\<forall>n. range_order (wIndexRange W n)) \<and>
     (\<forall>spork height hash. fresh_accounts F W chain spork height hash) \<and>
     (\<forall>n sk h block. acBlockByHeight (wAccess W) n sk h = Inr block \<longrightarrow> idh (ebId block) = h) \<and>
     sporks_ok (chSporks chain) \<and> chSporks chain \<noteq> []"

definition holds :: "('db, 'k, 's) world \<Rightarrow> Chain \<Rightarrow> (bytes \<Rightarrow> u64) \<Rightarrow> BlockMeta \<Rightarrow> blk list \<Rightarrow> Indexer \<Rightarrow> 'db Store \<Rightarrow> bool" where
  "holds W chain idh g bs i s \<longleftrightarrow>
     indexer_ok i \<and> ids_ok idh g bs \<and> (\<exists>l. represents (wEnv W) s g l bs \<and> latest s = Some l) \<and>
     (\<forall>root. ixLiveRoot i = Some root \<longrightarrow>
        idh (bmHash root) = bmHeight root \<and> bmHeight root = spRootBlock (last (chSporks chain)))"

definition grown :: "('db, 'k, 's) world \<Rightarrow> Chain \<Rightarrow> (bytes \<Rightarrow> u64) \<Rightarrow> BlockMeta \<Rightarrow> blk list \<Rightarrow> Indexer \<Rightarrow> 'db Store \<Rightarrow> bool" where
  "grown W chain idh g bs i s \<longleftrightarrow> (\<exists>bs'. holds W chain idh g (bs @ bs') i s)"

lemma ids_ok_fresh:
  assumes "ids_ok idh g bs" "tipHeight g bs < 2 ^ 64" "tipHeight g bs < unat (idh hash)"
  shows "hash \<notin> fst ` set (chainOf g bs)"
proof
  assume "hash \<in> fst ` set (chainOf g bs)"
  then obtain b where b: "b \<in> set (chainOf g bs)" "fst b = hash" by auto
  from chain_blkAt [OF assms(2) b(1)] obtain h :: u64 where h: "blkAt g bs (unat h) = Some b" by blast
  with assms(1) b(2) have "unat (idh hash) = unat h" unfolding ids_ok_def by blast
  moreover from h have "unat h \<le> tipHeight g bs" by (auto simp: blkAt_def split: if_splits)
  ultimately show False using assms(3) by simp
qed

lemma ids_ok_append:
  assumes "ids_ok idh g bs" "unat (idh hash) = Suc (tipHeight g bs)"
  shows "ids_ok idh g (bs @ [(hash, b)])"
  unfolding ids_ok_def
proof (intro allI impI)
  fix n x assume x: "blkAt g (bs @ [(hash, b)]) n = Some x"
  show "unat (idh (fst x)) = n"
  proof (cases "n \<le> tipHeight g bs")
    case True
    with x have "blkAt g bs n = Some x"
      by (auto simp: blkAt_def chainOf_def tipHeight_def nth_append nth_Cons' split: if_splits)
    with assms(1) show ?thesis unfolding ids_ok_def by blast
  next
    case False
    with x have "n = Suc (tipHeight g bs)" "x = (hash, b)"
      by (auto simp: blkAt_def chainOf_def tipHeight_def nth_append nth_Cons' split: if_splits)
    with assms(2) show ?thesis by simp
  qed
qed

lemma holds_rename:
  "holds W chain idh g bs i s \<Longrightarrow> holds W chain idh g bs (i\<lparr>ixSealedResults := sr\<rparr>) s"
  "holds W chain idh g bs i s \<Longrightarrow> holds W chain idh g bs (i\<lparr>ixSynced := b\<rparr>) s"
  by (simp_all add: holds_def indexer_ok_def)

lemma grown_rename [simp]:
  "grown W chain idh g bs i s \<Longrightarrow> grown W chain idh g bs (i\<lparr>ixSealedResults := sr\<rparr>) s"
  "grown W chain idh g bs i s \<Longrightarrow> grown W chain idh g bs (i\<lparr>ixSynced := b\<rparr>) s"
  by (auto simp: grown_def intro: holds_rename)

lemma processBlock_holds:
  assumes tame: "tame F W chain idh" and holds: "holds W chain idh g bs i s"
    and run: "processBlock F W chain spork height hash i s t = Ok (i', s', t')" and id: "idh hash = height"
  shows "\<exists>bs'. holds W chain idh g (bs @ bs') i' s'"
proof -
  have tm: "\<And>n k. range_order (wRange W n k)" "\<And>n. range_order (wIndexRange W n)"
      "fresh_accounts F W chain spork height hash" using tame by (simp_all add: tame_def)
  have i: "indexer_ok i" and ids: "ids_ok idh g bs"
      and root: "\<forall>r. ixLiveRoot i = Some r \<longrightarrow> idh (bmHash r) = bmHeight r \<and> bmHeight r = spRootBlock (last (chSporks chain))"
    using holds by (simp_all add: holds_def)
  from holds obtain l where l: "represents (wEnv W) s g l bs" "latest s = Some l" by (auto simp: holds_def)
  obtain b k where b: "Index (wEnv W) (wIndexRange W k) s height hash b = (s', Ok ())" "block_ok b" "indexer_ok i'"
      "ixLiveRoot i' = ixLiveRoot i"
    by (rule processBlock_Index [OF run tm(1) i tm(3)])
  have tip: "tipHeight g bs < 2 ^ 64" using represents_chain [OF l(1)] by (simp add: chain_ok_def)
  have lh: "unat (bmHeight l) = tipHeight g bs"
    using l(1) tip by (simp add: represents_def latestOf_def unat_of_nat)
  show ?thesis
  proof (cases "bmHeight l \<ge> height")
    case True
    with b(1) l(2) have "s' = s" by (simp add: Index_def)
    with b holds l show ?thesis by (intro exI [of _ "[]"]) (auto simp: holds_def)
  next
    case False
    with b(1) l(2) have h: "height = bmHeight l + 1" by (auto simp: Index_def split: if_splits)
    with False have u: "unat height = Suc (tipHeight g bs)"
      using lh by (simp add: word_le_nat_alt unat_word_ariths mod_Suc split: if_splits)
    then have "Suc (tipHeight g bs) < 2 ^ 64" using unsigned_less [of height, where 'a = nat] by simp
    moreover have "hash \<notin> fst ` set (chainOf g bs)" using ids_ok_fresh [OF ids tip] id u by simp
    ultimately obtain l' where "represents (wEnv W) s' g l' (bs @ [(hash, b)])" "latest s' = Some l'"
      using Index_extends [OF b(1) l h _ _ tm(2) b(2)] by metis
    moreover have "ids_ok idh g (bs @ [(hash, b)])" using ids_ok_append [OF ids] id u by simp
    ultimately show ?thesis using b root by (intro exI [of _ "[(hash, b)]"]) (auto simp: holds_def)
  qed
qed

lemma Index_genesis: "Index E ord s height hash b = (s', r) \<Longrightarrow> genesis s' = genesis s"
  by (auto simp: Index_def split: option.splits if_splits outcome.splits)

lemma runBlock_genesis:
  assumes "tame F W chain idh" "grown W chain idh g bs i s"
    and "runBlock F W chain spork height hash i s t = Ok (i', s', t')"
  shows "genesis s' = genesis s"
proof (cases "processBlock F W chain spork height hash i s t")
  case (Ok r)
  with assms(3) have run: "processBlock F W chain spork height hash i s t = Ok (i', s', t')" by (simp add: runBlock_def)
  have "\<And>n k. range_order (wRange W n k)" "fresh_accounts F W chain spork height hash" "indexer_ok i"
    using assms(1,2) by (auto simp: tame_def grown_def holds_def)
  from processBlock_Index [OF run this(1,3,2)] show ?thesis by (metis Index_genesis)
qed (use assms in \<open>auto simp: runBlock_def split: exit.splits\<close>)

lemma runBlock_grown:
  assumes "tame F W chain idh" "grown W chain idh g bs i s"
    and "runBlock F W chain spork height hash i s t = Ok (i', s', t')" "idh hash = height"
  shows "grown W chain idh g bs i' s'"
proof (cases "processBlock F W chain spork height hash i s t")
  case (Ok r)
  with assms(3) have run: "processBlock F W chain spork height hash i s t = Ok (i', s', t')" by (simp add: runBlock_def)
  from assms(2) obtain cs where "holds W chain idh g (bs @ cs) i s" by (auto simp: grown_def)
  from processBlock_holds [OF assms(1) this run assms(4)] show ?thesis by (metis append.assoc grown_def)
qed (use assms in \<open>auto simp: runBlock_def split: exit.splits\<close>)

subsection \<open>Verified parents\<close>

text \<open>The evidence for a hash at a height: a header and a block of the servers that pass the check.\<close>

definition verifiedAt :: "flowgo \<Rightarrow> access \<Rightarrow> Chain \<Rightarrow> u64 \<Rightarrow> bytes \<Rightarrow> Block \<Rightarrow> bool" where
  "verifiedAt G A chain height hash block \<longleftrightarrow>
     ebId block = hash \<and>
     (\<exists>sp hdr n sk. sporkFor chain height = Ok sp \<and> acBlockHeaderByHeight A n sk height = Inr hdr \<and> bhId hdr = hash \<and>
        acBlockByHeight A (Suc n) sk height = Inr block \<and> verifyBlockHash G sp hash hdr block = Ok ())"

lemma tryParent_Inr:
  assumes "tryParent G A sp hash height sk t = Ok (Inr block, t')" "sporkFor chain height = Ok sp"
  shows "verifiedAt G A chain height hash block"
  using assms by (auto simp: tryParent_def verifiedAt_def split: sum.splits if_splits outcome.splits)

lemma parentLoop_Ok:
  "parentLoop n G A (sporkFor chain height) hash height sk i t = Ok (p, i', t') \<Longrightarrow>
   (p = [] \<and> i' = i) \<or>
   (\<exists>block. verifiedAt G A chain height hash block \<and> p = ebParentId block \<and> i' = recordSeals (ebBlockSeals block) i)"
proof (induction n arbitrary: sk t)
  case (Suc n)
  show ?case
  proof (cases "acDone A t")
    case False
    with Suc.prems obtain sp r t1 where sp: "sporkFor chain height = Ok sp" "tryParent G A sp hash height sk t = Ok (r, t1)"
        "(case r of Inl sk' \<Rightarrow> parentLoop n G A (sporkFor chain height) hash height sk' i t1
          | Inr block \<Rightarrow> Ok (ebParentId block, recordSeals (ebBlockSeals block) i, t1)) = Ok (p, i', t')"
      by auto
    show ?thesis
    proof (cases r)
      case (Inl sk')
      with sp(3) Suc.IH show ?thesis by simp
    next
      case (Inr block)
      with sp(2) tryParent_Inr [OF _ sp(1)] have "verifiedAt G A chain height hash block" by blast
      with sp(3) Inr show ?thesis by auto
    qed
  qed (use Suc.prems in simp)
qed simp

lemma getVerifiedParent_Ok:
  assumes "getVerifiedParent F G A chain hash height i t = Ok (p, i', t')" "p \<noteq> []"
  obtains block where "verifiedAt G A chain height hash block" "p = ebParentId block"
    "i' = recordSeals (ebBlockSeals block) i"
  using assms parentLoop_Ok unfolding getVerifiedParent_def by blast

lemma getVerifiedParent_indexer:
  assumes "getVerifiedParent F G A chain hash height i t = Ok (p, i', t')"
  shows "\<exists>sr. i' = i\<lparr>ixSealedResults := sr\<rparr>"
proof -
  have "i = i\<lparr>ixSealedResults := ixSealedResults i\<rparr>" by simp
  with parentLoop_Ok [OF assms [unfolded getVerifiedParent_def]] show ?thesis
    unfolding recordSeals_def by blast
qed

text \<open>
  The hashes of a list, from a height downwards, are linked by verified blocks: each block claims the
  next hash as its parent, and the last one claims \<open>p\<close>.
\<close>

fun linkedDown :: "flowgo \<Rightarrow> access \<Rightarrow> Chain \<Rightarrow> u64 \<Rightarrow> bytes list \<Rightarrow> bytes \<Rightarrow> bool" where
  "linkedDown G A chain height [] p \<longleftrightarrow> True"
| "linkedDown G A chain height (x # xs) p \<longleftrightarrow>
     (\<exists>block. verifiedAt G A chain height x block \<and> ebParentId block = hd (xs @ [p])) \<and>
     linkedDown G A chain (height - 1) xs p"

lemma unat_pred: "0 < start \<Longrightarrow> start \<le> h \<Longrightarrow> unat (h - 1) = unat h - 1 \<and> 0 < unat h" for h :: u64
  using unat_minus_one [of h] by (cases "h = 0") (auto simp: word_less_nat_alt word_le_nat_alt)

lemma pastHashes_Ok:
  "pastHashes n F G A chain root start height hashes parent i t = Ok (r, i', t') \<Longrightarrow> hashes \<noteq> [] \<Longrightarrow>
   (\<exists>sr. i' = i\<lparr>ixSealedResults := sr\<rparr>) \<and>
   (\<forall>hs p. r = Some (hs, p) \<longrightarrow>
      (\<exists>xs. hs = hashes @ xs \<and> linkedDown G A chain height xs p \<and> hd (xs @ [p]) = parent \<and>
        0 < start \<and> length xs = Suc (unat height) - unat start))"
proof (induction n arbitrary: height hashes parent i t)
  case (Suc n)
  show ?case
  proof (cases "height < start")
    case True
    with Suc.prems have "r = Some (hashes, parent)" "i' = i" by auto
    moreover have "i = i\<lparr>ixSealedResults := ixSealedResults i\<rparr>" by simp
    then have "\<exists>sr. i = i\<lparr>ixSealedResults := sr\<rparr>" ..
    ultimately show ?thesis using True by (auto intro: exI [of _ "[]"] simp: word_less_nat_alt)
  next
    case False
    with Suc.prems obtain p i1 t1 where
        g: "getVerifiedParent F G A chain parent height i t = Ok (p, i1, t1)"
        and step: "(if p = [] then Ok (None, i1, t1)
          else pastHashes n F G A chain root start (height - 1) (hashes @ [parent]) p i1 t1) = Ok (r, i', t')"
      by auto
    from getVerifiedParent_indexer [OF g] obtain sr where sr: "i1 = i\<lparr>ixSealedResults := sr\<rparr>" by blast
    show ?thesis
    proof (cases "p = []")
      case False
      with step have rest: "pastHashes n F G A chain root start (height - 1) (hashes @ [parent]) p i1 t1 = Ok (r, i', t')"
        by simp
      obtain block where b: "verifiedAt G A chain height parent block" "p = ebParentId block"
        using getVerifiedParent_Ok [OF g False] by metis
      note IH = Suc.IH [OF rest]
      have "\<exists>xs. hs = hashes @ xs \<and> linkedDown G A chain height xs q \<and> hd (xs @ [q]) = parent \<and>
          0 < start \<and> length xs = Suc (unat height) - unat start" if r: "r = Some (hs, q)" for hs q
      proof -
        from IH r obtain ys where ys: "hs = (hashes @ [parent]) @ ys" "linkedDown G A chain (height - 1) ys q"
            "hd (ys @ [q]) = p" "0 < start" "length ys = Suc (unat (height - 1)) - unat start" by auto
        have "start \<le> height" using \<open>\<not> height < start\<close> by simp
        with ys(5) unat_pred [OF ys(4), of height] have "Suc (length ys) = Suc (unat height) - unat start"
          by (simp add: word_le_nat_alt)
        with b ys show ?thesis by (intro exI [of _ "parent # ys"]) auto
      qed
      moreover have "\<exists>sr. i' = i\<lparr>ixSealedResults := sr\<rparr>" using IH sr by auto
      ultimately show ?thesis by blast
    qed (use step sr in auto)
  qed
qed simp

subsection \<open>Every loop keeps the chain\<close>

lemma linkedDown_ids:
  assumes "\<And>n sk h block. acBlockByHeight A n sk h = Inr block \<Longrightarrow> idh (ebId block) = h"
  shows "linkedDown G A chain height xs p \<Longrightarrow> k < length xs \<Longrightarrow> idh (xs ! k) = height - of_nat k"
proof (induction xs arbitrary: height k)
  case (Cons x xs)
  show ?case
  proof (cases k)
    case 0
    with Cons.prems(1) assms show ?thesis by (auto simp: verifiedAt_def)
  next
    case (Suc j)
    with Cons.IH [of "height - 1" j] Cons.prems show ?thesis by (simp add: algebra_simps)
  qed
qed simp

lemma processHashes_grown:
  assumes "tame F W chain idh"
  shows "processHashes F W chain height xs i s t = Ok (i', s', t') \<Longrightarrow> grown W chain idh g bs i s \<Longrightarrow>
     \<forall>k < length xs. idh (xs ! k) = height + of_nat k \<Longrightarrow> grown W chain idh g bs i' s'"
proof (induction xs arbitrary: height i s t)
  case (Cons x xs)
  show ?case
  proof (cases "acDone (wAccess W) t")
    case False
    with Cons.prems(1) obtain sp i1 s1 t1 where
        one: "runBlock F W chain sp height x i s t = Ok (i1, s1, t1)"
        and rest: "processHashes F W chain (height + 1) xs i1 s1 t1 = Ok (i', s', t')" by auto
    have "idh x = height" using Cons.prems(3) by fastforce
    from runBlock_grown [OF assms Cons.prems(2) one this] Cons.IH [OF rest]
    have "\<forall>k < length xs. idh (xs ! k) = height + 1 + of_nat k \<Longrightarrow> grown W chain idh g bs i' s'" by blast
    moreover have "\<forall>k < length xs. idh (xs ! k) = height + 1 + of_nat k"
    proof (intro allI impI)
      fix k assume "k < length xs"
      with Cons.prems(3) [rule_format, of "Suc k"] show "idh (xs ! k) = height + 1 + of_nat k" by simp
    qed
    ultimately show ?thesis by blast
  qed (use Cons.prems in simp)
qed simp

lemma pastHashes_root:
  assumes "pastHashes n F G A chain root start (bmHeight root) [] [] i t = Ok (r, i', t')" "start \<le> bmHeight root"
  obtains sr where "i' = i\<lparr>ixSealedResults := sr\<rparr>"
    "\<And>hs p. r = Some (hs, p) \<Longrightarrow> \<exists>xs. hs = bmHash root # xs \<and> linkedDown G A chain (bmHeight root - 1) xs p \<and>
       hd (xs @ [p]) = bmParent root \<and> 0 < start \<and> length xs = unat (bmHeight root) - unat start"
proof (cases n)
  case (Suc m)
  have "\<not> bmHeight root < start" using assms(2) by simp
  with assms(1) Suc have "pastHashes m F G A chain root start (bmHeight root - 1) [bmHash root] (bmParent root) i t = Ok (r, i', t')"
    by simp
  note ph = pastHashes_Ok [OF this]
  have "Suc (unat (bmHeight root - 1)) = unat (bmHeight root)" if "0 < start"
    using unat_pred [OF that assms(2)] by simp
  with ph have "r = Some (hs, p) \<Longrightarrow> \<exists>xs. hs = bmHash root # xs \<and> linkedDown G A chain (bmHeight root - 1) xs p \<and>
       hd (xs @ [p]) = bmParent root \<and> 0 < start \<and> length xs = unat (bmHeight root) - unat start" for hs p
    by fastforce
  moreover obtain sr where "i' = i\<lparr>ixSealedResults := sr\<rparr>" using ph by blast
  ultimately show ?thesis using that by blast
qed (use assms in simp)

text \<open>The hashes that were found, in ascending order, are those of the heights from the start on.\<close>

lemma pastHashes_ids:
  assumes tame: "tame F W chain idh" and rid: "idh (bmHash root) = bmHeight root"
    and ph: "pastHashes F F (wGo W) (wAccess W) chain root start (bmHeight root) [] [] i t = Ok (r, i1, t1)"
  obtains sr where "i1 = i\<lparr>ixSealedResults := sr\<rparr>"
    "\<And>hs p. r = Some (hs, p) \<Longrightarrow> \<forall>k < length hs. idh (rev hs ! k) = start + of_nat k"
proof (cases "start \<le> bmHeight root")
  case False
  then have "bmHeight root < start" by simp
  with ph have "r = Some ([], [])" "i1 = i" by (cases F; simp)+
  with that [of "ixSealedResults i"] show ?thesis by simp
next
  case True
  have ids: "acBlockByHeight (wAccess W) n sk h = Inr block \<Longrightarrow> idh (ebId block) = h" for n sk h block
    using tame by (simp add: tame_def)
  obtain sr where sr: "i1 = i\<lparr>ixSealedResults := sr\<rparr>"
    "\<And>hs p. r = Some (hs, p) \<Longrightarrow> \<exists>xs. hs = bmHash root # xs \<and> linkedDown (wGo W) (wAccess W) chain (bmHeight root - 1) xs p \<and>
       hd (xs @ [p]) = bmParent root \<and> 0 < start \<and> length xs = unat (bmHeight root) - unat start"
    using pastHashes_root [OF ph True] by blast
  have "idh (rev hs ! k) = start + of_nat k" if hp: "r = Some (hs, p)" and k: "k < length hs" for hs p k
  proof -
    from sr(2) hp obtain xs where xs: "hs = bmHash root # xs" "linkedDown (wGo W) (wAccess W) chain (bmHeight root - 1) xs p"
      "length xs = unat (bmHeight root) - unat start" by blast
    define j where "j = length xs - k"
    have j: "rev hs ! k = hs ! j" "j \<le> length xs" "k = length xs - j"
      using k rev_nth [of k hs] by (auto simp: j_def xs(1))
    have "idh (hs ! j) = bmHeight root - of_nat j"
      using rid linkedDown_ids [of "wAccess W" idh, OF ids xs(2), where k = "j - 1"] j(2)
      by (cases j) (auto simp: xs(1) algebra_simps)
    moreover have "bmHeight root = start + of_nat (length xs)"
      using True by (simp add: xs(3) word_le_nat_alt of_nat_diff)
    ultimately show ?thesis using j by (simp add: of_nat_diff)
  qed
  with sr(1) that show ?thesis by blast
qed

lemma grown_root: "grown W chain idh g bs i s \<Longrightarrow> ixLiveRoot i = Some root \<Longrightarrow> idh (bmHash root) = bmHeight root"
  by (auto simp: grown_def holds_def)

lemma indexPastSporks_grown:
  assumes tame: "tame F W chain idh" and grown: "grown W chain idh g bs i s"
    and run: "indexPastSporks F W chain lastIdx start i s t = Ok (i', s', t')"
  shows "grown W chain idh g bs i' s'"
proof -
  from run obtain root r i1 t1 where root: "ixLiveRoot i = Some root"
      and ph: "pastHashes F F (wGo W) (wAccess W) chain root start (bmHeight root) [] [] i t = Ok (r, i1, t1)"
      and rest: "(case r of None \<Rightarrow> Ok (i1, s, t1)
          | Some (hashes, parent) \<Rightarrow> if bmHash lastIdx \<noteq> parent then Ok (i1, s, t1)
              else processHashes F W chain start (rev hashes) i1 s t1) = Ok (i', s', t')"
    by (auto simp: indexPastSporks_def split: option.splits)
  obtain sr where sr: "i1 = i\<lparr>ixSealedResults := sr\<rparr>"
      "\<And>hs p. r = Some (hs, p) \<Longrightarrow> \<forall>k < length hs. idh (rev hs ! k) = start + of_nat k"
    using pastHashes_ids [OF tame grown_root [OF grown root] ph] by blast
  then have g1: "grown W chain idh g bs i1 s" using grown by simp
  show ?thesis
  proof (cases r)
    case (Some hp)
    then obtain hs p where hp: "r = Some (hs, p)" by (cases hp) auto
    with rest g1 processHashes_grown [OF tame] sr(2) [OF hp] show ?thesis by (auto split: if_splits)
  qed (use rest g1 in auto)
qed

text \<open>The state of the live loop: its known blocks are at the heights of their identifiers.\<close>

definition live_ok :: "('db, 'k, 's) world \<Rightarrow> Chain \<Rightarrow> (bytes \<Rightarrow> u64) \<Rightarrow> BlockMeta \<Rightarrow> blk list \<Rightarrow> 'db live \<Rightarrow> bool" where
  "live_ok W chain idh g bs lv \<longleftrightarrow>
     grown W chain idh g bs (lvIndexer lv) (lvStore lv) \<and> (\<forall>hash h. map_of (lvBlocks lv) hash = Some h \<longrightarrow> idh hash = h)"

lemma live_ok_rename [simp]:
  "live_ok W chain idh g bs (lv\<lparr>lvTime := t\<rparr>) = live_ok W chain idh g bs lv"
  "live_ok W chain idh g bs (lv\<lparr>lvBackoff := d\<rparr>) = live_ok W chain idh g bs lv"
  "live_ok W chain idh g bs (lv\<lparr>lvSkipCache := sk\<rparr>) = live_ok W chain idh g bs lv"
  "live_ok W chain idh g bs (liveRetry b t lv) = live_ok W chain idh g bs lv"
  by (simp_all add: live_ok_def liveRetry_def)

lemma liveSeals_ok:
  assumes "tame F W chain idh"
  shows "liveSeals F W chain spork seals lv = Ok (b, lv') \<Longrightarrow> live_ok W chain idh g bs lv \<Longrightarrow> live_ok W chain idh g bs lv'"
proof (induction seals arbitrary: lv)
  case (Cons seal seals)
  show ?case
  proof (cases "map_of (lvBlocks lv) (bsBlockId seal)")
    case (Some height)
    show ?thesis
    proof (cases "checkConsensusSeal W chain seal (lvTime lv)")
      case True
      with Some Cons.prems(1) obtain i s t where
          run: "runBlock F W chain spork height (bsBlockId seal)
            ((lvIndexer lv)\<lparr>ixSealedResults := mput (ixSealedResults (lvIndexer lv)) (bsBlockId seal) (bsResultId seal)\<rparr>)
            (lvStore lv) (lvTime lv) = Ok (i, s, t)"
          and rest: "liveSeals F W chain spork seals (lv\<lparr>lvIndexer := i, lvStore := s, lvTime := t,
            lvBlocks := AList.delete (bsBlockId seal) (lvBlocks lv)\<rparr>) = Ok (b, lv')" by auto
      have "idh (bsBlockId seal) = height" using Some Cons.prems(2) by (simp add: live_ok_def)
      from runBlock_grown [OF assms _ run this] Cons.prems(2) have "grown W chain idh g bs i s" by (simp add: live_ok_def)
      with Cons.prems(2) have "live_ok W chain idh g bs (lv\<lparr>lvIndexer := i, lvStore := s, lvTime := t,
            lvBlocks := AList.delete (bsBlockId seal) (lvBlocks lv)\<rparr>)"
        by (auto simp: live_ok_def AList.delete_conv' split: if_splits)
      from Cons.IH [OF rest this] show ?thesis .
    qed (use Cons.prems Some in simp)
  qed (use Cons in simp)
qed simp

lemma liveAdvance_ok: "live_ok W chain idh g bs lv \<Longrightarrow> live_ok W chain idh g bs (liveAdvance W b lv)"
  by (simp add: live_ok_def liveAdvance_def Let_def)

lemma liveAccept_ok:
  assumes ok: "live_ok W chain idh g bs lv" and id: "idh (ebId block) = lvHeight lv"
    and run: "liveAccept W chain spork hdr block lv = Ok r"
  shows "live_ok W chain idh g bs (case_sum (\<lambda>lv'. lv') (\<lambda>lv'. lv') r)"
    "lvStore (case_sum (\<lambda>lv'. lv') (\<lambda>lv'. lv') r) = lvStore lv"
proof -
  have new: "live_ok W chain idh g bs (lv\<lparr>lvBlocks := mput (lvBlocks lv) (ebId block) (lvHeight lv)\<rparr>)"
    using ok id by (simp add: live_ok_def update_conv')
  have "live_ok W chain idh g bs lv3" "lvStore lv3 = lvStore lv" if "checkConsensusBlock W chain block lv = Inl lv3" for lv3
    using that ok by (auto simp: checkConsensusBlock_def split: if_splits sum.splits)
  with run ok new show "live_ok W chain idh g bs (case_sum (\<lambda>lv'. lv') (\<lambda>lv'. lv') r)"
    "lvStore (case_sum (\<lambda>lv'. lv') (\<lambda>lv'. lv') r) = lvStore lv"
    by (auto simp: liveAccept_def liveRetry_def split: if_splits outcome.splits sum.splits)
qed

lemma liveFetch_ok:
  assumes "tame F W chain idh" "live_ok W chain idh g bs lv" "liveFetch (wAccess W) lv = Ok r"
  shows "case r of Inl lv' \<Rightarrow> live_ok W chain idh g bs lv' \<and> lvStore lv' = lvStore lv
    | Inr (hdr, block) \<Rightarrow> idh (ebId block) = lvHeight lv"
proof -
  have "idh (ebId block) = h" if "acBlockByHeight (wAccess W) n sk h = Inr block" for n sk h block
    using that assms(1) by (simp add: tame_def)
  with assms(2,3) show ?thesis
    by (auto simp: liveFetch_def liveRetry_def Let_def split: if_splits sum.splits)
qed

lemma liveBlock_ok:
  assumes tame: "tame F W chain idh" and ok: "live_ok W chain idh g bs lv" and id: "idh (ebId block) = lvHeight lv"
    and run: "liveBlock F W chain spork hdr block lv = Ok lv'"
  shows "live_ok W chain idh g bs lv'"
proof -
  from run obtain r where r: "liveAccept W chain spork hdr block lv = Ok r"
      and rest: "(case r of Inl lv1 \<Rightarrow> Ok lv1
        | Inr lv0 \<Rightarrow> andThen (liveSeals F W chain spork (ebBlockSeals block) lv0) (\<lambda>(finished, lv1).
            Ok (if finished then liveAdvance W block lv1 else lv1))) = Ok lv'"
    by (auto simp: liveBlock_def)
  from liveAccept_ok(1) [OF ok id r] rest liveSeals_ok [OF tame] liveAdvance_ok show ?thesis
    by (fastforce split: sum.splits if_splits)
qed

lemma liveStep_ok:
  assumes tame: "tame F W chain idh" and ok: "live_ok W chain idh g bs lv" and step: "liveStep F W chain spork lv = Ok lv'"
  shows "live_ok W chain idh g bs lv'"
proof -
  from step obtain r where r: "liveFetch (wAccess W) lv = Ok r"
      and rest: "(case r of Inl lv' \<Rightarrow> Ok lv'
        | Inr (hdr, block) \<Rightarrow> liveBlock F W chain spork hdr block (lv\<lparr>lvTime := Suc (Suc (lvTime lv))\<rparr>)) = Ok lv'"
    by (auto simp: liveStep_def)
  from liveFetch_ok [OF tame ok r] rest ok
    liveBlock_ok [OF tame, of g bs "lv\<lparr>lvTime := Suc (Suc (lvTime lv))\<rparr>"] show ?thesis
    by (auto split: sum.splits prod.splits)
qed

lemma liveLoop_ok:
  assumes "tame F W chain idh"
  shows "liveLoop n F W chain spork lv = Ok lv' \<Longrightarrow> live_ok W chain idh g bs lv \<Longrightarrow> live_ok W chain idh g bs lv'"
proof (induction n arbitrary: lv)
  case (Suc n)
  show ?case
  proof (cases "liveStep F W chain spork lv")
    case (Ok lv1)
    with Suc.prems(1) have "liveLoop n F W chain spork lv1 = Ok lv'" by simp
    from Suc.IH [OF this liveStep_ok [OF assms Suc.prems(2) Ok]] show ?thesis .
  qed (use Suc.prems in \<open>auto split: exit.splits\<close>)
qed simp

lemma sporkFor_last:
  assumes "sporks_ok (chSporks chain)" "chSporks chain \<noteq> []" "sporkFor chain h = Ok sp" "spNext sp = None"
  shows "sp = last (chSporks chain)"
proof -
  let ?s = "chSporks chain"
  have ok: "linked ?s" using assms(1) by (simp add: sporks_ok_def)
  obtain k where k: "SporkFor chain h = Some (Ok (Some sp))" "sporkLoop ?s h 0 = Some k" "sp = ?s ! k" "\<not> h < spRootBlock (?s ! 0)"
    using assms(2,3)
    by (auto simp: sporkFor_def SporkFor_def split: option.splits outcome.splits if_splits)
  then have "sporkIndex ?s h k" using sporkLoop_returns [OF ok, of 0 h] assms(2) by (auto simp: not_less)
  then have "k < length ?s" by (simp add: sporkIndex_def)
  with ok assms(4) k(3) have "Suc k = length ?s" by (auto simp: linked_def split: if_splits)
  with k(3) assms(2) show ?thesis by (metis diff_Suc_1 last_conv_nth)
qed

lemma liveStart_ok:
  assumes "tame F W chain idh" "grown W chain idh g bs i s"
    and "liveStart F W chain (last (chSporks chain)) lastIdx start i s t = Ok lv"
  shows "live_ok W chain idh g bs lv"
proof (cases "start = spRootBlock (last (chSporks chain))")
  case True
  with assms(3) obtain root i1 s1 t1 where root: "ixLiveRoot i = Some root"
      "runBlock F W chain (last (chSporks chain)) start (bmHash root) i s t = Ok (i1, s1, t1)"
      "lvIndexer lv = i1 \<and> lvStore lv = s1 \<and> lvBlocks lv = []"
    by (auto simp: liveStart_def Let_def split: option.splits)
  with assms(2) True have "idh (bmHash root) = start" by (auto simp: grown_def holds_def)
  from runBlock_grown [OF assms(1,2) root(2) this] root(3) show ?thesis by (simp add: live_ok_def)
qed (use assms in \<open>auto simp: liveStart_def live_ok_def Let_def\<close>)

lemma indexBlocks_grown:
  assumes tame: "tame F W chain idh"
  shows "indexBlocks n F W chain i s t = Ok (i', s', t') \<Longrightarrow> grown W chain idh g bs i s \<Longrightarrow> grown W chain idh g bs i' s'"
proof (induction n arbitrary: i s t)
  case (Suc n)
  have sp: "sporks_ok (chSporks chain)" "chSporks chain \<noteq> []" using tame by (simp_all add: tame_def)
  show ?case
  proof (cases "acDone (wAccess W) t")
    case False
    with Suc.prems(1) obtain m spork where m: "ixLastIndexed i = Some m" "sporkFor chain (bmHeight m + 1) = Ok spork"
        "(if spNext spork = None then indexLiveSpork F W chain spork m (bmHeight m + 1) i s t
          else andThen (indexPastSporks F W chain m (bmHeight m + 1) i s t) (\<lambda>(i1, s1, t1).
            indexBlocks n F W chain i1 s1 t1)) = Ok (i', s', t')"
      by (auto simp: Let_def Clone_def split: option.splits)
    show ?thesis
    proof (cases "spNext spork = None")
      case True
      note l = sporkFor_last [OF sp m(2) True]
      with m(3) True obtain lv lv1 where "liveStart F W chain (last (chSporks chain)) m (bmHeight m + 1) i s t = Ok lv"
          "liveLoop F F W chain spork lv = Ok lv1" "i' = lvIndexer lv1" "s' = lvStore lv1"
        by (auto simp: indexLiveSpork_def)
      with liveLoop_ok [OF tame] liveStart_ok [OF tame Suc.prems(2)] show ?thesis by (metis live_ok_def)
    next
      case False
      with m(3) obtain i1 s1 t1 where p: "indexPastSporks F W chain m (bmHeight m + 1) i s t = Ok (i1, s1, t1)"
          "indexBlocks n F W chain i1 s1 t1 = Ok (i', s', t')" by auto
      from Suc.IH [OF p(2) indexPastSporks_grown [OF tame Suc.prems(2) p(1)]] show ?thesis .
    qed
  qed (use Suc.prems in simp)
qed simp

subsection \<open>Starting from a store\<close>

text \<open>The root block of a spork, as the servers give it.\<close>

definition root_ok :: "(bytes \<Rightarrow> u64) \<Rightarrow> Spork \<Rightarrow> BlockMeta option \<Rightarrow> bool" where
  "root_ok idh spork root \<longleftrightarrow> (\<forall>r. root = Some r \<longrightarrow> idh (bmHash r) = bmHeight r \<and> bmHeight r = spRootBlock spork)"

lemma findRootBlock_ok:
  assumes "\<And>n sk h block. acBlockByHeight A n sk h = Inr block \<Longrightarrow> idh (ebId block) = h"
  shows "findRootBlock n A spork t = Ok (root, t') \<Longrightarrow> root_ok idh spork root"
proof (induction n arbitrary: t)
  case (Suc n)
  then show ?case using assms by (auto simp: root_ok_def split: if_splits sum.splits)
qed simp

lemma LatestSpork_last: "chSporks chain \<noteq> [] \<Longrightarrow> LatestSpork chain = Ok (last (chSporks chain))"
  by (simp add: LatestSpork_def last_conv_nth)

lemma findRootBlock_tame:
  assumes "tame F W chain idh" "findRootBlock n (wAccess W) spork t = Ok (root, t')"
  shows "root_ok idh spork root"
  using assms(1) by (intro findRootBlock_ok [OF _ assms(2)]) (simp add: tame_def)

text \<open>What \<^verbatim>\<open>initStore\<close> leaves behind: a represented chain and, unless it stopped, the root of the last spork.\<close>

lemma initStore_existing:
  assumes tame: "tame F W chain idh" and rep: "represents (wEnv W) s g l bs"
    and run: "initStore F (wEnv W) (wAccess W) chain i s t = Ok (ok, i1, s1, t1)"
  shows "represents (wEnv W) s1 g l bs" "latest s1 = Some l" "genesis s1 = Some g"
    "root_ok idh (last (chSporks chain)) (ixLiveRoot i1)"
proof -
  have ne: "chSporks chain \<noteq> []" using tame by (simp add: tame_def)
  have s1: "represents (wEnv W) (s\<lparr>genesis := Some g\<rparr>) g l bs" using represents_cache rep by blast
  from run Genesis_represents [OF rep] Latest_represents [OF s1] obtain root where
      root: "findRootBlock F (wAccess W) (last (chSporks chain)) t = Ok (root, t1)"
      and out: "i1 = i\<lparr>ixLastIndexed := Some l, ixLiveRoot := root\<rparr>" "s1 = s\<lparr>genesis := Some g, latest := Some l\<rparr>"
    by (auto simp: initStore_def orFatal_def checkedRun_def LatestSpork_last [OF ne])
  show "represents (wEnv W) s1 g l bs" "latest s1 = Some l" "genesis s1 = Some g" using represents_cache(1) [OF s1] by (simp_all add: out(2))
  show "root_ok idh (last (chSporks chain)) (ixLiveRoot i1)"
    using findRootBlock_tame [OF tame root] by (simp add: out(1))
qed

lemma handleResyncFrom_Ok:
  assumes rep: "represents E s g l bs" "latest s = Some l" "genesis s = Some g"
    and run: "handleResyncFrom E chain i s = Ok (i1, s1)"
  obtains k l1 where "represents E s1 g l1 (take k bs)" "latest s1 = Some l1" "genesis s1 = Some g"
    "ixLiveRoot i1 = ixLiveRoot i"
    "k = length bs \<or> (k < length bs \<and> chResyncFrom chain \<noteq> 0 \<and> unat (chResyncFrom chain) = baseHeight g + k)"
proof (cases "chResyncFrom chain = 0")
  case True
  with run that [of l "length bs"] rep show ?thesis by (simp add: handleResyncFrom_def)
next
  case False
  let ?h = "chResyncFrom chain" and ?s = "s\<lparr>genesis := Some g\<rparr>"
  note s = represents_cache(2) [OF rep(1)]
  from run False have low: "\<not> ?h < bmHeight g"
    by (auto simp: handleResyncFrom_def Let_def Genesis_represents [OF rep(1)] orFatal_def split: if_splits)
  show ?thesis
  proof (cases "bmHeight l \<le> ?h")
    case True
    have r: "ResetTo E ?s ?h = (?s\<lparr>latest := Some l\<rparr>, Ok ())"
      using True by (simp add: ResetTo_def Latest_represents [OF s])
    note s2 = represents_cache(1) [OF s]
    from run False low have "s1 = ?s\<lparr>latest := Some l\<rparr>" "ixLiveRoot i1 = ixLiveRoot i"
      by (auto simp: handleResyncFrom_def Let_def Genesis_represents [OF rep(1)] orFatal_def r Latest_represents [OF s2])
    with s2 that [of l "length bs"] show ?thesis by simp
  next
    case above: False
    define j where "j = unat ?h - baseHeight g"
    have tip: "tipHeight g bs < 2 ^ 64" using represents_chain [OF rep(1)] by (simp add: chain_ok_def)
    have "unat (bmHeight l) = tipHeight g bs" using rep(1) tip by (simp add: represents_def latestOf_def unat_of_nat)
    with low above have j: "j < length bs" "unat ?h = baseHeight g + j"
      by (auto simp: j_def baseHeight_def tipHeight_def word_less_nat_alt word_le_nat_alt)
    from ResetTo_represents [OF s j] obtain s2 l2 where
        r: "ResetTo E ?s ?h = (s2, Ok ())" "represents E s2 g l2 (take j bs)" "genesis s2 = Some g" by auto
    from run False low have "s1 = s2\<lparr>latest := Some l2\<rparr>" "ixLiveRoot i1 = ixLiveRoot i"
      by (auto simp: handleResyncFrom_def Let_def Genesis_represents [OF rep(1)] orFatal_def r(1) Latest_represents [OF r(2)])
    with represents_cache(1) [OF r(2)] r(3) j False that [of l2 j] show ?thesis by simp
  qed
qed

lemma initState_ok:
  assumes rep: "represents E s g l bs" and orig: "\<forall>a \<in> set (chOriginators chain). length a = 8"
    and run: "initState E chain i s = Ok i1"
  shows "indexer_ok i1" "ixLiveRoot i1 = ixLiveRoot i"
proof -
  have keys: "mkeys (fold (\<lambda>addr m. mput m addr True) xs m) = set xs \<union> mkeys m" for xs and m :: "(bytes, bool) gomap"
    by (induction xs arbitrary: m) auto
  from Accounts_represents [OF rep] obtain m where m: "Accounts E s = Ok m" "\<forall>a \<in> mkeys m. length a = 8" by blast
  from run m(1) obtain fees where "ixAccts i1 = m" "ixLiveRoot i1 = ixLiveRoot i"
      "ixOriginators i1 = fold (\<lambda>addr m. mput m addr True) (chOriginators chain) []"
    by (auto simp: initState_def orFatal_def Let_def)
  with m(2) orig keys show "indexer_ok i1" "ixLiveRoot i1 = ixLiveRoot i" by (auto simp: indexer_ok_def)
qed

lemma ids_ok_take: "ids_ok idh g bs \<Longrightarrow> ids_ok idh g (take k bs)"
  unfolding ids_ok_def
proof (intro allI impI)
  fix n b assume ids: "\<forall>n b. blkAt g bs n = Some b \<longrightarrow> unat (idh (fst b)) = n" and b: "blkAt g (take k bs) n = Some b"
  from b have "blkAt g bs n = Some b"
    by (auto simp: blkAt_def chainOf_def tipHeight_def nth_Cons' split: if_splits)
  with ids show "unat (idh (fst b)) = n" by blast
qed

text \<open>
  The blocks that a start keeps: all of them, or those up to the configured height to resynchronise
  from.
\<close>

definition keeps :: "Chain \<Rightarrow> BlockMeta \<Rightarrow> blk list \<Rightarrow> nat \<Rightarrow> bool" where
  "keeps chain g bs k \<longleftrightarrow>
     k = length bs \<or> (k < length bs \<and> chResyncFrom chain \<noteq> 0 \<and> unat (chResyncFrom chain) = baseHeight g + k)"

lemma startFollower_Ok: "startFollower F H chain i = Ok i' \<Longrightarrow> \<exists>root. i' = i\<lparr>ixRoot := root\<rparr>"
  by (auto simp: startFollower_def split: if_splits intro: exI [of _ "ixRoot i"])

lemma prepared:
  assumes tame: "tame F W chain idh" and rep: "represents (wEnv W) s g l bs" "latest s = Some l" "genesis s = Some g"
    and ids: "ids_ok idh g bs" and orig: "\<forall>a \<in> set (chOriginators chain). length a = 8"
    and root: "root_ok idh (last (chSporks chain)) (ixLiveRoot i)"
    and run: "handleResyncFrom (wEnv W) chain i s = Ok (i3, s')" "initState (wEnv W) chain i3 s' = Ok i4"
      "startFollower F H chain i4 = Ok i'"
  obtains k where "keeps chain g bs k" "holds W chain idh g (take k bs) i' s'" "genesis s' = Some g"
proof -
  obtain k l1 where k: "represents (wEnv W) s' g l1 (take k bs)" "latest s' = Some l1" "genesis s' = Some g"
      "ixLiveRoot i3 = ixLiveRoot i" "keeps chain g bs k"
    using handleResyncFrom_Ok [OF rep run(1)] unfolding keeps_def by metis
  note i4 = initState_ok [OF k(1) orig run(2)]
  have "holds W chain idh g (take k bs) i4 s'"
    using i4 k root ids_ok_take [OF ids] by (auto simp: holds_def root_ok_def)
  then have "holds W chain idh g (take k bs) i' s'"
    using startFollower_Ok [OF run(3)] by (auto simp: holds_def indexer_ok_def isTracked_def)
  with k(3,5) that show ?thesis by blast
qed

lemma startUp_Ok:
  assumes "\<not> chPurgeProxyAccounts chain" and "startUp F W H ord chain i s t = Ok (started, i', s', t')"
  obtains (stopped) "\<not> started" "initStore F (wEnv W) (wAccess W) chain i s t = Ok (False, i', s', t')"
  | (started) i1 s1 i3 i4 where "initStore F (wEnv W) (wAccess W) chain i s t = Ok (True, i1, s1, t')"
      "handleResyncFrom (wEnv W) chain i1 s1 = Ok (i3, s')" "initState (wEnv W) chain i3 s' = Ok i4"
      "startFollower F H chain i4 = Ok i'"
  using assms by (auto simp: startUp_def handlePurgeProxyAccounts_def split: if_splits)

lemma startUp_existing:
  assumes "tame F W chain idh" and "represents (wEnv W) s g l bs" and "ids_ok idh g bs"
    and "\<forall>a \<in> set (chOriginators chain). length a = 8" and "\<not> chPurgeProxyAccounts chain"
    and "startUp F W H ord chain i s t = Ok (started, i', s', t')"
  obtains k l' where "keeps chain g bs k" "represents (wEnv W) s' g l' (take k bs)" "genesis s' = Some g"
    "started \<Longrightarrow> holds W chain idh g (take k bs) i' s'"
  using assms(5,6)
proof (cases rule: startUp_Ok)
  case stopped
  from initStore_existing [OF assms(1,2) stopped(2)] stopped(1) that [of "length bs" l] show ?thesis by (simp add: keeps_def)
next
  case (started i1 s1 i3 i4)
  note st = initStore_existing [OF assms(1,2) started(1)]
  obtain k where "keeps chain g bs k" "holds W chain idh g (take k bs) i' s'" "genesis s' = Some g"
    using prepared [OF assms(1) st(1-3) assms(3,4) st(4) started(2-4)] by blast
  with that show ?thesis by (auto simp: holds_def)
qed

lemma grown_start: "holds W chain idh g bs i s \<Longrightarrow> grown W chain idh g bs i s"
  unfolding grown_def by (metis append_Nil2)

lemma Run_extends:
  assumes "tame F W chain idh" and "represents (wEnv W) s g l bs" and "ids_ok idh g bs"
    and "\<forall>a \<in> set (chOriginators chain). length a = 8" and "\<not> chPurgeProxyAccounts chain"
    and "Run F W H ord chain i s t = Ok (i', s', t')"
  shows "\<exists>k bs' l'. keeps chain g bs k \<and> represents (wEnv W) s' g l' (take k bs @ bs')"
proof -
  from assms(6) obtain started i1 s1 t1 where up: "startUp F W H ord chain i s t = Ok (started, i1, s1, t1)"
      and rest: "(if started then indexBlocks F F W chain i1 s1 t1 else Ok (i1, s1, t1)) = Ok (i', s', t')"
    by (auto simp: Run_def)
  obtain k l1 where k: "keeps chain g bs k" "represents (wEnv W) s1 g l1 (take k bs)"
      "started \<Longrightarrow> holds W chain idh g (take k bs) i1 s1"
    using startUp_existing [OF assms(1-5) up] by blast
  show ?thesis
  proof (cases started)
    case True
    with indexBlocks_grown [OF assms(1) _ grown_start [OF k(3)]] rest have "grown W chain idh g (take k bs) i' s'" by simp
    with k(1) show ?thesis by (auto simp: grown_def holds_def)
  next
    case False
    with rest k(1,2) show ?thesis by (metis append_Nil2 outcome.inject(1) prod.inject)
  qed
qed

text \<open>On an empty store the genesis block is the root block of the first spork.\<close>

lemma Genesis_empty:
  assumes "env_ok E" "kvMap E (db s) = []" "genesis s = None"
  shows "Genesis E s = (s, Ok None)"
proof -
  have "kvGet E (db s) genesisKey = Inl ErrKeyNotFound" using assms by (simp add: env_get)
  then show ?thesis using assms(3) by (simp add: Genesis_def readMeta_def)
qed

lemma SetGenesis_Ok:
  assumes "env_ok E" "kvMap E (db s) = []" "SetGenesis E s g = (s', Ok ())"
  shows "represents E s' g g [] \<and> latest s' = Some g \<and> genesis s' = Some g"
proof -
  have "Clone g = g" by (simp add: Clone_def)
  then have "encoded (marshalBlock E \<lparr>ibTimestamp = bmTimestamp g, ibTransactions = []\<rparr>) \<noteq> None"
    using assms(3) by (auto simp: SetGenesis_def Let_def split: sum.splits)
  from SetGenesis_represents [OF assms(1,2) this] assms(3) show ?thesis by auto
qed

lemma orFatal_Ok [simp]: "orFatal msg r = Ok (x, s) \<longleftrightarrow> r = (s, Ok x)"
  by (auto simp: orFatal_def split: prod.splits outcome.splits)

lemma initStore_fresh:
  assumes tame: "tame F W chain idh" and E: "env_ok (wEnv W)" "kvMap (wEnv W) (db s) = []" "genesis s = None"
    and run: "initStore F (wEnv W) (wAccess W) chain i s t = Ok (ok, i1, s1, t1)"
  obtains (empty) "\<not> ok" "s1 = s"
  | (set) g where "represents (wEnv W) s1 g g []" "latest s1 = Some g" "genesis s1 = Some g" "root_ok idh (hd (chSporks chain)) (Some g)"
      "root_ok idh (last (chSporks chain)) (ixLiveRoot i1)"
proof -
  have ne: "chSporks chain \<noteq> []" using tame by (simp add: tame_def)
  then have first: "FirstSpork chain = Ok (hd (chSporks chain))" by (simp add: FirstSpork_def hd_conv_nth)
  from run obtain gen t2 where gen: "findRootBlock F (wAccess W) (hd (chSporks chain)) t = Ok (gen, t2)"
    by (auto simp: initStore_def Genesis_empty [OF E] checkedRun_def first)
  show ?thesis
  proof (cases gen)
    case None
    with run gen empty show ?thesis by (simp add: initStore_def Genesis_empty [OF E] checkedRun_def first)
  next
    case (Some g)
    with run gen have r: "SetGenesis (wEnv W) s g = (s1, Ok ())"
        "findRootBlock F (wAccess W) (last (chSporks chain)) t2 = Ok (ixLiveRoot i1, t1)"
      by (auto simp: initStore_def Genesis_empty [OF E] checkedRun_def first LatestSpork_last [OF ne])
    from set [of g] SetGenesis_Ok [OF E(1,2) r(1)] findRootBlock_tame [OF tame gen] findRootBlock_tame [OF tame r(2)] Some
    show ?thesis by simp
  qed
qed

lemma ids_ok_genesis: "root_ok idh spork (Some g) \<Longrightarrow> ids_ok idh g []"
  by (auto simp: ids_ok_def root_ok_def blkAt_def chainOf_def genesisBlk_def tipHeight_def baseHeight_def split: if_splits)

lemma startUp_fresh:
  assumes tame: "tame F W chain idh" and E: "env_ok (wEnv W)" "kvMap (wEnv W) (db s) = []" "genesis s = None"
    and orig: "\<forall>a \<in> set (chOriginators chain). length a = 8" and purge: "\<not> chPurgeProxyAccounts chain"
    and run: "startUp F W H ord chain i s t = Ok (started, i', s', t')"
  obtains (nothing) "\<not> started" "s' = s"
  | (set) g l' where "bmHeight g = spRootBlock (hd (chSporks chain))" "represents (wEnv W) s' g l' []" "genesis s' = Some g"
      "started \<Longrightarrow> holds W chain idh g [] i' s'"
  using purge run
proof (cases rule: startUp_Ok)
  case stopped
  from tame E stopped(2) show ?thesis
  proof (cases rule: initStore_fresh)
    case empty
    with stopped(1) that(1) show ?thesis by blast
  next
    case (set g)
    from that(2) [of g g] set stopped(1) show ?thesis by (simp add: root_ok_def)
  qed
next
  case (started i1 s1 i3 i4)
  from initStore_fresh [OF tame E started(1)] obtain g where g: "represents (wEnv W) s1 g g []" "latest s1 = Some g" "genesis s1 = Some g"
      "root_ok idh (hd (chSporks chain)) (Some g)" "root_ok idh (last (chSporks chain)) (ixLiveRoot i1)" by (cases) auto
  obtain k where "holds W chain idh g [] i' s'" "genesis s' = Some g"
    using prepared [OF tame g(1-3) ids_ok_genesis [OF g(4)] orig g(5) started(2-4)] by auto
  with g(4) set [of g] show ?thesis by (auto simp: holds_def root_ok_def)
qed

subsection \<open>The goroutine keeps the chain\<close>

text \<open>What holds at every position of the goroutine that indexes.\<close>

fun pos_ok :: "('db, 'k, 's) world \<Rightarrow> Chain \<Rightarrow> (bytes \<Rightarrow> u64) \<Rightarrow> BlockMeta \<Rightarrow> blk list \<Rightarrow> 'db position \<Rightarrow> bool" where
  "pos_ok W chain idh g bs (Outer i s t) \<longleftrightarrow> grown W chain idh g bs i s"
| "pos_ok W chain idh g bs (Hashes height xs i s t) \<longleftrightarrow>
     grown W chain idh g bs i s \<and> (\<forall>k < length xs. idh (xs ! k) = height + of_nat k)"
| "pos_ok W chain idh g bs (LiveAt spork lv) \<longleftrightarrow> live_ok W chain idh g bs lv"
| "pos_ok W chain idh g bs (Sealing spork block seals lv) \<longleftrightarrow> live_ok W chain idh g bs lv"

lemma pos_ok_grown: "pos_ok W chain idh g bs p \<Longrightarrow> grown W chain idh g bs (posIndexer p) (posStore p)"
  by (cases p) (auto simp: live_ok_def)

lemma pastTurn_ok:
  assumes tame: "tame F W chain idh" and grown: "grown W chain idh g bs i s"
    and run: "pastTurn F W chain lastIdx start i s t = Ok q"
  shows "pos_ok W chain idh g bs q \<and> posStore q = s"
proof -
  from run obtain root where root: "ixLiveRoot i = Some root" by (auto simp: pastTurn_def split: option.splits)
  with run obtain r i1 t1 where
      ph: "pastHashes F F (wGo W) (wAccess W) chain root start (bmHeight root) [] [] i t = Ok (r, i1, t1)"
      and rest: "(case r of None \<Rightarrow> Ok (Outer i1 s t1)
          | Some (hashes, parent) \<Rightarrow>
              if bmHash lastIdx \<noteq> parent then Ok (Outer i1 s t1) else Ok (Hashes start (rev hashes) i1 s t1)) = (Ok q :: _ run)"
    by (auto simp: pastTurn_def)
  obtain sr where sr: "i1 = i\<lparr>ixSealedResults := sr\<rparr>"
      "\<And>hs p. r = Some (hs, p) \<Longrightarrow> \<forall>k < length hs. idh (rev hs ! k) = start + of_nat k"
    using pastHashes_ids [OF tame grown_root [OF grown root] ph] by blast
  with grown rest show ?thesis by (auto split: option.splits if_splits)
qed

lemma liveSeals_genesis:
  assumes tame: "tame F W chain idh" and ok: "live_ok W chain idh g bs lv"
    and run: "liveSeals F W chain spork [seal] lv = Ok (b, lv')"
  shows "genesis (lvStore lv') = genesis (lvStore lv)"
proof (cases "map_of (lvBlocks lv) (bsBlockId seal)")
  case (Some height)
  let ?i = "(lvIndexer lv)\<lparr>ixSealedResults := mput (ixSealedResults (lvIndexer lv)) (bsBlockId seal) (bsResultId seal)\<rparr>"
  have "genesis s' = genesis (lvStore lv)"
    if "runBlock F W chain spork height (bsBlockId seal) ?i (lvStore lv) (lvTime lv) = Ok (i', s', t')" for i' s' t'
    using runBlock_genesis [OF tame _ that, of g bs] ok by (simp add: live_ok_def)
  with run Some show ?thesis by (auto split: if_splits)
qed (use run in simp)

lemma liveStart_genesis:
  assumes "tame F W chain idh" "grown W chain idh g bs i s" "liveStart F W chain spork lastIdx start i s t = Ok lv"
  shows "genesis (lvStore lv) = genesis s"
  using assms(3) runBlock_genesis [OF assms(1,2)] by (auto simp: liveStart_def Let_def split: if_splits option.splits)

lemma outerTurn_ok:
  assumes tame: "tame F W chain idh" and grown: "grown W chain idh g bs i s" and turn: "indexTurn F W chain (Outer i s t) = Ok q"
  shows "pos_ok W chain idh g bs q \<and> genesis (posStore q) = genesis s"
proof -
  have sp: "sporks_ok (chSporks chain)" "chSporks chain \<noteq> []" using tame by (simp_all add: tame_def)
  from turn obtain m where m: "ixLastIndexed i = Some m" by (auto split: if_splits option.splits)
  with turn obtain spork where spork: "sporkFor chain (bmHeight m + 1) = Ok spork"
      and rest: "(if spNext spork = None
        then andThen (liveStart F W chain spork m (bmHeight m + 1) i s t) (\<lambda>lv. Ok (LiveAt spork lv))
        else pastTurn F W chain m (bmHeight m + 1) i s t) = Ok q"
    by (auto simp: Let_def Clone_def split: if_splits)
  show ?thesis
  proof (cases "spNext spork = None")
    case True
    with rest sporkFor_last [OF sp spork True] liveStart_ok [OF tame grown] liveStart_genesis [OF tame grown]
    show ?thesis by auto
  next
    case False
    with rest pastTurn_ok [OF tame grown] show ?thesis by simp
  qed
qed

lemma hashTurn_ok:
  assumes tame: "tame F W chain idh" and ok: "pos_ok W chain idh g bs (Hashes height (x # xs) i s t)"
    and turn: "indexTurn F W chain (Hashes height (x # xs) i s t) = Ok q"
  shows "pos_ok W chain idh g bs q \<and> genesis (posStore q) = genesis s"
proof (cases "acDone (wAccess W) t")
  case False
  with turn obtain sp i1 s1 t1 where run: "runBlock F W chain sp height x i s t = Ok (i1, s1, t1)"
      and q: "q = Hashes (height + 1) xs i1 s1 t1" by auto
  have grown: "grown W chain idh g bs i s" and ids: "\<forall>k < Suc (length xs). idh ((x # xs) ! k) = height + of_nat k" using ok by simp_all
  from ids have "idh x = height" by fastforce
  note one = runBlock_grown [OF tame grown run this] runBlock_genesis [OF tame grown run]
  have "idh (xs ! k) = height + 1 + of_nat k" if "k < length xs" for k
    using ids [rule_format, of "Suc k"] that by simp
  with one show ?thesis by (simp add: q)
qed (use assms in auto)

lemma liveTurn_ok:
  assumes tame: "tame F W chain idh" and ok: "live_ok W chain idh g bs lv" and turn: "indexTurn F W chain (LiveAt spork lv) = Ok q"
  shows "pos_ok W chain idh g bs q \<and> posStore q = lvStore lv"
proof -
  let ?lv = "lv\<lparr>lvTime := Suc (Suc (lvTime lv))\<rparr>"
  from turn obtain r where r: "liveFetch (wAccess W) lv = Ok r" by auto
  show ?thesis
  proof (cases r)
    case (Inl lv')
    with turn r liveFetch_ok [OF tame ok r] show ?thesis by auto
  next
    case (Inr hb)
    then obtain hdr block where hb: "r = Inr (hdr, block)" by (cases hb) auto
    with turn r obtain a where a: "liveAccept W chain spork hdr block ?lv = Ok a"
        "(case a of Inl lv' \<Rightarrow> Ok (LiveAt spork lv') | Inr lv0 \<Rightarrow> Ok (Sealing spork block (ebBlockSeals block) lv0)) = (Ok q :: _ run)" by auto
    have "live_ok W chain idh g bs ?lv" "idh (ebId block) = lvHeight ?lv" using ok liveFetch_ok [OF tame ok r] hb by simp_all
    from liveAccept_ok [OF this a(1)] a(2) show ?thesis by (auto split: sum.splits)
  qed
qed

lemma indexTurn_ok:
  assumes tame: "tame F W chain idh"
  shows "indexTurn F W chain p = Ok q \<Longrightarrow> pos_ok W chain idh g bs p \<Longrightarrow>
    pos_ok W chain idh g bs q \<and> genesis (posStore q) = genesis (posStore p)"
proof (cases p)
  case (Outer i s t)
  then show "indexTurn F W chain p = Ok q \<Longrightarrow> pos_ok W chain idh g bs p \<Longrightarrow> ?thesis"
    using outerTurn_ok [OF tame] by simp
next
  case (Hashes height xs i s t)
  then show "indexTurn F W chain p = Ok q \<Longrightarrow> pos_ok W chain idh g bs p \<Longrightarrow> ?thesis"
    using hashTurn_ok [OF tame] by (cases xs) auto
next
  case (LiveAt spork lv)
  then show "indexTurn F W chain p = Ok q \<Longrightarrow> pos_ok W chain idh g bs p \<Longrightarrow> ?thesis"
    using liveTurn_ok [OF tame] by simp
next
  case (Sealing spork block seals lv)
  have adv: "lvStore (liveAdvance W block lv) = lvStore lv" by (simp add: liveAdvance_def Let_def)
  from Sealing show "indexTurn F W chain p = Ok q \<Longrightarrow> pos_ok W chain idh g bs p \<Longrightarrow> ?thesis"
    using liveSeals_ok [OF tame, of spork "[hd seals]" lv] liveSeals_genesis [OF tame, of g bs lv spork "hd seals"] liveAdvance_ok adv
    by (cases seals) (auto simp del: liveSeals.simps split: if_splits)
qed

lemma indexTurns_ok:
  assumes "tame F W chain idh"
  shows "indexTurns n F W chain p = Ok q \<Longrightarrow> pos_ok W chain idh g bs p \<Longrightarrow>
    pos_ok W chain idh g bs q \<and> genesis (posStore q) = genesis (posStore p)"
proof (induction n arbitrary: p)
  case (Suc n)
  then show ?case
  proof (cases "indexTurn F W chain p")
    case (Ok p1)
    with Suc.prems(1) have "indexTurns n F W chain p1 = Ok q" by simp
    with Suc.IH indexTurn_ok [OF assms Ok Suc.prems(2)] show ?thesis by metis
  qed (use Suc.prems in \<open>auto split: exit.splits\<close>)
qed simp

text \<open>
  The turns are those of the loops: when \<^verbatim>\<open>indexBlocks\<close> ends, it ends at a position that the turns reach, with the
  context cancelled there.
\<close>

lemma indexTurns_trans:
  "indexTurns m F W chain p = Ok q \<Longrightarrow> indexTurns n F W chain q = Ok r \<Longrightarrow> indexTurns (m + n) F W chain p = Ok r"
proof (induction m arbitrary: p)
  case (Suc m)
  then show ?case
  proof (cases "indexTurn F W chain p")
    case (Err e)
    with Suc.prems(1) obtain t where "indexTurn F W chain p = Err (Stopped t)" "q = p" by (auto split: exit.splits)
    with Suc.prems(2) show ?thesis by (cases n) auto
  qed (use Suc in auto)
qed simp

lemma indexTurns_step:
  assumes "indexTurn F W chain p = Ok q" and "\<exists>n. indexTurns n F W chain q = Ok r"
  shows "\<exists>n. indexTurns n F W chain p = Ok r"
proof -
  from assms(2) obtain n where "indexTurns n F W chain q = Ok r" ..
  with assms(1) show ?thesis by (intro exI [of _ "Suc n"]) simp
qed

lemma processHashes_turns:
  "processHashes F W chain height xs i s t = Ok (i', s', t') \<Longrightarrow>
   \<exists>n. indexTurns n F W chain (Hashes height xs i s t) = Ok (Outer i' s' t')"
proof (induction xs arbitrary: height i s t)
  case Nil
  then show ?case by (intro exI [of _ 1]) simp
next
  case (Cons x xs)
  show ?case
  proof (cases "acDone (wAccess W) t")
    case True
    with Cons.prems show ?thesis by (intro exI [of _ 1]) simp
  next
    case False
    with Cons.prems obtain sp i1 s1 t1 where "sporkFor chain height = Ok sp" "runBlock F W chain sp height x i s t = Ok (i1, s1, t1)"
        "processHashes F W chain (height + 1) xs i1 s1 t1 = Ok (i', s', t')" by auto
    with False Cons.IH have "indexTurn F W chain (Hashes height (x # xs) i s t) = Ok (Hashes (height + 1) xs i1 s1 t1)"
        "\<exists>n. indexTurns n F W chain (Hashes (height + 1) xs i1 s1 t1) = Ok (Outer i' s' t')" by auto
    then show ?thesis by (rule indexTurns_step)
  qed
qed

lemma liveSeals_turns:
  "liveSeals F W chain spork seals lv = Ok (b, lv') \<Longrightarrow>
   \<exists>n. indexTurns n F W chain (Sealing spork block seals lv) = Ok (LiveAt spork (if b then liveAdvance W block lv' else lv'))"
proof (induction seals arbitrary: lv)
  case Nil
  then show ?case by (intro exI [of _ 1]) auto
next
  case (Cons seal seals)
  obtain h lv1 where one: "liveSeals F W chain spork [seal] lv = Ok (h, lv1)"
      and rest: "if h then liveSeals F W chain spork seals lv1 = Ok (b, lv') else \<not> b \<and> lv' = lv1"
    using Cons.prems by (auto split: option.splits if_splits)
  show ?case
  proof (cases h)
    case True
    with one have "indexTurn F W chain (Sealing spork block (seal # seals) lv) = Ok (Sealing spork block seals lv1)"
      by (simp del: liveSeals.simps)
    moreover have "liveSeals F W chain spork seals lv1 = Ok (b, lv')" using True rest by simp
    ultimately show ?thesis using Cons.IH indexTurns_step by metis
  next
    case False
    with one rest show ?thesis by (intro exI [of _ 1]) (simp del: liveSeals.simps)
  qed
qed

lemma liveStep_turns:
  assumes "liveStep F W chain spork lv = Ok lv'"
  shows "\<exists>n. indexTurns n F W chain (LiveAt spork lv) = Ok (LiveAt spork lv')"
proof -
  let ?lv = "lv\<lparr>lvTime := Suc (Suc (lvTime lv))\<rparr>"
  from assms obtain r where r: "liveFetch (wAccess W) lv = Ok r" by (auto simp: liveStep_def)
  show ?thesis
  proof (cases r)
    case (Inl lv1)
    with assms r show ?thesis by (intro exI [of _ 1]) (auto simp: liveStep_def)
  next
    case (Inr hb)
    then obtain hdr block where hb: "r = Inr (hdr, block)" by (cases hb) auto
    with assms r obtain a where a: "liveAccept W chain spork hdr block ?lv = Ok a"
        "(case a of Inl lv1 \<Rightarrow> Ok lv1
          | Inr lv0 \<Rightarrow> andThen (liveSeals F W chain spork (ebBlockSeals block) lv0) (\<lambda>(finished, lv1).
              Ok (if finished then liveAdvance W block lv1 else lv1))) = Ok lv'" by (auto simp: liveStep_def liveBlock_def)
    show ?thesis
    proof (cases a)
      case (Inl lv1)
      with a r hb show ?thesis by (intro exI [of _ 1]) simp
    next
      case (Inr lv0)
      with a r hb have "indexTurn F W chain (LiveAt spork lv) = Ok (Sealing spork block (ebBlockSeals block) lv0)" by simp
      moreover from a(2) Inr obtain b lv1 where "liveSeals F W chain spork (ebBlockSeals block) lv0 = Ok (b, lv1)"
          "lv' = (if b then liveAdvance W block lv1 else lv1)" by auto
      from liveSeals_turns [OF this(1)] this(2)
      have "\<exists>n. indexTurns n F W chain (Sealing spork block (ebBlockSeals block) lv0) = Ok (LiveAt spork lv')" by simp
      ultimately show ?thesis by (rule indexTurns_step)
    qed
  qed
qed

lemma andThen_Err_iff: "andThen m f = Err e \<longleftrightarrow> m = Err e \<or> (\<exists>x. m = Ok x \<and> f x = Err e)"
  by (cases m) auto

lemma liveStep_Stopped:
  assumes "liveStep F W chain spork lv = Err (Stopped t)"
  shows "indexTurn F W chain (LiveAt spork lv) = Err (Stopped t)"
proof -
  have run: "runBlock F W chain sp h x i s k \<noteq> Err (Stopped t)" for sp h x i s k
    by (auto simp: runBlock_def split: outcome.splits exit.splits)
  have "liveSeals F W chain spork seals lv \<noteq> Err (Stopped t)" for seals lv
    by (induction seals arbitrary: lv) (auto simp: run andThen_Err_iff split: option.splits)
  then have "liveBlock F W chain spork hdr block lv \<noteq> Err (Stopped t)" for hdr block lv
    by (auto simp: liveBlock_def liveAccept_def andThen_Err_iff split: if_splits outcome.splits sum.splits)
  with assms show ?thesis by (auto simp: liveStep_def andThen_Err_iff split: sum.splits)
qed

lemma liveLoop_turns:
  "liveLoop n F W chain spork lv = Ok lv' \<Longrightarrow>
   \<exists>k lv1. indexTurns k F W chain (LiveAt spork lv) = Ok (LiveAt spork lv1) \<and> lv' = lv1\<lparr>lvTime := lvTime lv'\<rparr> \<and>
     indexTurn F W chain (LiveAt spork lv1) = Err (Stopped (lvTime lv'))"
proof (induction n arbitrary: lv)
  case (Suc n)
  show ?case
  proof (cases "liveStep F W chain spork lv")
    case (Ok lv2)
    from liveStep_turns [OF this] obtain m where "indexTurns m F W chain (LiveAt spork lv) = Ok (LiveAt spork lv2)" ..
    moreover from Suc.prems Ok have "liveLoop n F W chain spork lv2 = Ok lv'" by simp
    ultimately show ?thesis using Suc.IH indexTurns_trans by metis
  next
    case (Err e)
    with Suc.prems obtain t where "e = Stopped t" "lv' = lv\<lparr>lvTime := t\<rparr>" by (auto split: exit.splits)
    with Err liveStep_Stopped show ?thesis by (intro exI [of _ 0] exI [of _ lv]) auto
  qed (use Suc.prems in auto)
qed simp

lemma indexPastSporks_turns:
  assumes "indexPastSporks F W chain lastIdx start i s t = Ok (i', s', t')"
  shows "\<exists>q n. pastTurn F W chain lastIdx start i s t = Ok q \<and> indexTurns n F W chain q = Ok (Outer i' s' t')"
proof -
  have same: "\<exists>n. indexTurns n F W chain (Outer i' s' t') = Ok (Outer i' s' t')" by (intro exI [of _ 0]) simp
  from assms obtain root r i1 t1 where root: "ixLiveRoot i = Some root"
      and ph: "pastHashes F F (wGo W) (wAccess W) chain root start (bmHeight root) [] [] i t = Ok (r, i1, t1)"
      and rest: "(case r of None \<Rightarrow> Ok (i1, s, t1)
          | Some (hashes, parent) \<Rightarrow> if bmHash lastIdx \<noteq> parent then Ok (i1, s, t1)
              else processHashes F W chain start (rev hashes) i1 s t1) = Ok (i', s', t')"
    by (auto simp: indexPastSporks_def split: option.splits)
  show ?thesis
  proof (cases "\<exists>hs. r = Some (hs, bmHash lastIdx)")
    case True
    then obtain hs where hs: "r = Some (hs, bmHash lastIdx)" by blast
    with root ph have "pastTurn F W chain lastIdx start i s t = Ok (Hashes start (rev hs) i1 s t1)" by (simp add: pastTurn_def)
    moreover have "processHashes F W chain start (rev hs) i1 s t1 = Ok (i', s', t')" using rest hs by simp
    ultimately show ?thesis using processHashes_turns by blast
  next
    case False
    with rest have "i' = i1" "s' = s" "t' = t1" by (auto split: option.splits if_splits)
    with False root ph have "pastTurn F W chain lastIdx start i s t = Ok (Outer i' s' t')"
      by (auto simp: pastTurn_def split: option.splits)
    with same show ?thesis by blast
  qed
qed

lemma indexBlocks_turns:
  "indexBlocks n F W chain i s t = Ok (i', s', t') \<Longrightarrow>
   \<exists>k p. indexTurns k F W chain (Outer i s t) = Ok p \<and> posIndexer p = i' \<and> posStore p = s' \<and>
     indexTurn F W chain p = Err (Stopped t')"
proof (induction n arbitrary: i s t)
  case (Suc n)
  show ?case
  proof (cases "acDone (wAccess W) t")
    case True
    with Suc.prems show ?thesis by (intro exI [of _ 0] exI [of _ "Outer i s t"]) auto
  next
    case False
    with Suc.prems obtain m spork where m: "ixLastIndexed i = Some m" "sporkFor chain (bmHeight m + 1) = Ok spork"
        "(if spNext spork = None then indexLiveSpork F W chain spork m (bmHeight m + 1) i s t
          else andThen (indexPastSporks F W chain m (bmHeight m + 1) i s t) (\<lambda>(i1, s1, t1).
            indexBlocks n F W chain i1 s1 t1)) = Ok (i', s', t')"
      by (auto simp: Let_def Clone_def split: option.splits)
    show ?thesis
    proof (cases "spNext spork = None")
      case True
      with m(3) obtain lv lv1 where l: "liveStart F W chain spork m (bmHeight m + 1) i s t = Ok lv"
          "liveLoop F F W chain spork lv = Ok lv1" "i' = lvIndexer lv1" "s' = lvStore lv1" "t' = lvTime lv1"
        by (auto simp: indexLiveSpork_def)
      from liveLoop_turns [OF l(2)] obtain k lv2 where k: "indexTurns k F W chain (LiveAt spork lv) = Ok (LiveAt spork lv2)"
          "lv1 = lv2\<lparr>lvTime := lvTime lv1\<rparr>" "indexTurn F W chain (LiveAt spork lv2) = Err (Stopped (lvTime lv1))" by blast
      from k(2) have "lvIndexer lv2 = lvIndexer lv1" "lvStore lv2 = lvStore lv1"
        by (metis live.ext_inject live.surjective live.update_convs(3))+
      with False True m(1,2) l k show ?thesis
        by (intro exI [of _ "Suc k"] exI [of _ "LiveAt spork lv2"]) (simp add: Let_def Clone_def)
    next
      case past: False
      with m(3) obtain i1 s1 t1 where p: "indexPastSporks F W chain m (bmHeight m + 1) i s t = Ok (i1, s1, t1)"
          "indexBlocks n F W chain i1 s1 t1 = Ok (i', s', t')" by auto
      from indexPastSporks_turns [OF p(1)] obtain q j where "pastTurn F W chain m (bmHeight m + 1) i s t = Ok q"
          and q: "indexTurns j F W chain q = Ok (Outer i1 s1 t1)" by blast
      with False past m(1,2) have "indexTurn F W chain (Outer i s t) = Ok q" by (auto simp: Let_def Clone_def)
      with q have "indexTurns (Suc j) F W chain (Outer i s t) = Ok (Outer i1 s1 t1)" by simp
      with Suc.IH [OF p(2)] indexTurns_trans show ?thesis by metis
    qed
  qed
qed simp


subsection \<open>The live loop as a state machine\<close>

text \<open>The states the loop over the live spork can be in, from the one that it starts with.\<close>

inductive liveReach :: "nat \<Rightarrow> ('db, 'k, 's) world \<Rightarrow> Chain \<Rightarrow> Spork \<Rightarrow> 'db live \<Rightarrow> 'db live \<Rightarrow> bool"
  for F W chain spork lv where
  start: "liveReach F W chain spork lv lv"
| step: "liveReach F W chain spork lv lv1 \<Longrightarrow> liveStep F W chain spork lv1 = Ok lv2 \<Longrightarrow> liveReach F W chain spork lv lv2"

inductive_cases liveReach_stepE: "liveReach F W chain spork lv lv2"

text \<open>
  C14. In every state that the loop over the live spork reaches, the store represents the chain it
  started from with blocks appended, and every block that waits for its seal is recorded under its own
  height: nothing is indexed at a wrong height, however the servers, the consensus follower and the
  retries interleave.
\<close>

theorem live_spork_invariant:
  assumes "liveReach F W chain (last (chSporks chain)) lv lv'"
    and "tame F W chain idh" and "holds W chain idh g bs i s"
    and "liveStart F W chain (last (chSporks chain)) lastIdx start i s t = Ok lv"
  shows "\<exists>bs'. holds W chain idh g (bs @ bs') (lvIndexer lv') (lvStore lv') \<and>
     (\<forall>hash h. map_of (lvBlocks lv') hash = Some h \<longrightarrow> idh hash = h)"
proof -
  from assms(3) have "grown W chain idh g bs i s" unfolding grown_def by (metis append_Nil2)
  with liveStart_ok [OF assms(2) _ assms(4)] have "live_ok W chain idh g bs lv" by blast
  with assms(1) have "live_ok W chain idh g bs lv'"
    by (induction rule: liveReach.induct) (use liveStep_ok [OF assms(2)] in blast)+
  then show ?thesis by (auto simp: live_ok_def grown_def)
qed

subsection \<open>Past sporks are indexed along verified parents\<close>

text \<open>
  C15. \<^verbatim>\<open>indexPastSporks\<close> indexes nothing on the word of one server answer: either it leaves the
  store alone, or it has a full list of hashes, one for each height from the first missing one to the
  root block of the live spork, in which every block below the root passed the block check and claims
  the next hash as its parent, down to the hash of the last indexed block; and it then processes
  exactly these hashes in ascending order.
\<close>

theorem past_blocks_linked:
  assumes "indexPastSporks F W chain lastIdx start i s t = Ok (i', s', t')" and "ixLiveRoot i = Some root"
    and "start \<le> bmHeight root"
  shows "s' = s \<or>
     (\<exists>hs i1 t1. length hs = Suc (unat (bmHeight root) - unat start) \<and> hd hs = bmHash root \<and>
        hd (tl hs @ [bmHash lastIdx]) = bmParent root \<and>
        linkedDown (wGo W) (wAccess W) chain (bmHeight root - 1) (tl hs) (bmHash lastIdx) \<and>
        processHashes F W chain start (rev hs) i1 s t1 = Ok (i', s', t'))"
proof -
  from assms(1,2) obtain r i1 t1 where
      ph: "pastHashes F F (wGo W) (wAccess W) chain root start (bmHeight root) [] [] i t = Ok (r, i1, t1)"
      and rest: "(case r of None \<Rightarrow> Ok (i1, s, t1)
          | Some (hashes, parent) \<Rightarrow> if bmHash lastIdx \<noteq> parent then Ok (i1, s, t1)
              else processHashes F W chain start (rev hashes) i1 s t1) = Ok (i', s', t')"
    by (auto simp: indexPastSporks_def)
  from pastHashes_root [OF ph assms(3)] have xs: "\<exists>xs. hs = bmHash root # xs \<and>
       linkedDown (wGo W) (wAccess W) chain (bmHeight root - 1) xs p \<and>
       hd (xs @ [p]) = bmParent root \<and> length xs = unat (bmHeight root) - unat start"
    if "r = Some (hs, p)" for hs p using that by metis
  show ?thesis
  proof (cases "\<exists>hs. r = Some (hs, bmHash lastIdx)")
    case True
    then obtain hs where hs: "r = Some (hs, bmHash lastIdx)" by blast
    from xs [OF hs] obtain ys where "hs = bmHash root # ys"
       "linkedDown (wGo W) (wAccess W) chain (bmHeight root - 1) ys (bmHash lastIdx)"
       "hd (ys @ [bmHash lastIdx]) = bmParent root" "length ys = unat (bmHeight root) - unat start" by blast
    with rest show ?thesis by (intro disjI2 exI [of _ hs] exI [of _ i1] exI [of _ t1]) (simp add: hs)
  next
    case False
    with rest have "s' = s" by (auto split: option.splits if_splits)
    then show ?thesis ..
  qed
qed

text \<open>
  C36. The block check says nothing about the parent field of the block message: the parent that the
  indexer follows and compares with is that field (lines 251 and 381 of \<^verbatim>\<open>state/state.go\<close>),
  while the hash covers the parent field of the header. So a server can return any parent: whatever
  block passes the check for a hash, the same block with another parent passes it too, and
  \<^verbatim>\<open>getVerifiedParent\<close> returns that parent.
\<close>

theorem claimed_parent_unchecked:
  assumes "0 < F" and "\<not> acDone A t" and "sporkFor chain height = Ok sp"
    and "acBlockHeaderByHeight A t False height = Inr hdr" and "bhId hdr = hash" and "ebId block = hash"
    and "acBlockByHeight A (Suc t) False height = Inr (block\<lparr>ebParentId := p\<rparr>)"
    and "verifyBlockHash G sp hash hdr block = Ok ()"
  shows "getVerifiedParent F G A chain hash height i t = Ok (p, recordSeals (ebBlockSeals block) i, Suc (Suc t))"
proof -
  have same: "blockPayloadHash G v (block\<lparr>ebParentId := p\<rparr>) = blockPayloadHash G v block" for v
    by (simp add: blockPayloadHash_def)
  have "verifyBlockHash G sp hash hdr (block\<lparr>ebParentId := p\<rparr>) = verifyBlockHash G sp hash hdr block"
    unfolding verifyBlockHash_def same ..
  with assms show ?thesis
    by (cases F) (simp_all add: getVerifiedParent_def tryParent_def)
qed

subsection \<open>Back-off and scheduling\<close>

text \<open>
  The back-off doubles up to its configured maximum and stays there: after \<open>k\<close> failures it is the
  smaller of the maximum and the first interval times \<open>2 ^ k\<close>. The maximum is below \<open>2 ^ 62\<close>
  nanoseconds (146 years), so that the doubling does not wrap.
\<close>

lemma backoff_doubles:
  assumes "0 < d" and "d \<le> chMaxBackoffInterval chain" and "chMaxBackoffInterval chain < 2 ^ 62"
  shows "(nextBackoff chain ^^ k) d = min (chMaxBackoffInterval chain) (d * 2 ^ k)"
proof (induction k)
  case (Suc k)
  let ?m = "chMaxBackoffInterval chain"
  have "nextBackoff chain x = min ?m (2 * x)" if "0 < x" "x \<le> ?m" for x
    using that assms(3) by (auto simp: nextBackoff_def Let_def signed_take_bit_int_eq_self min_def)
  moreover have "0 < min ?m (d * 2 ^ k)" "min ?m (d * 2 ^ k) \<le> ?m" using assms by auto
  ultimately show ?case by (simp add: Suc.IH min_def)
qed (use assms in simp)

lemma jobsFor_upt:
  "jobsFor start tip = map of_nat [Suc (unat start)..<Suc (unat tip)]"
  by (auto simp: jobsFor_def word_le_nat_alt)

lemma scheduleJobs_start: "start \<le> snd (scheduleJobs start rs)"
proof (induction start rs rule: scheduleJobs.induct)
  case (3 start tip rs)
  then show ?case by (auto split: prod.splits)
qed simp_all

text \<open>
  The prefetch jobs cover every height once: whatever headers arrive, late, repeated, out of order
  or with errors between them, the jobs handed to the workers are exactly the heights after the last
  indexed one up to the highest header seen, in ascending order.
\<close>

theorem jobs_scheduled_once:
  "fst (scheduleJobs start rs) = map of_nat [Suc (unat start)..<Suc (unat (snd (scheduleJobs start rs)))] \<and>
   snd (scheduleJobs start rs) = fold max (concat (map (case_sum (\<lambda>_. []) (\<lambda>h. [h])) rs)) start"
proof (induction start rs rule: scheduleJobs.induct)
  case (3 start tip rs)
  show ?case
  proof (cases "start \<ge> tip")
    case True
    with 3 show ?thesis by (simp add: max_def)
  next
    case False
    obtain jobs fin where r: "scheduleJobs tip rs = (jobs, fin)" by force
    have "tip \<le> fin" using scheduleJobs_start [of tip rs] by (simp add: r)
    with False have "[Suc (unat start)..<Suc (unat tip)] @ [Suc (unat tip)..<Suc (unat fin)] = [Suc (unat start)..<Suc (unat fin)]"
      using upt_add_eq_append [of "Suc (unat start)" "Suc (unat tip)" "unat fin - unat tip"] by (simp add: word_le_nat_alt)
    with False 3(2) r show ?thesis
      by (simp add: jobsFor_upt max_def flip: map_append del: upt_Suc)
  qed
qed simp_all

subsection \<open>A concrete start\<close>

text \<open>
  A server that knows one verified block, at the root of the second spork, and makes up the others;
  the context is cancelled after three calls.
\<close>

definition startAccess :: access where
  "startAccess = sampleAccess
     \<lparr>acDone := (\<lambda>n. 3 \<le> n),
      acBlockHeaderByHeight := (\<lambda>_ _ _. Inr (sampleHeader\<lparr>bhId := sampleHash\<rparr>)),
      acBlockByHeight := (\<lambda>_ _ h.
        Inr ((sampleBlock\<lparr>ebId := (if h = 20 then sampleHash else putU64 h), ebHeight := h\<rparr>)\<lparr>ebParentId := [66]\<rparr>))\<rparr>"

definition startWorld :: "((bytes \<times> bytes) list, bool, nat) world" where
  "startWorld = sampleWorld\<lparr>wAccess := startAccess\<rparr>"

definition startIds :: "bytes \<Rightarrow> u64" where
  "startIds b =
     (if b = [9] then 5 else if b = sampleHash then 20
      else (case (getU64 b :: (string, u64) outcome) of Ok h \<Rightarrow> h | _ \<Rightarrow> 0))"

lemma start_fresh: "fresh_accounts F startWorld chain spork height hash"
proof -
  have sys: "systemCollection F startAccess sk sp hash k t \<noteq> Ok x" for sk sp k t x
    using fetch_fails [of "\<lambda>n. acTransactionResult startAccess n sk hash (of_nat k)"]
    by (auto simp: systemCollection_def startAccess_def sampleAccess_def)
  have cols: "cols = []" if "slowCollections F startAccess sk hash gs k t = Ok (cols, k', t')" for sk gs k t cols k' t'
    using that fetch_fails [of "\<lambda>n. acCollectionByID startAccess n sk (cgCollectionId (hd gs))"]
    by (cases gs) (auto simp: startAccess_def sampleAccess_def)
  have slow: "colResults cols = []"
    if "slowPathCollections F startAccess sk spork height hash block t = Ok (cols, t')" for sk block t cols t'
    using that sys cols by (fastforce simp: slowPathCollections_def colResults_def emptyCollection_def split: if_splits)
  have fast: "colResults (fastCollections [] []) = []" by code_simp
  have "colResults cols = []"
    if "blockCollections F startAccess chain spork height hash block pv = Ok (cols, pv')" for block pv cols pv'
    using that slow fast
    by (auto simp: blockCollections_def batched_def startAccess_def sampleAccess_def split: if_splits)
  then show ?thesis unfolding fresh_accounts_def by (auto simp: startWorld_def)
qed

lemma sampleHash_length: "length sampleHash = 32"
  by code_simp

lemma start_ids:
  "acBlockByHeight startAccess n sk h = Inr block \<Longrightarrow> startIds (ebId block) = h"
proof -
  have "sampleHash \<noteq> [9]" "putU64 h \<noteq> sampleHash" "putU64 h \<noteq> [9]"
    using sampleHash_length length_putU64 [of h] by (auto dest: arg_cong [where f = length])
  then show "acBlockByHeight startAccess n sk h = Inr block \<Longrightarrow> startIds (ebId block) = h"
    by (auto simp: startAccess_def startIds_def split: if_splits)
qed

lemma start_tame: "tame F startWorld sampleChain startIds"
proof -
  have "sporks_ok (chSporks sampleChain) \<and> chSporks sampleChain \<noteq> []"
    using Init_online [OF sampleChain_Init sampleChain_mode] by simp
  moreover have "range_order (wRange startWorld n k)" "range_order (wIndexRange startWorld n)" for n k
    by (simp_all add: startWorld_def sampleWorld_def range_order_id)
  ultimately show ?thesis
    unfolding tame_def using start_fresh start_ids by (auto simp: startWorld_def)
qed

lemma start_chain_ids: "ids_ok startIds sampleGenesis []"
  by (auto simp: ids_ok_def blkAt_def chainOf_def genesisBlk_def tipHeight_def baseHeight_def sampleGenesis_def startIds_def
      split: if_splits)

lemma start_run: "\<exists>i. Run 2 startWorld sampleHost (\<lambda>m. m) sampleChain sampleIndexer sampleStore 2 = Ok (i, sampleStore, 3)"
proof -
  have e: "wEnv startWorld = sampleEnv" "wAccess startWorld = startAccess"
    by (simp_all add: startWorld_def sampleWorld_def)
  have g: "Genesis sampleEnv sampleStore = (sampleStore, Ok (Some sampleGenesis))"
     "Latest sampleEnv sampleStore = (sampleStore, Ok (Some sampleGenesis))"
    using Genesis_represents [OF sampleStore_represents(1)] Latest_represents [OF sampleStore_represents(1)]
      sampleStore_represents(2,3) by simp_all
  have c: "LatestSpork sampleChain = Ok sampleSpork" "spRootBlock sampleSpork = 20" "chResyncFrom sampleChain = 0"
      "\<not> chPurgeProxyAccounts sampleChain" "\<not> chCache sampleChain" "\<not> chUseConsensusFollower sampleChain"
      "case FeeAddresses (chContracts sampleChain) of Ok _ \<Rightarrow> True | _ \<Rightarrow> False" by code_simp+
  from c(7) obtain fees where fees: "FeeAddresses (chContracts sampleChain) = Ok fees" by (auto split: outcome.splits)
  from Accounts_represents [OF sampleStore_represents(1)] obtain m where m: "Accounts sampleEnv sampleStore = Ok m" by blast
  have "\<exists>r. findRootBlock 2 startAccess sampleSpork 2 = Ok (Some r, 3)"
    by (simp add: numeral_2_eq_2 numeral_3_eq_3 startAccess_def c)
  then obtain r where r: "findRootBlock 2 startAccess sampleSpork 2 = Ok (Some r, 3)" ..
  have stop: "indexBlocks 2 2 startWorld sampleChain j sampleStore 3 = Ok (j, sampleStore, 3)" for j
    by (simp add: numeral_2_eq_2 e startAccess_def)
  have "\<exists>j. initState sampleEnv sampleChain i sampleStore = Ok j" for i
    by (simp add: initState_def orFatal_def m checkedRun_def fees Let_def)
  then obtain st where st: "initState sampleEnv sampleChain i sampleStore = Ok (st i)" for i by metis
  show ?thesis
    by (simp add: Run_def startUp_def initStore_def e g orFatal_def checkedRun_def c handlePurgeProxyAccounts_def
        handleResyncFrom_def st r stop Let_def initWorkers_def startFollower_def del: andThen_Ok_iff andThen_Ok_rev)
qed


theorem claimed_parent_unchecked_witness:
  "getVerifiedParent 1 sampleGo startAccess sampleChain sampleHash 20 sampleIndexer 0 =
     Ok ([66], recordSeals (ebBlockSeals sampleBlock) sampleIndexer, 2)"
proof -
  let ?b = "sampleBlock\<lparr>ebId := sampleHash, ebHeight := 20\<rparr>"
  have "sporkFor sampleChain 20 = Ok sampleSpork" by code_simp
  moreover have "verifyBlockHash sampleGo sampleSpork sampleHash (sampleHeader\<lparr>bhId := sampleHash\<rparr>) ?b = Ok ()"
    by code_simp
  ultimately show ?thesis
    using claimed_parent_unchecked [of 1 startAccess 0 sampleChain 20 sampleSpork "sampleHeader\<lparr>bhId := sampleHash\<rparr>" sampleHash ?b "[66]"]
    by (simp add: startAccess_def numeral_2_eq_2)
qed

text \<open>The loop over the live spork at a height where the server names another parent: it asks again.\<close>

definition startLive :: "(bytes \<times> bytes) list live" where
  "startLive =
     \<lparr>lvIndexer = sampleIndexer\<lparr>ixLiveRoot := None\<rparr>, lvStore = sampleStore, lvTime = 0, lvHeight = 6, lvParent = [9],
      lvBlocks = [], lvSynced = False, lvBackoff = 1000000000, lvSkipCache = False\<rparr>"

theorem live_spork_invariant_witness:
  "\<exists>bs'. holds startWorld sampleChain startIds sampleGenesis bs' (sampleIndexer\<lparr>ixLiveRoot := None\<rparr>) sampleStore"
proof -
  let ?i = "sampleIndexer\<lparr>ixLiveRoot := None\<rparr>" and ?lv = "liveRetry True (Suc (Suc 0)) startLive" and ?sp = "last (chSporks sampleChain)"
  have r: "spRootBlock ?sp = 20" by code_simp
  have st: "liveStart 1 startWorld sampleChain ?sp sampleGenesis 6 ?i sampleStore 0 = Ok startLive"
    by (simp add: liveStart_def r startLive_def sampleGenesis_def)
  have "liveStep 1 startWorld sampleChain ?sp startLive = Ok ?lv"
    by (simp add: liveStep_def liveFetch_def liveBlock_def liveAccept_def startLive_def startWorld_def startAccess_def liveRetry_def Let_def)
  from liveReach.step [OF liveReach.start this] have reach: "liveReach 1 startWorld sampleChain ?sp startLive ?lv" .
  have "indexer_ok ?i" by (simp add: indexer_ok_def sampleIndexer_def mkeys_def alice_def bob_def)
  then have "holds startWorld sampleChain startIds sampleGenesis [] ?i sampleStore"
    using sampleStore_represents(1,2) start_chain_ids by (simp add: holds_def startWorld_def sampleWorld_def)
  from live_spork_invariant [OF reach start_tame this st] show ?thesis
    by (auto simp: liveRetry_def startLive_def)
qed

definition startRoot :: BlockMeta where
  "startRoot = \<lparr>bmHash = sampleHash, bmHeight = 20, bmParent = [9], bmTimestamp = 0\<rparr>"

theorem past_blocks_linked_witness:
  "\<exists>i. indexPastSporks 2 startWorld sampleChain sampleGenesis 20 i sampleStore 3 = Ok (i, sampleStore, 3) \<and>
     (sampleStore = sampleStore \<or>
      (\<exists>hs i1 t1. length hs = Suc (unat (20 :: u64) - unat (20 :: u64)) \<and> hd hs = sampleHash \<and>
        hd (tl hs @ [[9]]) = [9] \<and> linkedDown sampleGo startAccess sampleChain (20 - 1) (tl hs) [9] \<and>
        processHashes 2 startWorld sampleChain 20 (rev hs) i1 sampleStore t1 = Ok (i, sampleStore, 3)))"
proof -
  let ?i = "sampleIndexer\<lparr>ixLiveRoot := Some startRoot\<rparr>"
  have run: "indexPastSporks 2 startWorld sampleChain sampleGenesis 20 ?i sampleStore 3 = Ok (?i, sampleStore, 3)"
    unfolding numeral_2_eq_2 by (simp add: indexPastSporks_def startWorld_def startAccess_def sampleGenesis_def startRoot_def)
  from past_blocks_linked [OF run, of startRoot] have
    "sampleStore = sampleStore \<or>
      (\<exists>hs i1 t1. length hs = Suc (unat (20 :: u64) - unat (20 :: u64)) \<and> hd hs = sampleHash \<and>
        hd (tl hs @ [[9]]) = [9] \<and> linkedDown sampleGo startAccess sampleChain (20 - 1) (tl hs) [9] \<and>
        processHashes 2 startWorld sampleChain 20 (rev hs) i1 sampleStore t1 = Ok (?i, sampleStore, 3))"
    by (simp add: startRoot_def sampleGenesis_def startWorld_def sampleWorld_def)
  with run show ?thesis by blast
qed

end
