(* ===== verification/Api.thy ===== *)
theory Api
  imports Syncer
begin

section \<open>Package api: the data endpoints\<close>

text \<open>
  The errors of \<^verbatim>\<open>api/errors.go\<close>, the server of \<^verbatim>\<open>api/api.go\<close>, and the handlers of
  \<^verbatim>\<open>api/block_service.go\<close>, \<^verbatim>\<open>api/account_service.go\<close>,
  \<^verbatim>\<open>api/network_service.go\<close>, \<^verbatim>\<open>api/mempool_service.go\<close> and
  \<^verbatim>\<open>api/wrapper.go\<close>. A handler returns an \<open>Err\<close> with the Rosetta error, and an explicit
  panic is a \<open>Panic\<close>. A signed 64-bit integer of a request or a response is an integer; conversions
  between the widths are written out. The texts of errors of other packages, and Go's quoting of a
  string, are arguments (\<open>texts\<close>). The calls to an access node are a record of functions, whose first
  argument counts the calls of the handler: answers may change from one call to the next.
\<close>

subsection \<open>Errors\<close>

record xerror =
  xeCode :: int
  xeMessage :: string
  xeRetriable :: bool
  xeDetails :: "string option"

definition newError :: "int \<Rightarrow> string \<Rightarrow> bool \<Rightarrow> xerror" where
  "newError code msg retriable = \<lparr>xeCode = code, xeMessage = msg, xeRetriable = retriable, xeDetails = None\<rparr>"

definition wrapErrorf :: "xerror \<Rightarrow> string \<Rightarrow> xerror" where
  "wrapErrorf xerr msg = xerr\<lparr>xeDetails := Some msg\<rparr>"

definition wrapErr :: "xerror \<Rightarrow> string \<Rightarrow> xerror" where
  "wrapErr xerr err = xerr\<lparr>xeDetails := Some err\<rparr>"

definition formatErr :: "xerror \<Rightarrow> string" where
  "formatErr xerr =
     (case xeDetails xerr of
        Some detail \<Rightarrow> xeMessage xerr @ '' ['' @ formatInt (xeCode xerr) @ ''] ('' @ detail @ '')''
      | None \<Rightarrow> xeMessage xerr @ '' ['' @ formatInt (xeCode xerr) @ '']'')"

definition errBroadcastFailed :: xerror where "errBroadcastFailed = newError 101 ''broadcast failed'' False"
definition errNotImplemented :: xerror where "errNotImplemented = newError 102 ''method not implemented'' False"
definition errOfflineMode :: xerror where "errOfflineMode = newError 103 ''method not available in offline mode'' False"
definition errTransactionNotInMempool :: xerror where
  "errTransactionNotInMempool = newError 104 ''transaction not in mempool'' False"
definition errInvalidNumberOfAccountKeys :: xerror where
  "errInvalidNumberOfAccountKeys = newError 201 ''invalid number of account keys'' False"
definition errTransactionExpired :: xerror where "errTransactionExpired = newError 202 ''transaction expired'' False"
definition errInvalidKeyID :: xerror where "errInvalidKeyID = newError 203 ''invalid key id'' False"
definition errInternal :: xerror where "errInternal = newError 301 ''unexpected internal error'' False"
definition errMissingData :: xerror where
  "errMissingData = newError 302 ''block state doesn't exist or has been pruned at the execution node'' False"
definition errProtobuf :: xerror where "errProtobuf = newError 303 ''protobuf error'' False"
definition errInvalidAccountAddress :: xerror where
  "errInvalidAccountAddress = newError 401 ''invalid account address'' False"
definition errInvalidBlockHash :: xerror where "errInvalidBlockHash = newError 402 ''invalid block hash'' False"
definition errInvalidBlockIdentifier :: xerror where
  "errInvalidBlockIdentifier = newError 403 ''invalid block identifier'' False"
definition errInvalidBlockIndex :: xerror where "errInvalidBlockIndex = newError 404 ''invalid block index'' False"
definition errInvalidConstructOptions :: xerror where
  "errInvalidConstructOptions = newError 405 ''invalid construct options'' False"
definition errInvalidCurrency :: xerror where "errInvalidCurrency = newError 406 ''invalid currency'' False"
definition errInvalidMetadataField :: xerror where
  "errInvalidMetadataField = newError 407 ''invalid metadata field'' False"
definition errInvalidOpsIntent :: xerror where "errInvalidOpsIntent = newError 408 ''invalid ops intent'' False"
definition errInvalidSignature :: xerror where "errInvalidSignature = newError 409 ''invalid signature'' False"
definition errInvalidTransactionHash :: xerror where
  "errInvalidTransactionHash = newError 410 ''invalid transaction hash'' False"
definition errInvalidTransactionPayload :: xerror where
  "errInvalidTransactionPayload = newError 411 ''invalid transaction payload'' False"
definition errUnknownTransactionHash :: xerror where
  "errUnknownTransactionHash = newError 412 ''unknown transaction hash'' False"
definition errAccessNodeInaccessible :: xerror where
  "errAccessNodeInaccessible = newError 501 ''access node inaccessible'' True"
definition errBlockNotIndexed :: xerror where "errBlockNotIndexed = newError 502 ''block data not in index'' True"
definition errRateLimited :: xerror where "errRateLimited = newError 503 ''rate limited'' True"
definition errInvalidIndexedState :: xerror where
  "errInvalidIndexedState = newError 504 ''invalid indexed state'' True"
definition errFailedAccessAPICall :: xerror where
  "errFailedAccessAPICall = newError 505 ''failed access api call'' True"

definition serverErrors :: "xerror list" where
  "serverErrors =
     [errBroadcastFailed, errNotImplemented, errOfflineMode, errTransactionNotInMempool,
      errInvalidNumberOfAccountKeys, errTransactionExpired, errInvalidKeyID,
      errInternal, errMissingData, errProtobuf,
      errInvalidAccountAddress, errInvalidBlockHash, errInvalidBlockIdentifier, errInvalidBlockIndex,
      errInvalidConstructOptions, errInvalidCurrency, errInvalidMetadataField, errInvalidOpsIntent,
      errInvalidSignature, errInvalidTransactionHash, errInvalidTransactionPayload, errUnknownTransactionHash,
      errAccessNodeInaccessible, errBlockNotIndexed, errRateLimited, errInvalidIndexedState, errFailedAccessAPICall]"

definition handleExecutionErr :: "string \<Rightarrow> string \<Rightarrow> xerror" where
  "handleExecutionErr err typ =
     wrapErrorf (if contains err ''get register failed'' then errMissingData else errInternal)
       (''failed to '' @ typ @ '': '' @ err)"

type_synonym 'a response = "(xerror, 'a) outcome"

subsection \<open>The server\<close>

record validation =
  vaAccounts :: int
  vaChecked :: int
  vaErr :: string
  vaStatus :: string

text \<open>Values of JSON requests and responses; \<open>JFloat m e\<close> is the floating-point number \<open>m * 2 ^ e\<close>.\<close>

datatype json =
    JNull
  | JBool bool
  | JInt int
  | JFloat int int
  | JString string
  | JArray "json list"
  | JObject "(string \<times> json) list"

text \<open>Results of scripts.\<close>

datatype scriptValue =
    SVInt int
  | SVInt64 int
  | SVUFix64 u64
  | SVBool bool
  | SVString string
  | SVAddress bytes
  | SVStruct "(string \<times> scriptValue) list"
  | SVArray "scriptValue list"
  | SVOther

record texts =
  txQuote :: "string \<Rightarrow> string"
  txHexError :: "string \<Rightarrow> string"
  txIndexError :: "db_error \<Rightarrow> string"
  txValue :: "json \<Rightarrow> string"
  txCryptoError :: "crypto_error \<Rightarrow> string"
  txIntError :: "string \<Rightarrow> string"
  txType :: "scriptValue option \<Rightarrow> string"

text \<open>The keys of an account, and the calls to an access node.\<close>

record acctKey =
  akIndex :: u32
  akPublicKey :: bytes
  akSignAlgo :: u32
  akHashAlgo :: u32
  akSequenceNumber :: u32
  akRevoked :: bool

record nodes =
  ndExecute :: "nat \<Rightarrow> bytes \<Rightarrow> bytes \<Rightarrow> scriptValue list \<Rightarrow> (string, scriptValue) sum"
  ndAccount :: "nat \<Rightarrow> bytes \<Rightarrow> (string, acctKey list) sum"
  ndAccountAtHeight :: "nat \<Rightarrow> bytes \<Rightarrow> u64 \<Rightarrow> (string, acctKey list) sum"
  ndLatestBlockHeader :: "nat \<Rightarrow> (string, BlockHeader) sum"

text \<open>
  The fields the handlers read. The scripts are those that \<^verbatim>\<open>compileScripts\<close> fills in from
  their templates.
\<close>

record 'db Server =
  svChain :: Chain
  svNodes :: nodes
  svEnv :: "'db env"
  svIndex :: "'db Store"
  svIndexer :: Indexer
  svTexts :: texts
  svOffline :: bool
  svFeeAddrs :: "(bytes, bool) gomap"
  svGenesis :: "BlockMeta option"
  svIndexedStateErr :: "xerror option"
  svNetworks :: "(string \<times> string) list"
  svScriptGetBalances :: bytes
  svScriptGetBalancesBasic :: bytes
  svScriptGetFeeReceivers :: bytes
  svScriptGetProxyNonce :: bytes
  svScriptGetProxyPublicKey :: bytes
  svValidation :: validation

text \<open>The genesis block is nil on a server that runs offline over an empty store.\<close>

definition genesisOf :: "'db Server \<Rightarrow> BlockMeta response" where
  "genesisOf s = (case svGenesis s of None \<Rightarrow> Panic ''nil pointer dereference'' | Some g \<Rightarrow> Ok g)"

definition getAccount :: "'db Server \<Rightarrow> string \<Rightarrow> bytes response" where
  "getAccount s addr =
     (if length addr \<noteq> 18 \<or> take 2 addr \<noteq> ''0x'' then
        Err (wrapErrorf errInvalidAccountAddress (''api: address '' @ txQuote (svTexts s) addr @ '' is not valid''))
      else (case hexDecode (drop 2 addr) of
              None \<Rightarrow> Err (wrapErrorf errInvalidAccountAddress
                (''api: address '' @ txQuote (svTexts s) addr @ '' could not be hex decoded: '' @
                 txHexError (svTexts s) (drop 2 addr)))
            | Some acct \<Rightarrow> Ok acct))"

definition getIndexedStateErr :: "'db Server \<Rightarrow> xerror option" where
  "getIndexedStateErr s = svIndexedStateErr s"

definition getValidationStatus :: "'db Server \<Rightarrow> validation" where
  "getValidationStatus s = svValidation s"

text \<open>
  The code passes the finished message on as a format string. The messages of its callers are text with hexadecimal
  digits, numbers and booleans filled in, without a percent sign, so that formatting again leaves them as they are.
\<close>

definition setIndexedStateErr :: "string \<Rightarrow> 'db Server \<Rightarrow> 'db Server" where
  "setIndexedStateErr msg s =
     (let xerr = wrapErrorf errInvalidIndexedState msg;
          s1 = (case svIndexedStateErr s of None \<Rightarrow> s\<lparr>svIndexedStateErr := Some xerr\<rparr> | Some _ \<Rightarrow> s)
      in if vaStatus (svValidation s1) = ''failure'' then s1
         else s1\<lparr>svValidation := \<lparr>vaAccounts = 0, vaChecked = 0, vaErr = msg, vaStatus = ''failure''\<rparr>\<rparr>)"

definition setValidationProgress :: "int \<Rightarrow> int \<Rightarrow> 'db Server \<Rightarrow> 'db Server" where
  "setValidationProgress accounts checked s =
     (if vaStatus (svValidation s) = ''failure'' \<or> vaStatus (svValidation s) = ''success'' then s
      else s\<lparr>svValidation := \<lparr>vaAccounts = accounts, vaChecked = checked, vaErr = [], vaStatus = ''in_progress''\<rparr>\<rparr>)"

definition setValidationSuccess :: "int \<Rightarrow> 'db Server \<Rightarrow> 'db Server" where
  "setValidationSuccess accounts s =
     (if vaStatus (svValidation s) = ''failure'' then s
      else s\<lparr>svValidation := \<lparr>vaAccounts = accounts, vaChecked = 0, vaErr = [], vaStatus = ''success''\<rparr>\<rparr>)"

subsection \<open>Blocks\<close>

record blockIdentifier =
  biHash :: string
  biIndex :: int

record partialBlock =
  pbHash :: "string option"
  pbIndex :: "int option"

text \<open>An operation of the response: amounts are in FLOW, and the metadata has at most one entry.\<close>

record rosettaOp =
  roAccount :: string
  roAmount :: "string option"
  roIndex :: int
  roRelated :: "int list"
  roStatus :: string
  roType :: string
  roProxyPublicKey :: "string option"

record rosettaEvent =
  reAmount :: string
  reReceiver :: string
  reSender :: string
  reType :: string

record rosettaTxn =
  rtErrorMessage :: string
  rtFailed :: bool
  rtEvents :: "rosettaEvent list"
  rtOperations :: "rosettaOp list"
  rtHash :: string

record rosettaBlock =
  rbBlock :: blockIdentifier
  rbParent :: blockIdentifier
  rbTimestamp :: int
  rbTransactions :: "rosettaTxn list"

definition opCreateAccount :: string where "opCreateAccount = ''create_account''"
definition opCreateProxyAccount :: string where "opCreateProxyAccount = ''create_proxy_account''"
definition opFee :: string where "opFee = ''fee''"
definition opProxyTransfer :: string where "opProxyTransfer = ''proxy_transfer''"
definition opTransfer :: string where "opTransfer = ''transfer''"
definition statusSuccess :: string where "statusSuccess = ''SUCCESS''"
definition statusFailed :: string where "statusFailed = ''FAILED''"

definition addressText :: "bytes \<Rightarrow> string" where
  "addressText a = ''0x'' @ hexEncode a"

text \<open>\<^verbatim>\<open>strconv.FormatInt(-int64(x), 10)\<close>: the negation wraps at the least integer.\<close>

definition negated :: "u64 \<Rightarrow> string" where
  "negated x = formatInt (signed_take_bit 63 (- sint x))"

definition accountOp :: "bytes \<Rightarrow> string option \<Rightarrow> rosettaOp list \<Rightarrow> string \<Rightarrow> rosettaOp" where
  "accountOp acct amount ops typ =
     \<lparr>roAccount = addressText acct, roAmount = amount, roIndex = int (length ops), roRelated = [],
      roStatus = statusSuccess, roType = typ, roProxyPublicKey = None\<rparr>"

definition transferOps :: "Operation \<Rightarrow> rosettaOp list \<Rightarrow> rosettaOp list" where
  "transferOps src ops =
     (let typ = (if opType src = PROXY_TRANSFER then opProxyTransfer else opTransfer);
          sender = (length (opAccount src) > 0);
          ops1 = (if sender then ops @ [accountOp (opAccount src) (Some (negated (opAmount src))) ops typ] else ops)
      in if length (opReceiver src) > 0 then
           (let rop = accountOp (opReceiver src) (Some (formatUint (opAmount src))) ops1 typ
            in ops1 @ [if sender then rop\<lparr>roRelated := [int (length ops1) - 1]\<rparr> else rop])
         else ops1)"

definition createAccountOp :: "Operation \<Rightarrow> rosettaOp list \<Rightarrow> rosettaOp" where
  "createAccountOp src ops =
     (let cop = accountOp (opAccount src) None ops opCreateAccount
      in if length (opProxyPublicKey src) > 0
         then cop\<lparr>roProxyPublicKey := Some (hexEncode (opProxyPublicKey src)), roType := opCreateProxyAccount\<rparr>
         else cop)"

definition convertOp :: "Operation \<Rightarrow> rosettaOp list \<Rightarrow> rosettaOp list response" where
  "convertOp src ops =
     (case opType src of
        FEE \<Rightarrow> Ok (ops @ [accountOp (opAccount src) (Some (negated (opAmount src))) ops opFee])
      | TRANSFER \<Rightarrow> Ok (transferOps src ops)
      | PROXY_TRANSFER \<Rightarrow> Ok (transferOps src ops)
      | CREATE_ACCOUNT \<Rightarrow> Ok (ops @ [createAccountOp src ops])
      | _ \<Rightarrow> Panic ''api: unknown indexed operation type'')"

fun convertOps :: "Operation list \<Rightarrow> rosettaOp list \<Rightarrow> rosettaOp list response" where
  "convertOps [] ops = Ok ops"
| "convertOps (src # srcs) ops = andThen (convertOp src ops) (convertOps srcs)"

definition encodeTransferEvent :: "TransferEvent \<Rightarrow> rosettaEvent" where
  "encodeTransferEvent ev =
     \<lparr>reAmount = formatUint (teAmount ev),
      reReceiver = (if length (teReceiver ev) > 0 then addressText (teReceiver ev) else []),
      reSender = (if length (teSender ev) > 0 then addressText (teSender ev) else []),
      reType = TransferType_name (teType ev)\<rparr>"

definition encodeTransferEvents :: "TransferEvent list \<Rightarrow> rosettaEvent list" where
  "encodeTransferEvents src = map encodeTransferEvent src"

definition convertTransaction :: "IndexedTransaction \<Rightarrow> rosettaTxn response" where
  "convertTransaction txn =
     andThen (convertOps (itOperations txn) []) (\<lambda>ops.
     Ok \<lparr>rtErrorMessage = itErrorMessage txn, rtFailed = itFailed txn,
         rtEvents = encodeTransferEvents (itEvents txn), rtOperations = ops, rtHash = hexEncode (itHash txn)\<rparr>)"

definition genesisBlock :: "BlockMeta \<Rightarrow> BlockData" where
  "genesisBlock g =
     \<lparr>bkBlock = \<lparr>ibTimestamp = bmTimestamp g, ibTransactions = []\<rparr>,
      bkHash = bmHash g, bkHeight = bmHeight g, bkParentHash = bmHash g, bkParentHeight = bmHeight g\<rparr>"

text \<open>An error of the store: not indexed, or an internal error.\<close>

definition indexErr :: "'db Server \<Rightarrow> string \<Rightarrow> (db_error, 'a) outcome \<Rightarrow> 'a response" where
  "indexErr s msg r =
     mapErr (\<lambda>e. if e = ErrBlockNotIndexed then wrapErrorf errBlockNotIndexed msg
                  else wrapErr errInternal (txIndexError (svTexts s) e)) r"

definition getBlockData :: "'db Server \<Rightarrow> partialBlock option \<Rightarrow> BlockData response" where
  "getBlockData s pid =
     (case pid of
        None \<Rightarrow> Err errInvalidBlockIdentifier
      | Some b \<Rightarrow>
          (case pbIndex b of
             Some height \<Rightarrow>
               andThen (genesisOf s) (\<lambda>g.
               if height < sint (bmHeight g) then Err errInvalidBlockIndex
               else if height = sint (bmHeight g) then Ok (genesisBlock g)
               else indexErr s (''failed to lookup indexed data for block at height '' @ formatInt height)
                      (BlockByHeight (svEnv s) (svIndex s) (of_int height)))
           | None \<Rightarrow>
               (case pbHash b of
                  Some raw \<Rightarrow>
                    if length raw \<noteq> 64 then Err errInvalidBlockHash
                    else (case hexDecode raw of
                            None \<Rightarrow> Err (wrapErr errInvalidBlockHash (txHexError (svTexts s) raw))
                          | Some hash \<Rightarrow>
                              andThen (genesisOf s) (\<lambda>g.
                              if hash = bmHash g then Ok (genesisBlock g)
                              else indexErr s (''failed to lookup indexed data for block '' @ hexEncode hash)
                                     (BlockByHash (svEnv s) (svIndex s) hash)))
                | None \<Rightarrow> Err errInvalidBlockIdentifier)))"

text \<open>The first transaction of every hash, or the last one of them that has operations.\<close>

fun dedupLoop ::
  "IndexedTransaction list \<Rightarrow> (bytes, nat) gomap \<Rightarrow> IndexedTransaction list \<Rightarrow> IndexedTransaction list" where
  "dedupLoop [] seen txns = txns"
| "dedupLoop (txn # rest) seen txns =
     (case map_of seen (itHash txn) of
        Some idx \<Rightarrow>
          dedupLoop rest seen (if length (itOperations txn) > 0 then txns[idx := txn] else txns)
      | None \<Rightarrow> dedupLoop rest (mput seen (itHash txn) (length txns)) (txns @ [txn]))"

definition getBlock :: "'db Server \<Rightarrow> partialBlock option \<Rightarrow> BlockData response" where
  "getBlock s pid =
     andThen (getBlockData s pid) (\<lambda>data.
     Ok (data\<lparr>bkBlock := (bkBlock data)\<lparr>ibTransactions := dedupLoop (ibTransactions (bkBlock data)) [] []\<rparr>\<rparr>))"

text \<open>\<^verbatim>\<open>int64(timestamp / 1000000)\<close>.\<close>

definition millis :: "u64 \<Rightarrow> int" where
  "millis ts = sint (ts div 1000000)"

definition ApiBlock :: "'db Server \<Rightarrow> partialBlock option \<Rightarrow> rosettaBlock response" where
  "ApiBlock s pid =
     (if svOffline s then Err errOfflineMode
      else
        andThen (getBlock s pid) (\<lambda>data.
        andThen (mapOutcome convertTransaction (ibTransactions (bkBlock data))) (\<lambda>txns.
        Ok \<lparr>rbBlock = \<lparr>biHash = hexEncode (bkHash data), biIndex = sint (bkHeight data)\<rparr>,
            rbParent = \<lparr>biHash = hexEncode (bkParentHash data), biIndex = sint (bkParentHeight data)\<rparr>,
            rbTimestamp = millis (ibTimestamp (bkBlock data)), rbTransactions = txns\<rparr>)))"

definition BlockTransaction :: "'db Server \<Rightarrow> blockIdentifier option \<Rightarrow> string option \<Rightarrow> rosettaTxn response" where
  "BlockTransaction s bid tid =
     (if svOffline s then Err errOfflineMode
      else (case bid of
              None \<Rightarrow> Err errInvalidBlockIdentifier
            | Some b \<Rightarrow>
                (case tid of
                   None \<Rightarrow> Err errInvalidTransactionHash
                 | Some raw \<Rightarrow>
                     (case hexDecode raw of
                        None \<Rightarrow> Err (wrapErr errInvalidTransactionHash (txHexError (svTexts s) raw))
                      | Some txhash \<Rightarrow>
                          andThen (getBlock s (Some \<lparr>pbHash = Some (biHash b), pbIndex = Some (biIndex b)\<rparr>)) (\<lambda>data.
                          case find (\<lambda>txn. itHash txn = txhash) (ibTransactions (bkBlock data)) of
                            Some txn \<Rightarrow> convertTransaction txn
                          | None \<Rightarrow> Err errUnknownTransactionHash)))))"

subsection \<open>Accounts\<close>

record balanceResponse =
  arBlock :: blockIdentifier
  arValue :: string
  arSequenceNumber :: "string option"

definition balanceResponseOf :: "BalanceData \<Rightarrow> balanceResponse" where
  "balanceResponseOf v =
     \<lparr>arBlock = \<lparr>biHash = hexEncode (bdHash v), biIndex = sint (bdHeight v)\<rparr>,
      arValue = formatUint (bdBalance v), arSequenceNumber = None\<rparr>"

definition genesisBalance :: "'db Server \<Rightarrow> balanceResponse response" where
  "genesisBalance s =
     andThen (genesisOf s) (\<lambda>g.
     Ok \<lparr>arBlock = \<lparr>biHash = hexEncode (bmHash g), biIndex = sint (bmHeight g)\<rparr>,
         arValue = ''0'', arSequenceNumber = None\<rparr>)"

text \<open>\<^verbatim>\<open>cadence.BytesToAddress\<close> keeps the last eight bytes, or pads on the left.\<close>

definition BytesToAddress :: "bytes \<Rightarrow> bytes" where
  "BytesToAddress b = replicate (8 - length b) 0 @ drop (length b - 8) b"

text \<open>The sequence number of the one key that is not revoked; the error is a text.\<close>

definition keySequence :: "acctKey list \<Rightarrow> (string, u64) outcome" where
  "keySequence keys =
     (let live = filter (\<lambda>k. \<not> akRevoked k) keys;
          seq = (if live = [] then 0 else ucast (akSequenceNumber (last live)))
      in if length live \<noteq> 1
         then Err (''found '' @ formatNat (length live) @ '' valid keys out of total '' @ formatNat (length keys) @ '' keys'')
         else Ok seq)"

definition getSequenceNumber :: "'db Server \<Rightarrow> bytes \<Rightarrow> BlockMeta \<Rightarrow> (string, u64) outcome" where
  "getSequenceNumber s addr block =
     (let keySeq = (\<lambda>n. case ndAccountAtHeight (svNodes s) n addr (bmHeight block) of
                          Inl err \<Rightarrow> Err err
                        | Inr keys \<Rightarrow> keySequence keys)
      in if IsProxyContractDeployed (svChain s) then
           (case ndExecute (svNodes s) 0 (bmHash block) (svScriptGetProxyNonce s) [SVAddress (BytesToAddress addr)] of
              Inl err \<Rightarrow> Err err
            | Inr (SVInt64 nonce) \<Rightarrow> if nonce \<ge> 0 then Ok (of_int nonce) else keySeq 1
            | Inr _ \<Rightarrow> Err ''failed to convert get_proxy_nonce result to int64'')
         else keySeq 0)"

record currency =
  cuDecimals :: int
  cuSymbol :: string

definition flowCurrency :: currency where
  "flowCurrency = \<lparr>cuDecimals = 8, cuSymbol = ''FLOW''\<rparr>"

text \<open>
  The latest block of the store, which is nil when nothing is stored; the store stops the process on
  any other failure and never returns an error.
\<close>

definition tipOf :: "'db Server \<Rightarrow> BlockMeta option response" where
  "tipOf s = mapErr (\<lambda>e. wrapErr errInternal (txIndexError (svTexts s) e)) (snd (Latest (svEnv s) (svIndex s)))"

text \<open>
  The request: the address, unless the identifier is nil, the block and the currencies, where nil is
  \<open>None\<close>.
\<close>

definition tipBalance :: "'db Server \<Rightarrow> bytes \<Rightarrow> balanceResponse response" where
  "tipBalance s acct =
     andThen (tipOf s) (\<lambda>tip.
     if Equal tip (svGenesis s) then genesisBalance s
     else if \<not> Synced (svIndexer s) then Err (wrapErrorf errBlockNotIndexed ''node is not synced to tip'')
     else (case tip of
             None \<Rightarrow> Panic ''nil pointer dereference''
           | Some block \<Rightarrow>
               andThen (mapErr (\<lambda>e. wrapErrorf errInternal
                          (''failed to get sequence number for '' @ hexEncode acct @ '': '' @ e))
                         (getSequenceNumber s acct block)) (\<lambda>seq.
               andThen (indexErr s (''failed to lookup indexed data for block '' @ hexEncode (bmHash block) @
                          '' at height '' @ formatUint (bmHeight block))
                         (BalanceByHash (svEnv s) (svIndex s) acct (bmHash block))) (\<lambda>v.
               Ok ((balanceResponseOf v)\<lparr>arSequenceNumber := Some (formatUint seq)\<rparr>)))))"

definition AccountBalance ::
  "'db Server \<Rightarrow> string option \<Rightarrow> partialBlock option \<Rightarrow> currency option list \<Rightarrow> balanceResponse response" where
  "AccountBalance s addr pid currencies =
     (case addr of
        None \<Rightarrow> Err errInvalidAccountAddress
      | Some a \<Rightarrow>
          andThen (getAccount s a) (\<lambda>acct.
          if list_ex (\<lambda>c. c \<noteq> Some flowCurrency) currencies then Err errInvalidCurrency
          else (case pid of
                  None \<Rightarrow> tipBalance s acct
                | Some b \<Rightarrow>
                    (case pbIndex b of
                       Some height \<Rightarrow>
                         andThen (genesisOf s) (\<lambda>g.
                         if height < sint (bmHeight g) then Err errInvalidBlockIndex
                         else if height = sint (bmHeight g) then genesisBalance s
                         else
                           andThen (indexErr s (''failed to lookup indexed data for block at height '' @ formatInt height)
                                      (BalanceByHeight (svEnv s) (svIndex s) acct (of_int height))) (\<lambda>v.
                           Ok (balanceResponseOf v)))
                     | None \<Rightarrow>
                         (case pbHash b of
                            Some raw \<Rightarrow>
                              if length raw \<noteq> 64 then Err errInvalidBlockHash
                              else (case hexDecode raw of
                                      None \<Rightarrow> Err (wrapErr errInvalidBlockHash (txHexError (svTexts s) raw))
                                    | Some hash \<Rightarrow>
                                        andThen (genesisOf s) (\<lambda>g.
                                        if hash = bmHash g then genesisBalance s
                                        else
                                          andThen (indexErr s (''failed to lookup indexed data for block '' @ hexEncode hash)
                                                     (BalanceByHash (svEnv s) (svIndex s) acct hash)) (\<lambda>v.
                                          Ok (balanceResponseOf v))))
                          | None \<Rightarrow> Err errInvalidBlockIdentifier)))))"

definition AccountCoins :: "'db Server \<Rightarrow> 'a response" where
  "AccountCoins s = Err (if svOffline s then errOfflineMode else errNotImplemented)"

subsection \<open>Network and mempool\<close>

definition NetworkList :: "'db Server \<Rightarrow> (string \<times> string) list response" where
  "NetworkList s = Ok (svNetworks s)"

definition callMethods :: "string list" where
  "callMethods =
     [''account_balances'', ''account_public_keys'', ''balance_validation_status'', ''echo'', ''latest_block'',
      ''list_accounts'', ''verify_address'']"

definition opTypes :: "string list" where
  "opTypes =
     [opCreateAccount, opCreateProxyAccount, ''deploy_contract'', opFee, opProxyTransfer, ''proxy_transfer_inner'',
      opTransfer, ''update_contract'']"

record networkOptions =
  noCallMethods :: "string list"
  noErrors :: "xerror list"
  noHistoricalBalanceLookup :: bool
  noOperationStatuses :: "(string \<times> bool) list"
  noOperationTypes :: "string list"

definition NetworkOptions :: "'db Server \<Rightarrow> networkOptions response" where
  "NetworkOptions s =
     Ok \<lparr>noCallMethods = callMethods, noErrors = serverErrors, noHistoricalBalanceLookup = True,
         noOperationStatuses = [(statusSuccess, True), (statusFailed, False)], noOperationTypes = opTypes\<rparr>"

record networkStatus =
  nsCurrent :: blockIdentifier
  nsTimestamp :: int
  nsGenesis :: blockIdentifier
  nsSynced :: bool

definition NetworkStatus :: "'db Server \<Rightarrow> networkStatus response" where
  "NetworkStatus s =
     (if svOffline s then Err errOfflineMode
      else
        andThen (tipOf s) (\<lambda>tip.
        case tip of
          None \<Rightarrow> Panic ''nil pointer dereference''
        | Some l \<Rightarrow>
            andThen (genesisOf s) (\<lambda>g.
            Ok \<lparr>nsCurrent = \<lparr>biHash = hexEncode (bmHash l), biIndex = sint (bmHeight l)\<rparr>,
                nsTimestamp = millis (bmTimestamp l),
                nsGenesis = \<lparr>biHash = hexEncode (bmHash g), biIndex = sint (bmHeight g)\<rparr>,
                nsSynced = Synced (svIndexer s)\<rparr>)))"

definition Mempool :: "'db Server \<Rightarrow> string list response" where
  "Mempool s = (if svOffline s then Err errOfflineMode else Ok [])"

definition MempoolTransaction :: "'db Server \<Rightarrow> 'a response" where
  "MempoolTransaction s = Err (if svOffline s then errOfflineMode else errTransactionNotInMempool)"

subsection \<open>The wrapper\<close>

text \<open>After an indexed state error every wrapped endpoint except those of \<^verbatim>\<open>/network\<close> and \<^verbatim>\<open>/call\<close> fails.\<close>

definition guarded :: "'db Server \<Rightarrow> 'a response \<Rightarrow> 'a response" where
  "guarded s resp = (case getIndexedStateErr s of Some xerr \<Rightarrow> Err xerr | None \<Rightarrow> resp)"

definition wrappedAccountBalance ::
  "'db Server \<Rightarrow> string option \<Rightarrow> partialBlock option \<Rightarrow> currency option list \<Rightarrow> balanceResponse response" where
  "wrappedAccountBalance s addr pid currencies = guarded s (AccountBalance s addr pid currencies)"

definition wrappedAccountCoins :: "'db Server \<Rightarrow> 'a response" where
  "wrappedAccountCoins s = guarded s (AccountCoins s)"

definition wrappedBlock :: "'db Server \<Rightarrow> partialBlock option \<Rightarrow> rosettaBlock response" where
  "wrappedBlock s pid = guarded s (ApiBlock s pid)"

definition wrappedBlockTransaction :: "'db Server \<Rightarrow> blockIdentifier option \<Rightarrow> string option \<Rightarrow> rosettaTxn response" where
  "wrappedBlockTransaction s bid tid = guarded s (BlockTransaction s bid tid)"

definition wrappedMempool :: "'db Server \<Rightarrow> string list response" where
  "wrappedMempool s = guarded s (Mempool s)"

definition wrappedMempoolTransaction :: "'db Server \<Rightarrow> 'a response" where
  "wrappedMempoolTransaction s = guarded s (MempoolTransaction s)"

definition wrappedNetworkList :: "'db Server \<Rightarrow> (string \<times> string) list response" where
  "wrappedNetworkList s = NetworkList s"

definition wrappedNetworkOptions :: "'db Server \<Rightarrow> networkOptions response" where
  "wrappedNetworkOptions s = NetworkOptions s"

definition wrappedNetworkStatus :: "'db Server \<Rightarrow> networkStatus response" where
  "wrappedNetworkStatus s = NetworkStatus s"

end
