(* ===== verification/ApiProps.thy ===== *)
theory ApiProps
  imports Api ProcessProps
begin

section \<open>Properties of the data endpoints\<close>

text \<open>
  The balances and the operations that the endpoints report agree with each other, which is what a
  Rosetta client reconciles; the status of the balance validation is a state machine in which a
  failure is final.
\<close>

subsection \<open>Amounts\<close>

lemma formatNat_sign: "formatNat n = c # cs \<Longrightarrow> c \<noteq> CHR ''-'' \<and> c \<noteq> CHR ''+''"
  using parseDigits_formatNat [of n] by (auto simp: fromDecChar_def split: option.splits)

lemma parseInt64_formatNat: "int n < 2 ^ 63 \<Longrightarrow> parseInt64 (formatNat n) = Some (int n)"
proof -
  assume n: "int n < 2 ^ 63"
  obtain c cs where c: "formatNat n = c # cs" using formatNat_ne [of n] by (cases "formatNat n") auto
  with formatNat_sign [OF c] parseDigits_formatNat [of n] n show ?thesis by (simp add: parseInt64_def)
qed

lemma parseInt64_formatUint: "uint w < 2 ^ 63 \<Longrightarrow> parseInt64 (formatUint w) = Some (uint w)" for w :: u64
  using parseInt64_formatNat [of "unat w"] by (simp add: formatUint_def)

lemma signed_id: "- (2 ^ 63) \<le> k \<Longrightarrow> k < 2 ^ 63 \<Longrightarrow> signed_take_bit 63 k = (k :: int)"
  by (rule signed_take_bit_int_eq_self)

lemma sint_small: "uint w < 2 ^ 63 \<Longrightarrow> sint w = uint w" for w :: u64
proof -
  assume w: "uint w < 2 ^ 63"
  have "- (2 ^ 63) \<le> uint w" by (rule order_trans [of _ 0]) simp_all
  from signed_id [OF this w] show ?thesis by (simp add: sint_uint)
qed

lemma parseInt64_negated: "uint w < 2 ^ 63 \<Longrightarrow> parseInt64 (negated w) = Some (- uint w)" for w :: u64
proof (cases "uint w = 0")
  case True
  then have "negated w = formatNat 0" by (simp add: negated_def formatInt_def sint_small)
  with True parseInt64_formatNat [of 0] show ?thesis by simp
next
  case False
  assume w: "uint w < 2 ^ 63"
  with False have "negated w = CHR ''-'' # formatNat (nat (uint w))"
  proof -
    have "- uint w < 2 ^ 63" by (rule le_less_trans [of _ 0]) simp_all
    with w have "signed_take_bit 63 (- uint w) = - uint w" by (intro signed_id) auto
    moreover have "0 < uint w" using False uint_ge_0 [of w] by linarith
    ultimately show ?thesis using sint_small [OF w] by (simp add: negated_def formatInt_def)
  qed
  moreover have "- uint w < 2 ^ 63" by (rule le_less_trans [of _ 0]) simp_all
  ultimately show ?thesis using w by (simp add: parseInt64_def parseDigits_formatNat Let_def)
qed

lemma addressText_inject [simp]: "addressText a = addressText b \<longleftrightarrow> a = b"
  by (simp add: addressText_def)

text \<open>What a client reads: the signed amount of an operation, and the sum for an address.\<close>

definition amountOf :: "rosettaOp \<Rightarrow> int" where
  "amountOf x = (case roAmount x of None \<Rightarrow> 0 | Some v \<Rightarrow> (case parseInt64 v of None \<Rightarrow> 0 | Some i \<Rightarrow> i))"

definition reported :: "string \<Rightarrow> rosettaOp list \<Rightarrow> int" where
  "reported addr ops = sum_list (map (\<lambda>x. if roAccount x = addr then amountOf x else 0) ops)"

definition reportedBlock :: "string \<Rightarrow> rosettaBlock \<Rightarrow> int" where
  "reportedBlock addr blk = sum_list (map (\<lambda>t. reported addr (rtOperations t)) (rbTransactions blk))"

lemma reported_append [simp]: "reported addr (xs @ ys) = reported addr xs + reported addr ys"
  by (simp add: reported_def)

text \<open>Operations as the indexer stores them: well-formed, amounts of 63 bits, and fees without receiver.\<close>

definition reportable :: "Operation \<Rightarrow> bool" where
  "reportable x \<longleftrightarrow> op_ok x \<and> uint (opAmount x) < 2 ^ 63 \<and> (opType x = FEE \<longrightarrow> opReceiver x = [])"

lemma convertOp_reported:
  assumes x: "reportable x" and a: "a \<noteq> []"
  shows "\<exists>ops'. convertOp x ops = Ok ops' \<and> of_int (reported (addressText a) ops') =
     (of_int (reported (addressText a) ops) + opDiff a x :: u64)"
proof -
  have v: "parseInt64 (formatUint (opAmount x)) = Some (uint (opAmount x))"
    "parseInt64 (negated (opAmount x)) = Some (- uint (opAmount x))"
    using x by (simp_all add: reportable_def parseInt64_formatUint parseInt64_negated)
  show ?thesis
    using x a
    by (cases "opType x")
      (auto simp: convertOp_def reportable_def op_ok_def opDiff_def transferOps_def createAccountOp_def accountOp_def
        reported_def amountOf_def v Let_def)
qed

lemma convertOps_reported:
  assumes "a \<noteq> []"
  shows "list_all reportable xs \<Longrightarrow> \<exists>ops'. convertOps xs ops = Ok ops' \<and>
     of_int (reported (addressText a) ops') = (of_int (reported (addressText a) ops) + sum_list (map (opDiff a) xs) :: u64)"
proof (induction xs arbitrary: ops)
  case (Cons x xs)
  then obtain ops1 where o1: "convertOp x ops = Ok ops1"
      "of_int (reported (addressText a) ops1) = (of_int (reported (addressText a) ops) + opDiff a x :: u64)"
    using convertOp_reported [OF _ assms, of x ops] by auto
  from Cons.IH [of ops1] Cons.prems obtain ops2 where "convertOps xs ops1 = Ok ops2"
      "of_int (reported (addressText a) ops2) = (of_int (reported (addressText a) ops1) + sum_list (map (opDiff a) xs) :: u64)"
    by auto
  with o1 show ?case by (simp add: algebra_simps)
qed simp

lemma convertTransactions_reported:
  assumes a: "a \<noteq> []"
  shows "\<forall>t \<in> set txns. list_all reportable (itOperations t) \<Longrightarrow> \<exists>ts. mapOutcome convertTransaction txns = Ok ts \<and>
     of_int (sum_list (map (\<lambda>t. reported (addressText a) (rtOperations t)) ts)) =
       (sum_list (map (\<lambda>t. sum_list (map (opDiff a) (itOperations t))) txns) :: u64)"
proof (induction txns)
  case (Cons t txns)
  from Cons obtain ts where ts: "mapOutcome convertTransaction txns = Ok ts"
     "of_int (sum_list (map (\<lambda>t. reported (addressText a) (rtOperations t)) ts)) =
       (sum_list (map (\<lambda>t. sum_list (map (opDiff a) (itOperations t))) txns) :: u64)" by auto
  from convertOps_reported [OF a, of "itOperations t" "[]"] Cons.prems obtain ops where
     ops: "convertOps (itOperations t) [] = Ok ops"
       "of_int (reported (addressText a) ops) = (sum_list (map (opDiff a) (itOperations t)) :: u64)"
    by (auto simp: reported_def)
  then obtain r where "convertTransaction t = Ok r" "rtOperations r = ops" by (simp add: convertTransaction_def)
  with ts ops(2) show ?case by simp
qed simp

text \<open>Every amount of a reported operation is the decimal text of a 64-bit integer.\<close>

definition readableOp :: "rosettaOp \<Rightarrow> bool" where
  "readableOp x \<longleftrightarrow> (case roAmount x of None \<Rightarrow> True | Some v \<Rightarrow> parseInt64 v \<noteq> None)"

definition readable :: "rosettaBlock \<Rightarrow> bool" where
  "readable blk \<longleftrightarrow> list_all (\<lambda>t. list_all readableOp (rtOperations t)) (rbTransactions blk)"

lemma convertOp_readable:
  assumes "reportable x" and "list_all readableOp ops" and "convertOp x ops = Ok ops'"
  shows "list_all readableOp ops'"
proof -
  have "parseInt64 (formatUint (opAmount x)) \<noteq> None" "parseInt64 (negated (opAmount x)) \<noteq> None"
    using assms(1) by (simp_all add: reportable_def parseInt64_formatUint parseInt64_negated)
  with assms(2,3) show ?thesis
    by (auto simp: convertOp_def transferOps_def accountOp_def createAccountOp_def readableOp_def Let_def
        split: OperationType.splits if_splits)
qed

lemma convertOps_readable:
  "list_all reportable xs \<Longrightarrow> list_all readableOp ops \<Longrightarrow> convertOps xs ops = Ok ops' \<Longrightarrow> list_all readableOp ops'"
  by (induction xs arbitrary: ops) (auto dest: convertOp_readable)

lemma convertTransactions_readable:
  "\<forall>t \<in> set txns. list_all reportable (itOperations t) \<Longrightarrow> mapOutcome convertTransaction txns = Ok ts \<Longrightarrow>
     list_all (\<lambda>t. list_all readableOp (rtOperations t)) ts"
  by (induction txns arbitrary: ts) (auto simp: convertTransaction_def dest: convertOps_readable [where ops = "[]"])

subsection \<open>Duplicate transactions\<close>

definition hasOps :: "IndexedTransaction \<Rightarrow> bool" where
  "hasOps t \<longleftrightarrow> itOperations t \<noteq> []"

text \<open>Of the transactions with one hash, at most one has operations.\<close>

definition uniqueOps :: "IndexedTransaction list \<Rightarrow> bool" where
  "uniqueOps ts \<longleftrightarrow> distinct (map itHash (filter hasOps ts))"

lemma dedupLoop_ops:
  "uniqueOps (txns @ rest) \<Longrightarrow> \<forall>h i. map_of seen h = Some i \<longrightarrow> i < length txns \<and> itHash (txns ! i) = h \<Longrightarrow>
   mset (filter hasOps (dedupLoop rest seen txns)) = mset (filter hasOps (txns @ rest))"
proof (induction rest seen txns rule: dedupLoop.induct)
  case (2 txn rest seen txns)
  show ?case
  proof (cases "map_of seen (itHash txn)")
    case None
    have "\<forall>h i. map_of (mput seen (itHash txn) (length txns)) h = Some i \<longrightarrow>
        i < length (txns @ [txn]) \<and> itHash ((txns @ [txn]) ! i) = h"
      using "2.prems"(2) by (auto simp: update_conv' nth_append less_Suc_eq)
    with 2 None show ?thesis by simp
  next
    case (Some i)
    with "2.prems"(2) have i: "i < length txns" "itHash (txns ! i) = itHash txn" by auto
    show ?thesis
    proof (cases "hasOps txn")
      case False
      with 2 Some show ?thesis by (simp add: hasOps_def uniqueOps_def)
    next
      case True
      have "\<not> hasOps (txns ! i)"
      proof
        assume "hasOps (txns ! i)"
        with i have "itHash txn \<in> itHash ` set (filter hasOps txns)" by (force intro: image_eqI [of _ _ "txns ! i"])
        with "2.prems"(1) True show False by (auto simp: uniqueOps_def)
      qed
      then have m: "mset (filter hasOps (txns[i := txn])) = mset (filter hasOps (txns @ [txn]))"
        using i(1) True by (simp add: mset_update mset_filter filter_diff_mset)
      then have "mset (map itHash (filter hasOps (txns[i := txn] @ rest))) = mset (map itHash (filter hasOps (txns @ txn # rest)))"
        using True by simp
      then have "uniqueOps (txns[i := txn] @ rest)"
        using "2.prems"(1) unfolding uniqueOps_def by (metis mset_eq_imp_distinct_iff)
      moreover have "\<forall>h k. map_of seen h = Some k \<longrightarrow> k < length (txns[i := txn]) \<and> itHash (txns[i := txn] ! k) = h"
        using "2.prems"(2) i by (auto simp: nth_list_update)
      moreover have step: "0 < length (itOperations txn)" using True by (simp add: hasOps_def)
      ultimately have "mset (filter hasOps (dedupLoop rest seen (txns[i := txn]))) =
          mset (filter hasOps (txns[i := txn] @ rest))"
        using "2.IH"(2) [OF Some] by simp
      with Some step m show ?thesis using True by simp
    qed
  qed
qed simp

lemma sum_hasOps:
  "sum_list (map (\<lambda>t. sum_list (map (opDiff a) (itOperations t))) ts) =
   (\<Sum>t \<in># mset (filter hasOps ts). sum_list (map (opDiff a) (itOperations t)))"
  by (induction ts) (auto simp: hasOps_def)

lemma dedup_diff:
  assumes "uniqueOps (ibTransactions b)"
  shows "sum_list (map (\<lambda>t. sum_list (map (opDiff a) (itOperations t))) (dedupLoop (ibTransactions b) [] [])) = blockDiff a b"
proof -
  have "mset (filter hasOps (dedupLoop (ibTransactions b) [] [])) = mset (filter hasOps (ibTransactions b))"
    using dedupLoop_ops [of "[]" "ibTransactions b" "[]"] assms by simp
  then have "sum_list (map (\<lambda>t. sum_list (map (opDiff a) (itOperations t))) (dedupLoop (ibTransactions b) [] [])) =
      sum_list (map (\<lambda>t. sum_list (map (opDiff a) (itOperations t))) (ibTransactions b))"
    by (simp add: sum_hasOps)
  also have "\<dots> = blockDiff a b"
  proof -
    have "sum_list (map (\<lambda>t. sum_list (map (opDiff a) (itOperations t))) ts) =
        sum_list (map (opDiff a) (concat (map itOperations ts)))" for ts by (induction ts) simp_all
    then show ?thesis by (simp add: blockDiff_def blockOps_def)
  qed
  finally show ?thesis .
qed

lemma dedupLoop_set: "set (dedupLoop rest seen txns) \<subseteq> set txns \<union> set rest"
proof (induction rest seen txns rule: dedupLoop.induct)
  case (2 txn rest seen txns)
  have "set (txns[i := txn]) \<subseteq> insert txn (set txns)" for i by (rule set_update_subset_insert)
  with 2 show ?case by (cases "map_of seen (itHash txn)") (auto split: if_splits)
qed simp

subsection \<open>Reconciliation\<close>

text \<open>A server over a store that represents a chain; heights fit in the signed integers of the API.\<close>

definition serves_chain :: "'db Server \<Rightarrow> BlockMeta \<Rightarrow> blk list \<Rightarrow> bool" where
  "serves_chain s g bs \<longleftrightarrow>
     (\<exists>l. represents (svEnv s) (svIndex s) g l bs) \<and> genesis (svIndex s) = Some g \<and> svGenesis s = Some g \<and>
     \<not> svOffline s \<and> tipHeight g bs < 2 ^ 63"

definition atHeight :: "nat \<Rightarrow> partialBlock option" where
  "atHeight n = Some \<lparr>pbHash = None, pbIndex = Some (int n)\<rparr>"

lemma getAccount_addressText: "length a = 8 \<Longrightarrow> getAccount s (addressText a) = Ok a"
  by (simp add: getAccount_def addressText_def)

lemma height_conversions:
  assumes "serves_chain s g bs" "n \<le> tipHeight g bs"
  shows "unat (of_int (int n) :: u64) = n" "sint (bmHeight g) = int (baseHeight g)"
proof -
  have t: "tipHeight g bs < 2 ^ 63" using assms(1) by (simp add: serves_chain_def)
  with assms(2) show "unat (of_int (int n) :: u64) = n" by (simp add: unat_of_nat)
  have "uint (bmHeight g) = int (baseHeight g)" by (simp add: baseHeight_def)
  moreover have "int (baseHeight g) < 2 ^ 63" using t by (simp add: tipHeight_def)
  ultimately show "sint (bmHeight g) = int (baseHeight g)" using sint_small [of "bmHeight g"] by simp
qed

lemma AccountBalance_height:
  assumes sv: "serves_chain s g bs" and a: "length a = 8" and n: "baseHeight g \<le> n" "n \<le> tipHeight g bs"
  shows "\<exists>v. AccountBalance s (Some (addressText a)) (atHeight n) [] = Ok v \<and> arValue v = formatUint (balanceAt g bs a n)"
proof -
  from sv obtain l where l: "represents (svEnv s) (svIndex s) g l bs" by (auto simp: serves_chain_def)
  have g: "genesisOf s = Ok g" using sv by (simp add: serves_chain_def genesisOf_def)
  note c = height_conversions [OF sv n(2)]
  show ?thesis
  proof (cases "n = baseHeight g")
    case True
    have "balanceAt g bs a n = 0"
      unfolding True
      by (rule balanceAt_zero) (auto simp: blkAt_def blockTouches_def blockOps_def chainOf_def genesisBlk_def split: if_splits)
    then show ?thesis
      using True by (simp add: AccountBalance_def atHeight_def getAccount_addressText [OF a] g c(2) genesisBalance_def
          formatUint_def formatNat.simps [of 0] decDigit_def)
  next
    case False
    from n obtain b where b: "blkAt g bs n = Some b" by (auto simp: blkAt_def)
    have "BalanceByHeight (svEnv s) (svIndex s) a (of_int (int n)) =
        Ok \<lparr>bdBalance = balanceAt g bs a n, bdHash = fst b, bdHeight = of_int (int n)\<rparr>"
      using Balance_represents [OF l a, of "of_int (int n)"] unfolding c(1) by (simp add: b)
    with False n show ?thesis
      by (simp add: AccountBalance_def atHeight_def getAccount_addressText [OF a] g c(2) indexErr_def balanceResponseOf_def)
  qed
qed

lemma ApiBlock_height:
  assumes sv: "serves_chain s g bs" and a: "length a = 8" and n: "baseHeight g < n" "blkAt g bs n = Some b"
    and ok: "list_all reportable (blockOps (snd b))" and u: "uniqueOps (ibTransactions (snd b))"
  shows "\<exists>blk. ApiBlock s (atHeight n) = Ok blk \<and> of_int (reportedBlock (addressText a) blk) = blockDiff a (snd b) \<and>
     rbBlock blk = \<lparr>biHash = hexEncode (fst b), biIndex = int n\<rparr> \<and>
     rbParent blk = \<lparr>biHash = hexEncode (fst (the (blkAt g bs (n - 1)))), biIndex = int n - 1\<rparr> \<and> readable blk"
proof -
  from sv obtain l where l: "represents (svEnv s) (svIndex s) g l bs" by (auto simp: serves_chain_def)
  have g: "genesisOf s = Ok g" "genesis (svIndex s) = Some g" "\<not> svOffline s"
    using sv by (simp_all add: serves_chain_def genesisOf_def)
  have tip: "n \<le> tipHeight g bs" "tipHeight g bs < 2 ^ 63" using n(2) sv by (auto simp: blkAt_def serves_chain_def split: if_splits)
  note c = height_conversions [OF sv tip(1)]
  let ?h = "of_int (int n) :: u64"
  have bh: "BlockByHeight (svEnv s) (svIndex s) ?h = Ok \<lparr>bkBlock = snd b, bkHash = fst b, bkHeight = ?h,
      bkParentHash = fst (the (blkAt g bs (n - 1))), bkParentHeight = ?h - 1\<rparr>"
    using Block_represents [OF l g(2), of ?h] n unfolding c(1) by simp
  have rep: "\<forall>t \<in> set (dedupLoop (ibTransactions (snd b)) [] []). list_all reportable (itOperations t)"
    using ok dedupLoop_set [of "ibTransactions (snd b)" "[]" "[]"] by (fastforce simp: blockOps_def list_all_iff)
  then obtain ts where
     ts: "mapOutcome convertTransaction (dedupLoop (ibTransactions (snd b)) [] []) = Ok ts"
       "of_int (sum_list (map (\<lambda>t. reported (addressText a) (rtOperations t)) ts)) = blockDiff a (snd b)"
    using convertTransactions_reported [of a] dedup_diff [OF u] a by fastforce
  note readable = convertTransactions_readable [OF rep ts(1)]
  have "sint ?h = int n" "sint (?h - 1) = int n - 1"
  proof -
    have u1: "uint ?h = int n" using c(1) by (simp add: uint_nat)
    then show "sint ?h = int n" using tip sint_small [of ?h] by simp
    have "unat (?h - 1) = n - 1" using c(1) n(1) by (subst unat_minus_one) auto
    then have "uint (?h - 1) = int n - 1" using n(1) by (simp add: uint_nat)
    then show "sint (?h - 1) = int n - 1" using tip sint_small [of "?h - 1"] by simp
  qed
  then show ?thesis
    using n(1) ts bh g readable
    by (simp add: ApiBlock_def getBlock_def getBlockData_def atHeight_def c(2) indexErr_def reportedBlock_def readable_def)
qed

text \<open>
  C4. The endpoints reconcile: for every indexed block after the genesis block and every account, the
  balance that \<^verbatim>\<open>/account/balance\<close> reports at the height is the balance it reports at the
  height before plus the amounts of the operations that \<^verbatim>\<open>/block\<close> lists for the account, and
  the block names its parent. The hypotheses are that the stored operations are as the indexer makes
  them, amounts fit in 63 bits, and of the transactions of the block with one hash at most one has
  operations.
\<close>

theorem api_reconciles:
  assumes "serves_chain s g bs" and "length a = 8" and "baseHeight g < n" and "blkAt g bs n = Some b"
    and "list_all reportable (blockOps (snd b))" and "uniqueOps (ibTransactions (snd b))"
  shows "\<exists>blk before after w.
     ApiBlock s (atHeight n) = Ok blk \<and>
     AccountBalance s (Some (addressText a)) (atHeight (n - 1)) [] = Ok before \<and> arValue before = formatUint w \<and>
     AccountBalance s (Some (addressText a)) (atHeight n) [] = Ok after \<and>
     arValue after = formatUint (w + of_int (reportedBlock (addressText a) blk)) \<and>
     rbParent blk = \<lparr>biHash = hexEncode (fst (the (blkAt g bs (n - 1)))), biIndex = int n - 1\<rparr>"
proof -
  have n: "baseHeight g \<le> n - 1" "n - 1 \<le> tipHeight g bs" "baseHeight g \<le> n" "n \<le> tipHeight g bs" "Suc (n - 1) = n"
    using assms(3,4) by (auto simp: blkAt_def split: if_splits)
  from ApiBlock_height [OF assms] obtain blk where blk: "ApiBlock s (atHeight n) = Ok blk"
      "of_int (reportedBlock (addressText a) blk) = blockDiff a (snd b)"
      "rbParent blk = \<lparr>biHash = hexEncode (fst (the (blkAt g bs (n - 1)))), biIndex = int n - 1\<rparr>" by blast
  have "balanceAt g bs a (Suc (n - 1)) = balanceAt g bs a (n - 1) + diffAt g bs a (Suc (n - 1))"
    by (simp add: balanceAt_def)
  then have "balanceAt g bs a n = balanceAt g bs a (n - 1) + blockDiff a (snd b)"
    unfolding n(5) by (simp add: diffAt_def assms(4))
  with blk AccountBalance_height [OF assms(1,2) n(1,2)] AccountBalance_height [OF assms(1,2) n(3,4)]
  show ?thesis by metis
qed

text \<open>A server over the sample store with one more block: two accounts are created and one receives 50.\<close>

definition apiStore :: "(bytes \<times> bytes) list Store" where
  "apiStore = fst (Index sampleEnv (\<lambda>m. m) sampleStore 6 [10] block1)"

definition sampleTexts :: texts where
  "sampleTexts = \<lparr>txQuote = id, txHexError = (\<lambda>_. ''hex''), txIndexError = (\<lambda>_. ''index''), txValue = (\<lambda>_. []), txCryptoError = (\<lambda>_. []), txIntError = (\<lambda>_. []), txType = (\<lambda>_. [])\<rparr>"

definition sampleNodes :: nodes where
  "sampleNodes =
     \<lparr>ndExecute = (\<lambda>_ _ _ _. Inl ''down''), ndAccount = (\<lambda>_ _. Inl ''down''),
      ndAccountAtHeight = (\<lambda>_ _ _. Inl ''down''), ndLatestBlockHeader = (\<lambda>_. Inl ''down'')\<rparr>"

definition sampleServer :: "(bytes \<times> bytes) list Server" where
  "sampleServer =
     \<lparr>svChain = sampleChain, svNodes = sampleNodes, svEnv = sampleEnv, svIndex = apiStore, svIndexer = sampleIndexer,
      svTexts = sampleTexts, svOffline = False, svFeeAddrs = [], svGenesis = Some sampleGenesis,
      svIndexedStateErr = None, svNetworks = [(''flow'', ''mainnet'')], svScriptGetBalances = [],
      svScriptGetBalancesBasic = [], svScriptGetFeeReceivers = [], svScriptGetProxyNonce = [],
      svScriptGetProxyPublicKey = [],
      svValidation = \<lparr>vaAccounts = 0, vaChecked = 0, vaErr = [], vaStatus = ''not_started''\<rparr>\<rparr>"

lemma sampleServer_serves: "serves_chain sampleServer sampleGenesis [([10], block1)]"
proof -
  have s: "bmHeight sampleGenesis + 1 = 6" by (simp add: sampleGenesis_def)
  have adm: "admissible sampleEnv sampleGenesis [] [10] block1" using sampleAppends_valid by simp
  then have "\<forall>a. length a = 8 \<longrightarrow>
      0 \<le> sint (balanceAt sampleGenesis [] a (tipHeight sampleGenesis []) + blockDiff a block1)"
    using covered_all [OF represents_chain [OF sampleStore_represents(1)]] by (simp add: admissible_def)
  with Index_represents [OF sampleStore_represents(1,2) range_order_id, of block1 "[10]"] adm sampleStore_represents(3)
  have "genesis apiStore = Some sampleGenesis" "\<exists>l. represents sampleEnv apiStore sampleGenesis l [([10], block1)]"
    unfolding s apiStore_def by (auto simp: admissible_def)
  then show ?thesis
    by (simp add: serves_chain_def sampleServer_def tipHeight_def baseHeight_def sampleGenesis_def)
qed

theorem api_reconciles_witness:
  "\<exists>blk before after w.
     ApiBlock sampleServer (atHeight 6) = Ok blk \<and>
     AccountBalance sampleServer (Some (addressText alice)) (atHeight 5) [] = Ok before \<and> arValue before = formatUint w \<and>
     AccountBalance sampleServer (Some (addressText alice)) (atHeight 6) [] = Ok after \<and>
     arValue after = formatUint (w + of_int (reportedBlock (addressText alice) blk)) \<and>
     rbParent blk = \<lparr>biHash = ''09'', biIndex = 5\<rparr>"
proof -
  have b: "blkAt sampleGenesis [([10], block1)] 6 = Some ([10], block1)"
    "blkAt sampleGenesis [([10], block1)] 5 = Some ([9], \<lparr>ibTimestamp = 1, ibTransactions = []\<rparr>)"
    by (simp_all add: blkAt_def tipHeight_def baseHeight_def sampleGenesis_def chainOf_def genesisBlk_def)
  have o: "list_all reportable (blockOps block1)" "uniqueOps (ibTransactions block1)" by code_simp+
  have g: "baseHeight sampleGenesis < 6" "length alice = 8" "hexDigit 0 = CHR ''0''" "hexDigit 9 = CHR ''9''"
    by (simp_all add: baseHeight_def sampleGenesis_def alice_def hexDigit_def)
  from api_reconciles [OF sampleServer_serves g(2,1) b(1)] o show ?thesis by (simp add: b(2) g(3,4))
qed

subsection \<open>The status of the validation\<close>

text \<open>What the validation loop does to the status, in the order in which it does it.\<close>

datatype checkEvent = Mismatch string | Progress int int | Success int

fun applyCheck :: "checkEvent \<Rightarrow> 'db Server \<Rightarrow> 'db Server" where
  "applyCheck (Mismatch msg) s = setIndexedStateErr msg s"
| "applyCheck (Progress accounts checked) s = setValidationProgress accounts checked s"
| "applyCheck (Success accounts) s = setValidationSuccess accounts s"

fun firstMismatch :: "checkEvent list \<Rightarrow> string option" where
  "firstMismatch [] = None"
| "firstMismatch (Mismatch msg # evs) = Some msg"
| "firstMismatch (_ # evs) = firstMismatch evs"

definition failedWith :: "'db Server \<Rightarrow> string \<Rightarrow> bool" where
  "failedWith s msg \<longleftrightarrow>
     svIndexedStateErr s = Some (wrapErrorf errInvalidIndexedState msg) \<and>
     vaStatus (svValidation s) = ''failure'' \<and> vaErr (svValidation s) = msg"

definition healthy :: "'db Server \<Rightarrow> bool" where
  "healthy s \<longleftrightarrow> svIndexedStateErr s = None \<and> vaStatus (svValidation s) \<noteq> ''failure''"

lemma failed_final: "failedWith s msg \<Longrightarrow> failedWith (fold applyCheck evs s) msg"
proof (induction evs arbitrary: s)
  case (Cons ev evs)
  have "failedWith (applyCheck ev s) msg"
    using Cons.prems
    by (cases ev) (auto simp: failedWith_def setIndexedStateErr_def setValidationProgress_def setValidationSuccess_def Let_def)
  with Cons.IH show ?case by simp
qed simp

lemma applyCheck_healthy:
  assumes "healthy s"
  shows "failedWith (setIndexedStateErr msg s) msg" "healthy (setValidationProgress n m s)" "healthy (setValidationSuccess n s)"
  using assms
  by (auto simp: healthy_def failedWith_def setIndexedStateErr_def setValidationProgress_def setValidationSuccess_def Let_def)

text \<open>
  C37. The first mismatch is final: whatever checks follow, in any order, the status stays a failure
  with the message of the first mismatch, and every guarded endpoint answers with exactly that error
  from then on; without a mismatch no endpoint is blocked.
\<close>

theorem first_mismatch_final:
  assumes "healthy s"
  shows "case firstMismatch evs of
     Some msg \<Rightarrow> failedWith (fold applyCheck evs s) msg \<and>
       guarded (fold applyCheck evs s) resp = Err (wrapErrorf errInvalidIndexedState msg)
   | None \<Rightarrow> healthy (fold applyCheck evs s) \<and> guarded (fold applyCheck evs s) resp = resp"
  using assms
proof (induction evs arbitrary: s)
  case Nil
  then show ?case by (simp add: healthy_def guarded_def getIndexedStateErr_def)
next
  case (Cons ev evs)
  show ?case
  proof (cases ev)
    case (Mismatch msg)
    have "failedWith (fold applyCheck (ev # evs) s) msg"
      using failed_final [OF applyCheck_healthy(1) [OF Cons.prems], of evs msg] Mismatch by simp
    then show ?thesis using Mismatch by (simp add: failedWith_def guarded_def getIndexedStateErr_def)
  next
    case (Progress n m)
    from Cons.IH [OF applyCheck_healthy(2) [OF Cons.prems], of n m] show ?thesis by (simp add: Progress split: option.splits)
  next
    case (Success n)
    from Cons.IH [OF applyCheck_healthy(3) [OF Cons.prems], of n] show ?thesis by (simp add: Success split: option.splits)
  qed
qed

theorem first_mismatch_final_witness:
  "failedWith (fold applyCheck [Progress 2 1, Mismatch ''m'', Success 2] sampleServer) ''m'' \<and>
   guarded (fold applyCheck [Progress 2 1, Mismatch ''m'', Success 2] sampleServer) (Mempool sampleServer) =
     Err (wrapErrorf errInvalidIndexedState ''m'')"
proof -
  have "healthy sampleServer" by (simp add: healthy_def sampleServer_def)
  from first_mismatch_final [OF this, of "[Progress 2 1, Mismatch ''m'', Success 2]" "Mempool sampleServer"]
  show ?thesis by simp
qed

subsection \<open>Offline\<close>

text \<open>
  C38. \<^verbatim>\<open>/account/balance\<close> reads the index without an offline check: on an offline server
  over an empty store, where the genesis block is nil, a request with a block index for a valid
  address panics with a nil dereference. \<^verbatim>\<open>/block\<close>, \<^verbatim>\<open>/block/transaction\<close>, \<^verbatim>\<open>/network/status\<close> and
  \<^verbatim>\<open>/mempool\<close> of the same server answer that they are not available offline. (\<^verbatim>\<open>/network/list\<close>, \<^verbatim>\<open>/network/options\<close>
  and some methods of \<^verbatim>\<open>/call\<close> have no such check either and do not need one.)
\<close>

theorem offline_balance_panics:
  assumes "svOffline s" and "svGenesis s = None" and "length a = 8"
  shows "AccountBalance s (Some (addressText a)) (atHeight n) [] = Panic ''nil pointer dereference'' \<and>
     ApiBlock s pid = Err errOfflineMode \<and> BlockTransaction s bid tid = Err errOfflineMode \<and>
     NetworkStatus s = Err errOfflineMode \<and> Mempool s = Err errOfflineMode"
  using assms
  by (simp add: AccountBalance_def atHeight_def getAccount_addressText genesisOf_def ApiBlock_def BlockTransaction_def
      NetworkStatus_def Mempool_def)

theorem offline_balance_panics_witness:
  "AccountBalance (sampleServer\<lparr>svOffline := True, svGenesis := None\<rparr>) (Some (addressText bob)) (atHeight 7) [] =
     Panic ''nil pointer dereference''"
  using offline_balance_panics [of "sampleServer\<lparr>svOffline := True, svGenesis := None\<rparr>" bob 7] by (simp add: bob_def)

end
