(* ===== verification/ApiCall.thy ===== *)
theory ApiCall
  imports Api
begin

section \<open>Package api: calls and validation\<close>

text \<open>
  The \<^verbatim>\<open>/call\<close> methods of \<^verbatim>\<open>api/call_service.go\<close> and the background checks of
  \<^verbatim>\<open>api/validate.go\<close>. The loop that validates balances runs beside the indexer: what it sees of
  the store and of the indexer is a function of the time. One pass over the accounts is modelled, with
  fuel for its waits and retries; the code repeats passes until the context is cancelled. The address
  check of flow-go is an argument.
\<close>

record callResponse =
  crIdempotent :: bool
  crResult :: "(string \<times> json) list"

definition getAccountParam :: "'db Server \<Rightarrow> (string \<times> json) list \<Rightarrow> bytes response" where
  "getAccountParam s params =
     (case map_of params ''account'' of
        None \<Rightarrow> Err (wrapErrorf errInvalidAccountAddress ''account param is missing'')
      | Some (JString raw) \<Rightarrow> getAccount s raw
      | Some param \<Rightarrow> Err (wrapErrorf errInvalidAccountAddress
          (''account param is not a string: '' @ txValue (svTexts s) param)))"

subsection \<open>On-chain balances\<close>

record onchainData =
  ocDefaultBalance :: u64
  ocIsProxy :: bool
  ocProxyBalance :: u64

text \<open>A field of the result that is missing or of another type; the text names its Go type.\<close>

definition fieldErr :: "texts \<Rightarrow> string \<Rightarrow> string \<Rightarrow> string \<Rightarrow> scriptValue option \<Rightarrow> xerror" where
  "fieldErr T which scriptName typ v =
     wrapErrorf errInternal
       (''expected '' @ which @ '' field of the '' @ scriptName @ '' result to be '' @ typ @ '': got '' @ txType T v)"

definition onchainFields :: "texts \<Rightarrow> string \<Rightarrow> (string \<times> scriptValue) list \<Rightarrow> onchainData response" where
  "onchainFields T scriptName flds =
     (let count = length (remdups (map fst flds)) in
      if count \<noteq> 3 then
        Err (wrapErrorf errInternal (''expected 3 fields for the '' @ scriptName @ '' result: got '' @ formatNat count))
      else (case map_of flds ''default_balance'' of
              Some (SVUFix64 defaultBalance) \<Rightarrow>
                (case map_of flds ''is_proxy'' of
                   Some (SVBool isPrx) \<Rightarrow>
                     (case map_of flds ''proxy_balance'' of
                        Some (SVUFix64 proxyBalance) \<Rightarrow>
                          Ok \<lparr>ocDefaultBalance = defaultBalance, ocIsProxy = isPrx, ocProxyBalance = proxyBalance\<rparr>
                      | v \<Rightarrow> Err (fieldErr T ''third'' scriptName ''uint64'' v))
                 | v \<Rightarrow> Err (fieldErr T ''second'' scriptName ''bool'' v))
            | v \<Rightarrow> Err (fieldErr T ''first'' scriptName ''uint64'' v)))"

definition getOnchainData :: "'db Server \<Rightarrow> nat \<Rightarrow> bytes \<Rightarrow> bytes \<Rightarrow> onchainData response" where
  "getOnchainData s n addr block =
     (let proxy = IsProxyContractDeployed (svChain s);
          script = (if proxy then svScriptGetBalances s else svScriptGetBalancesBasic s);
          scriptName = (if proxy then ''get_balances'' else ''get_balances_basic'')
      in case ndExecute (svNodes s) n block script [SVAddress (BytesToAddress addr)] of
           Inl err \<Rightarrow> Err (handleExecutionErr err (''execute '' @ scriptName))
         | Inr (SVStruct flds) \<Rightarrow> onchainFields (svTexts s) scriptName flds
         | Inr _ \<Rightarrow> Err (wrapErrorf errInternal (''failed to convert '' @ scriptName @ '' result to array'')))"

definition callBlockHash :: "'db Server \<Rightarrow> (string \<times> json) list \<Rightarrow> (bytes \<times> bool \<times> nat) response" where
  "callBlockHash s params =
     (case map_of params ''block_hash'' of
        Some (JString raw) \<Rightarrow>
          (case hexDecode raw of
             None \<Rightarrow> Err (wrapErrorf errInvalidBlockHash (''invalid block_hash value: '' @ txHexError (svTexts s) raw))
           | Some hash \<Rightarrow> Ok (hash, True, 0))
      | Some param \<Rightarrow> Err (wrapErrorf errInvalidBlockHash
          (''block_hash param is not a string: '' @ txValue (svTexts s) param))
      | None \<Rightarrow>
          (case ndLatestBlockHeader (svNodes s) 0 of
             Inl err \<Rightarrow> Err (wrapErr errInternal err)
           | Inr hdr \<Rightarrow> Ok (bhId hdr, False, 1)))"

definition accountBalances :: "'db Server \<Rightarrow> (string \<times> json) list \<Rightarrow> callResponse response" where
  "accountBalances s params =
     (if svOffline s then Err errOfflineMode
      else
        andThen (getAccountParam s params) (\<lambda>addr.
        andThen (callBlockHash s params) (\<lambda>(hash, idempotent, n).
        andThen (getOnchainData s n addr hash) (\<lambda>onchain.
        Ok \<lparr>crIdempotent = idempotent,
            crResult =
              [(''default_balance'', JString (formatUint (ocDefaultBalance onchain))),
               (''is_proxy'', JBool (ocIsProxy onchain)),
               (''proxy_balance'', JString (formatUint (ocProxyBalance onchain)))]\<rparr>))))"

subsection \<open>Public keys\<close>

definition accountKeyJson :: "u32 \<Rightarrow> u32 \<Rightarrow> bytes \<Rightarrow> u32 \<Rightarrow> u32 \<Rightarrow> json" where
  "accountKeyJson hashAlgo idx pub seq signAlgo =
     JObject
       [(''hash_algorithm'', JInt (uint hashAlgo)), (''key_index'', JInt (uint idx)),
        (''public_key'', JString (hexEncode pub)), (''sequence_number'', JInt (uint seq)),
        (''signature_algorithm'', JInt (uint signAlgo)), (''weight'', JInt 0)]"

text \<open>Only secp256k1 keys are converted; the other formats are passed along.\<close>

fun publicKeys :: "texts \<Rightarrow> ('k, 'sc) secp256k1 \<Rightarrow> acctKey list \<Rightarrow> json list response" where
  "publicKeys T S [] = Ok []"
| "publicKeys T S (key # keys) =
     (if akRevoked key then publicKeys T S keys
      else
        andThen (if akSignAlgo key = 3
                 then mapErr (\<lambda>e. wrapErr errInternal (txCryptoError T e)) (ConvertFlowPublicKey S (akPublicKey key))
                 else Ok (akPublicKey key)) (\<lambda>pub.
        andThen (publicKeys T S keys) (\<lambda>rest.
        Ok (accountKeyJson (akHashAlgo key) (akIndex key) pub (akSequenceNumber key) (akSignAlgo key) # rest))))"

definition proxyKeys :: "'db Server \<Rightarrow> ('k, 'sc) secp256k1 \<Rightarrow> bytes \<Rightarrow> json list \<Rightarrow> json list response" where
  "proxyKeys s S addr keys =
     (case ndLatestBlockHeader (svNodes s) 1 of
        Inl err \<Rightarrow> Err (wrapErr errInternal err)
      | Inr hdr \<Rightarrow>
          (case ndExecute (svNodes s) 2 (bhId hdr) (svScriptGetProxyPublicKey s) [SVAddress (BytesToAddress addr)] of
             Inl err \<Rightarrow> Err (handleExecutionErr err ''execute get_proxy_public_key'')
           | Inr (SVString rawKey) \<Rightarrow>
               if rawKey = [] then Ok keys
               else if length keys > 0 then
                 Err (wrapErrorf errInternal
                   (''found proxy key and '' @ formatNat (length keys) @ '' unexpected account keys''))
               else (case hexDecode rawKey of
                       None \<Rightarrow> Err (wrapErrorf errInternal
                         (''failed to hex-decode the get_proxy_public_key result: '' @ txHexError (svTexts s) rawKey))
                     | Some raw \<Rightarrow>
                         andThen (mapErr (\<lambda>e. wrapErr errInternal (txCryptoError (svTexts s) e)) (ConvertFlowPublicKey S raw)) (\<lambda>pub.
                         Ok (keys @ [accountKeyJson 0 0 pub 0 0])))
           | Inr _ \<Rightarrow> Err (wrapErrorf errInternal ''failed to convert get_proxy_public_key result to string'')))"

definition accountPublicKeys :: "'db Server \<Rightarrow> ('k, 'sc) secp256k1 \<Rightarrow> (string \<times> json) list \<Rightarrow> callResponse response" where
  "accountPublicKeys s S params =
     (if svOffline s then Err errOfflineMode
      else
        andThen (getAccountParam s params) (\<lambda>addr.
        case ndAccount (svNodes s) 0 addr of
          Inl err \<Rightarrow> Err (wrapErr errInternal err)
        | Inr acctKeys \<Rightarrow>
            andThen (publicKeys (svTexts s) S acctKeys) (\<lambda>keys.
            andThen (if IsProxyContractDeployed (svChain s) then proxyKeys s S addr keys else Ok keys) (\<lambda>keys1.
            Ok \<lparr>crIdempotent = False, crResult = [(''keys'', JArray keys1)]\<rparr>))))"

subsection \<open>The other calls\<close>

definition balanceValidationStatus :: "'db Server \<Rightarrow> callResponse response" where
  "balanceValidationStatus s =
     (let v = getValidationStatus s; status = (''status'', JString (vaStatus v)) in
      if vaStatus v = ''failure'' then Ok \<lparr>crIdempotent = False, crResult = [(''error'', JString (vaErr v)), status]\<rparr>
      else if vaStatus v = ''in_progress'' then
        Ok \<lparr>crIdempotent = False,
            crResult = [(''accounts'', JInt (vaAccounts v)), (''checked'', JInt (vaChecked v)), status]\<rparr>
      else if vaStatus v = ''not_started'' then Ok \<lparr>crIdempotent = False, crResult = [status]\<rparr>
      else if vaStatus v = ''success'' then
        Ok \<lparr>crIdempotent = False, crResult = [(''accounts'', JInt (vaAccounts v)), status]\<rparr>
      else Fatal ''Unsupported validation status'')"

definition echo :: "(string \<times> json) list \<Rightarrow> callResponse response" where
  "echo params = Ok \<lparr>crIdempotent = True, crResult = params\<rparr>"

definition latestBlock :: "'db Server \<Rightarrow> callResponse response" where
  "latestBlock s =
     (case ndLatestBlockHeader (svNodes s) 0 of
        Inl err \<Rightarrow> Err (wrapErr errInternal err)
      | Inr hdr \<Rightarrow>
          Ok \<lparr>crIdempotent = False,
              crResult =
                [(''block_hash'', JString (hexEncode (bhId hdr))),
                 (''block_height'', JString (formatUint (bhHeight hdr))),
                 (''block_timestamp'', JString (formatInt (sint (unixNano (bhTimestamp hdr)))))]\<rparr>)"

definition accountInfoJson :: "AccountInfo \<Rightarrow> json" where
  "accountInfoJson info =
     JObject ((''changes'', JArray (map (\<lambda>(h, b). JArray [JInt (uint h), JInt (uint b)]) (aiChanges info))) #
       (if aiProxy info then [(''proxy'', JBool True)] else []))"

definition listAccounts :: "'db Server \<Rightarrow> callResponse response" where
  "listAccounts s =
     andThen (mapErr (\<lambda>e. wrapErr errInternal (txIndexError (svTexts s) e)) (AccountsInfo (svEnv s) (svIndex s))) (\<lambda>accts.
     Ok \<lparr>crIdempotent = False,
         crResult = [(''accounts'', JObject (map (\<lambda>(a, info). (a, accountInfoJson info)) accts))]\<rparr>)"

definition invalidAddress :: "string \<Rightarrow> callResponse response" where
  "invalidAddress msg = Ok \<lparr>crIdempotent = False, crResult = [(''error'', JString msg), (''valid'', JBool False)]\<rparr>"

text \<open>The argument \<open>isValid\<close> is flow-go's check of an address on a chain.\<close>

definition verifyAddress ::
  "'db Server \<Rightarrow> (string \<Rightarrow> bytes \<Rightarrow> bool) \<Rightarrow> (string \<times> json) list \<Rightarrow> callResponse response" where
  "verifyAddress s isValid params =
     (if svOffline s then Err errOfflineMode
      else (case getAccountParam s params of
              Err _ \<Rightarrow> invalidAddress ''invalid Flow address format''
            | Panic p \<Rightarrow> Panic p
            | Fatal m \<Rightarrow> Fatal m
            | Ok acct \<Rightarrow>
                if \<not> isValid (''flow-'' @ chNetwork (svChain s)) acct
                then invalidAddress (''invalid address for Flow '' @ chNetwork (svChain s))
                else (case ndAccount (svNodes s) 0 acct of
                        Inl err \<Rightarrow>
                          if contains err ''account not found''
                          then invalidAddress (''account not found on Flow '' @ chNetwork (svChain s))
                          else Err (wrapErr errInternal err)
                      | Inr _ \<Rightarrow> Ok \<lparr>crIdempotent = False, crResult = [(''valid'', JBool True)]\<rparr>)))"

definition Call ::
  "'db Server \<Rightarrow> ('k, 'sc) secp256k1 \<Rightarrow> (string \<Rightarrow> bytes \<Rightarrow> bool) \<Rightarrow> string \<Rightarrow> (string \<times> json) list \<Rightarrow> callResponse response" where
  "Call s S isValid meth params =
     (if meth = ''account_balances'' then accountBalances s params
      else if meth = ''account_public_keys'' then accountPublicKeys s S params
      else if meth = ''balance_validation_status'' then balanceValidationStatus s
      else if meth = ''echo'' then echo params
      else if meth = ''latest_block'' then latestBlock s
      else if meth = ''list_accounts'' then listAccounts s
      else if meth = ''verify_address'' then verifyAddress s isValid params
      else Err errNotImplemented)"

definition wrappedCall ::
  "'db Server \<Rightarrow> ('k, 'sc) secp256k1 \<Rightarrow> (string \<Rightarrow> bytes \<Rightarrow> bool) \<Rightarrow> string \<Rightarrow> (string \<times> json) list \<Rightarrow> callResponse response" where
  "wrappedCall s S isValid meth params = Call s S isValid meth params"

subsection \<open>Validation of the fee receivers\<close>

text \<open>The addresses of the result that are not configured; \<open>None\<close> for an element that is no address.\<close>

fun missingReceivers :: "'db Server \<Rightarrow> scriptValue list \<Rightarrow> bytes list option" where
  "missingReceivers s [] = Some []"
| "missingReceivers s (SVAddress addr # vals) =
     map_option (\<lambda>missing. if mget False (svFeeAddrs s) addr then missing else addr # missing) (missingReceivers s vals)"
| "missingReceivers s (_ # vals) = None"

text \<open>
  Up to five attempts. The functions of the time tell whether the context is cancelled and what the
  nodes answer; the value says whether the receivers were found to be configured.
\<close>

fun feeReceiverAttempts :: "nat \<Rightarrow> (nat \<Rightarrow> bool) \<Rightarrow> 'db Server \<Rightarrow> nat \<Rightarrow> bool response" where
  "feeReceiverAttempts 0 cancelled s t = Ok False"
| "feeReceiverAttempts (Suc n) cancelled s t =
     (if cancelled t then Ok False
      else (case ndLatestBlockHeader (svNodes s) t of
              Inl err \<Rightarrow> feeReceiverAttempts n cancelled s (Suc t)
            | Inr hdr \<Rightarrow>
                (case ndExecute (svNodes s) (Suc t) (bhId hdr) (svScriptGetFeeReceivers s) [] of
                   Inl err \<Rightarrow> feeReceiverAttempts n cancelled s (Suc (Suc t))
                 | Inr (SVArray vals) \<Rightarrow>
                     (case missingReceivers s vals of
                        None \<Rightarrow> Ok False
                      | Some missing \<Rightarrow>
                          if length missing > 0
                          then Fatal ''On-chain fee receiver account(s) are missing from the configured fee addresses''
                          else Ok True)
                 | Inr _ \<Rightarrow> Ok False)))"

definition validateFeeReceivers :: "(nat \<Rightarrow> bool) \<Rightarrow> 'db Server \<Rightarrow> bool response" where
  "validateFeeReceivers cancelled s = (if svOffline s then Ok False else feeReceiverAttempts 5 cancelled s 0)"

subsection \<open>Validation of the balances\<close>

record 'db beside =
  bsDone :: "nat \<Rightarrow> bool"
  bsSynced :: "nat \<Rightarrow> bool"
  bsStore :: "nat \<Rightarrow> 'db Store"

datatype vexit = VStopped | VOutOfFuel

fun waitSynced :: "nat \<Rightarrow> 'db beside \<Rightarrow> nat \<Rightarrow> (vexit, nat) outcome" where
  "waitSynced 0 B t = Err VOutOfFuel"
| "waitSynced (Suc n) B t = (if bsSynced B t then Ok t else waitSynced n B (Suc t))"

definition atBlock :: "bytes \<Rightarrow> BlockMeta \<Rightarrow> string" where
  "atBlock acct l = hexEncode acct @ '' at block '' @ hexEncode (bmHash l) @ '' ('' @ formatUint (bmHeight l) @ '')''"

definition boolText :: "bool \<Rightarrow> string" where
  "boolText b = (if b then ''true'' else ''false'')"

text \<open>The comparison of an account; the number counts its failures.\<close>

definition compareAccount ::
  "bytes \<Rightarrow> bool \<Rightarrow> BlockMeta \<Rightarrow> u64 \<Rightarrow> onchainData \<Rightarrow> 'db Server \<times> nat \<Rightarrow> 'db Server \<times> nat" where
  "compareAccount acct isPrx l indexed onchain sf =
     (let sf1 = (if isPrx \<noteq> ocIsProxy onchain
                 then (setIndexedStateErr (''Mismatching proxy account status for account '' @ atBlock acct l @
                        '': indexed '' @ boolText isPrx @ '', got on-chain '' @ boolText (ocIsProxy onchain)) (fst sf),
                       Suc (snd sf))
                 else sf);
          bad = (\<lambda>kind got. (setIndexedStateErr (''Mismatching '' @ kind @ '' found for account '' @ atBlock acct l @
                   '': indexed '' @ formatUint indexed @ '', got on-chain '' @ formatUint got) (fst sf1), Suc (snd sf1)))
      in if ocIsProxy onchain then
           (if indexed \<noteq> ocProxyBalance onchain then bad ''proxy balance'' (ocProxyBalance onchain) else sf1)
         else if indexed \<noteq> ocDefaultBalance onchain then bad ''balance'' (ocDefaultBalance onchain) else sf1)"

text \<open>The retry loop of one account.\<close>

fun checkAccount ::
  "nat \<Rightarrow> 'db beside \<Rightarrow> bytes \<Rightarrow> bool \<Rightarrow> 'db Server \<times> nat \<Rightarrow> nat \<Rightarrow> (vexit, ('db Server \<times> nat) \<times> nat) outcome" where
  "checkAccount 0 B acct isPrx sf t = Err VOutOfFuel"
| "checkAccount (Suc n) B acct isPrx sf t =
     (if bsDone B t then Err VStopped
      else
        andThen (waitSynced n B t) (\<lambda>t1.
        case snd (Latest (svEnv (fst sf)) (bsStore B t1)) of
          Ok (Some l) \<Rightarrow>
            (case BalanceByHash (svEnv (fst sf)) (bsStore B t1) acct (bmHash l) of
               Ok v \<Rightarrow>
                 (case getOnchainData (fst sf) t1 acct (bmHash l) of
                    Ok onchain \<Rightarrow> Ok (compareAccount acct isPrx l (bdBalance v) onchain sf, Suc t1)
                  | Err e \<Rightarrow> checkAccount n B acct isPrx sf (Suc t1)
                  | Panic p \<Rightarrow> Panic p
                  | Fatal m \<Rightarrow> Fatal m)
             | Err e \<Rightarrow> checkAccount n B acct isPrx sf (Suc t1)
             | Panic p \<Rightarrow> Panic p
             | Fatal m \<Rightarrow> Fatal m)
        | Panic p \<Rightarrow> Panic p
        | Fatal m \<Rightarrow> Fatal m
        | _ \<Rightarrow> Panic ''nil pointer dereference''))"

definition skipsAccount :: "'db Server \<Rightarrow> bool \<Rightarrow> bool" where
  "skipsAccount s isPrx \<longleftrightarrow> isPrx \<and> \<not> IsProxyContractDeployed (svChain s)"

fun checkAccounts ::
  "nat \<Rightarrow> 'db beside \<Rightarrow> nat \<Rightarrow> (bytes \<times> bool) list \<Rightarrow> nat \<Rightarrow> 'db Server \<times> nat \<Rightarrow> nat
     \<Rightarrow> (vexit, ('db Server \<times> nat) \<times> nat) outcome" where
  "checkAccounts F B cnt [] checked sf t = Ok (sf, t)"
| "checkAccounts F B cnt ((acct, isPrx) # rest) checked sf t =
     (if skipsAccount (fst sf) isPrx then checkAccounts F B cnt rest checked sf t
      else
        andThen (checkAccount F B acct isPrx sf t) (\<lambda>(sf1, t1).
        checkAccounts F B cnt rest (Suc checked)
          (if snd sf1 = 0 then (setValidationProgress (int cnt) (int (Suc checked)) (fst sf1), 0) else sf1) t1))"

text \<open>One pass: the accounts in the order of Go's iteration.\<close>

definition validatePass ::
  "nat \<Rightarrow> ((bytes \<times> bool) list \<Rightarrow> (bytes \<times> bool) list) \<Rightarrow> 'db beside \<Rightarrow> 'db Server \<Rightarrow> nat
     \<Rightarrow> (vexit, ('db Server \<times> nat) \<times> nat) outcome" where
  "validatePass F ord B s t =
     (case Accounts (svEnv s) (bsStore B t) of
        Err e \<Rightarrow> Ok ((s, 0), t)
      | Panic p \<Rightarrow> Panic p
      | Fatal m \<Rightarrow> Fatal m
      | Ok accts \<Rightarrow>
          andThen (checkAccounts F B (length accts) (ord accts) 0 (s, 0) t) (\<lambda>(sf, t1).
          Ok (if length accts > 0 \<and> snd sf = 0 then (setValidationSuccess (int (length accts)) (fst sf), 0) else sf, t1)))"

end
