(* ===== verification/ValidateProps.thy ===== *)
theory ValidateProps
  imports ApiCall ApiProps
begin

section \<open>Properties of the balance validation\<close>

text \<open>A pass over the accounts that counts no failure has compared every account, and all agree.\<close>

text \<open>What it means that an account was compared at some time and agreed with the chain.\<close>

definition agrees :: "'db Server \<Rightarrow> 'db beside \<Rightarrow> bytes \<Rightarrow> bool \<Rightarrow> bool" where
  "agrees s B acct prx \<longleftrightarrow>
     (\<exists>t l v onchain. bsSynced B t \<and> snd (Latest (svEnv s) (bsStore B t)) = Ok (Some l) \<and>
        BalanceByHash (svEnv s) (bsStore B t) acct (bmHash l) = Ok v \<and>
        getOnchainData s t acct (bmHash l) = Ok onchain \<and> prx = ocIsProxy onchain \<and>
        bdBalance v = (if prx then ocProxyBalance onchain else ocDefaultBalance onchain))"

text \<open>The setters of the status change nothing that the checks read.\<close>

definition sameServer :: "'db Server \<Rightarrow> 'db Server \<Rightarrow> bool" where
  "sameServer s s' \<longleftrightarrow>
     svChain s' = svChain s \<and> svNodes s' = svNodes s \<and> svEnv s' = svEnv s \<and> svTexts s' = svTexts s \<and>
     svScriptGetBalances s' = svScriptGetBalances s \<and> svScriptGetBalancesBasic s' = svScriptGetBalancesBasic s"

lemma sameServer_setters [simp]:
  "sameServer s (setIndexedStateErr msg s') = sameServer s s'"
  "sameServer s (setValidationProgress n m s') = sameServer s s'"
  "sameServer s (setValidationSuccess n s') = sameServer s s'"
  by (auto simp: sameServer_def setIndexedStateErr_def setValidationProgress_def setValidationSuccess_def Let_def
      split: option.splits)

lemma sameServer_getOnchainData: "sameServer s s' \<Longrightarrow> getOnchainData s' n a b = getOnchainData s n a b"
  by (simp add: sameServer_def getOnchainData_def Let_def cong: sum.case_cong scriptValue.case_cong)

text \<open>A counted failure is a recorded one, and without a failure the status is as healthy as it was.\<close>

definition tracked :: "'db Server \<times> nat \<Rightarrow> bool" where
  "tracked sf \<longleftrightarrow> (if snd sf = 0 then healthy (fst sf) else \<exists>msg. failedWith (fst sf) msg)"

lemma setIndexedStateErr_tracked:
  assumes "tracked sf"
  shows "\<exists>msg'. failedWith (setIndexedStateErr msg (fst sf)) msg'"
proof (cases "snd sf = 0")
  case True
  with assms applyCheck_healthy(1) show ?thesis by (auto simp: tracked_def)
next
  case False
  with assms obtain m where "failedWith (fst sf) m" by (auto simp: tracked_def)
  from failed_final [OF this, of "[Mismatch msg]"] show ?thesis by auto
qed

lemma compareAccount_tracked:
  assumes "tracked sf"
  shows "tracked (compareAccount acct prx l bal onchain sf)"
    and "sameServer s (fst sf) \<Longrightarrow> sameServer s (fst (compareAccount acct prx l bal onchain sf))"
    and "snd (compareAccount acct prx l bal onchain sf) = 0 \<Longrightarrow>
      snd sf = 0 \<and> prx = ocIsProxy onchain \<and> bal = (if prx then ocProxyBalance onchain else ocDefaultBalance onchain)"
proof -
  obtain s0 k where sf: "sf = (s0, k)" by force
  have step: "tracked (setIndexedStateErr msg s1, Suc n)" if "tracked (s1, n)" for msg s1 n
    using setIndexedStateErr_tracked [OF that] by (simp add: tracked_def)
  show "tracked (compareAccount acct prx l bal onchain sf)"
    using assms unfolding sf by (simp add: compareAccount_def Let_def step)
  show "sameServer s (fst sf) \<Longrightarrow> sameServer s (fst (compareAccount acct prx l bal onchain sf))"
    by (auto simp: compareAccount_def Let_def)
  show "snd (compareAccount acct prx l bal onchain sf) = 0 \<Longrightarrow>
      snd sf = 0 \<and> prx = ocIsProxy onchain \<and> bal = (if prx then ocProxyBalance onchain else ocDefaultBalance onchain)"
    by (auto simp: compareAccount_def Let_def split: if_splits)
qed

lemma waitSynced_Ok: "waitSynced n B t = Ok t1 \<Longrightarrow> bsSynced B t1"
  by (induction n arbitrary: t) (auto split: if_splits)

lemma checkAccount_ok:
  "checkAccount n B acct prx sf t = Ok (sf', t') \<Longrightarrow> tracked sf \<Longrightarrow> sameServer s (fst sf) \<Longrightarrow>
   tracked sf' \<and> sameServer s (fst sf') \<and> (snd sf' = 0 \<longrightarrow> snd sf = 0 \<and> agrees s B acct prx)"
proof (induction n arbitrary: t)
  case (Suc n)
  have env: "svEnv (fst sf) = svEnv s" using Suc.prems(3) by (simp add: sameServer_def)
  note env = env sameServer_getOnchainData [OF Suc.prems(3)]
  have go: "\<not> bsDone B t" using Suc.prems(1) by (cases "bsDone B t") simp_all
  obtain t1 where w: "waitSynced n B t = Ok t1" using Suc.prems(1) go by (cases "waitSynced n B t") simp_all
  obtain l where "snd (Latest (svEnv s) (bsStore B t1)) = Ok (Some l)"
  proof (cases "snd (Latest (svEnv s) (bsStore B t1))")
    case (Ok o')
    with Suc.prems(1) go w that show ?thesis by (cases o') (simp_all add: env)
  qed (use Suc.prems(1) go w in \<open>simp_all add: env\<close>)
  note t1 = w this
  show ?case
  proof (cases "\<exists>v onchain. BalanceByHash (svEnv s) (bsStore B t1) acct (bmHash l) = Ok v \<and> getOnchainData s t1 acct (bmHash l) = Ok onchain")
    case True
    then obtain v onchain where v: "BalanceByHash (svEnv s) (bsStore B t1) acct (bmHash l) = Ok v"
        "getOnchainData s t1 acct (bmHash l) = Ok onchain" by blast
    with Suc.prems(1) go t1 have sf': "sf' = compareAccount acct prx l (bdBalance v) onchain sf"
      by (simp add: env)
    note c = compareAccount_tracked [OF Suc.prems(2), where acct = acct and prx = prx and l = l and bal = "bdBalance v" and
        onchain = onchain]
    have "agrees s B acct prx" if "snd sf' = 0"
      using c(3) that waitSynced_Ok [OF t1(1)] t1(2) v unfolding sf' agrees_def by blast
    with c Suc.prems(3) show ?thesis unfolding sf' by blast
  next
    case False
    then have "checkAccount n B acct prx sf (Suc t1) = Ok (sf', t')"
      using Suc.prems(1) go t1
      by (cases "BalanceByHash (svEnv s) (bsStore B t1) acct (bmHash l)";
          cases "getOnchainData s t1 acct (bmHash l)") (simp_all add: env)
    from Suc.IH [OF this Suc.prems(2,3)] show ?thesis .
  qed
qed simp

lemma checkAccounts_ok:
  "checkAccounts F B cnt accts done1 sf t = Ok (sf', t') \<Longrightarrow> tracked sf \<Longrightarrow> sameServer s (fst sf) \<Longrightarrow>
   tracked sf' \<and> sameServer s (fst sf') \<and>
   (snd sf' = 0 \<longrightarrow> snd sf = 0 \<and> (\<forall>(acct, prx) \<in> set accts. \<not> skipsAccount s prx \<longrightarrow> agrees s B acct prx))"
proof (induction accts arbitrary: done1 sf t)
  case (Cons x accts)
  obtain acct prx where x: "x = (acct, prx)" by force
  have sk: "skipsAccount (fst sf) prx = skipsAccount s prx"
    using Cons.prems(3) by (simp add: skipsAccount_def sameServer_def)
  show ?case
  proof (cases "skipsAccount s prx")
    case True
    with Cons.prems(1) x sk have "checkAccounts F B cnt accts done1 sf t = Ok (sf', t')" by simp
    from Cons.IH [OF this Cons.prems(2,3)] True x show ?thesis by auto
  next
    case False
    with Cons.prems(1) x sk obtain sf1 t1 where one: "checkAccount F B acct prx sf t = Ok (sf1, t1)"
        and rest: "checkAccounts F B cnt accts (Suc done1)
          (if snd sf1 = 0 then (setValidationProgress (int cnt) (int (Suc done1)) (fst sf1), 0) else sf1) t1 = Ok (sf', t')"
      by auto
    note c = checkAccount_ok [OF one Cons.prems(2,3)]
    have "tracked (if snd sf1 = 0 then (setValidationProgress (int cnt) (int (Suc done1)) (fst sf1), 0) else sf1)"
      using c applyCheck_healthy(2) by (auto simp: tracked_def)
    moreover have "sameServer s (fst (if snd sf1 = 0 then (setValidationProgress (int cnt) (int (Suc done1)) (fst sf1), 0) else sf1))"
      using c by simp
    ultimately show ?thesis using Cons.IH [OF rest] c x by (auto split: if_splits)
  qed
qed auto

text \<open>
  C17. A pass of the balance validation that reports success has checked every account: for each
  account of the index, except proxy accounts when no proxy contract is configured, there was a moment
  when the indexer was synced and the indexed balance at the latest block and the proxy status were
  those on the chain. A pass that counts a failure leaves the server in the failed state, in which
  the guarded endpoints refuse to answer. (The comment above \<^verbatim>\<open>validateBalances\<close> says that the process exits
  with a fatal error on a mismatch; the code records the failure and goes on.)
\<close>

theorem validation_pass_sound:
  assumes "validatePass F ord B s t = Ok ((s', failed), t')" and "healthy s" and "range_order ord"
    and "Accounts (svEnv s) (bsStore B t) = Ok accts"
  shows "(failed = 0 \<longrightarrow> healthy s' \<and>
            (\<forall>(acct, prx) \<in> set accts. skipsAccount s prx \<or> agrees s B acct prx) \<and>
            (accts \<noteq> [] \<longrightarrow> vaStatus (svValidation s') = ''success'')) \<and>
         (failed \<noteq> 0 \<longrightarrow> (\<exists>msg. failedWith s' msg \<and> guarded s' resp = Err (wrapErrorf errInvalidIndexedState msg)))"
proof -
  from assms(1,4) obtain sf where run: "checkAccounts F B (length accts) (ord accts) 0 (s, 0) t = Ok (sf, t')"
      and out: "(s', failed) = (if accts \<noteq> [] \<and> snd sf = 0 then (setValidationSuccess (int (length accts)) (fst sf), 0) else sf)"
    by (auto simp: validatePass_def)
  have "tracked (s, 0)" "sameServer s (fst (s, 0 :: nat))" using assms(2) by (simp_all add: tracked_def sameServer_def)
  note c = checkAccounts_ok [OF run this]
  have set: "set (ord accts) = set accts" using assms(3) by (rule range_order_set)
  show ?thesis
  proof (intro conjI impI)
    assume z: "failed = 0"
    with out have sf: "snd sf = 0" by (auto split: if_splits)
    with c set show "\<forall>(acct, prx) \<in> set accts. skipsAccount s prx \<or> agrees s B acct prx" by auto
    from c sf have h: "healthy (fst sf)" by (simp add: tracked_def)
    with out sf applyCheck_healthy(3) show "healthy s'" by (auto split: if_splits)
    assume "accts \<noteq> []"
    with out sf h show "vaStatus (svValidation s') = ''success''"
      by (auto simp: setValidationSuccess_def healthy_def)
  next
    assume "failed \<noteq> 0"
    with out have "s' = fst sf" "snd sf \<noteq> 0" by (auto split: if_splits)
    with c obtain msg where "failedWith s' msg" by (auto simp: tracked_def)
    then show "\<exists>msg. failedWith s' msg \<and> guarded s' resp = Err (wrapErrorf errInvalidIndexedState msg)"
      by (auto simp: failedWith_def guarded_def getIndexedStateErr_def)
  qed
qed

subsection \<open>A concrete pass\<close>

text \<open>Nodes that know the balances of the sample chain, and an indexer that stays synced to it.\<close>

definition chainNodes :: nodes where
  "chainNodes = sampleNodes
     \<lparr>ndExecute := (\<lambda>_ _ _ args.
        case args of
          [SVAddress a] \<Rightarrow>
            Inr (SVStruct [(''default_balance'', SVUFix64 (balanceAt sampleGenesis [([10], block1)] a 6)),
                           (''is_proxy'', SVBool False), (''proxy_balance'', SVUFix64 0)])
        | _ \<Rightarrow> Inl ''bad arguments'')\<rparr>"

definition chainServer :: "(bytes \<times> bytes) list Server" where
  "chainServer = sampleServer\<lparr>svNodes := chainNodes\<rparr>"

definition steady :: "(bytes \<times> bytes) list beside" where
  "steady = \<lparr>bsDone = (\<lambda>_. False), bsSynced = (\<lambda>_. True), bsStore = (\<lambda>_. apiStore)\<rparr>"

lemma steady_account:
  assumes "length a = 8" "sameServer chainServer s"
  shows "checkAccount 2 steady a False (s, 0) t = Ok ((s, 0), Suc t)"
proof -
  from sampleServer_serves obtain l where l: "represents sampleEnv apiStore sampleGenesis l [([10], block1)]"
    by (auto simp: serves_chain_def sampleServer_def)
  have h: "bmHash l = [10]" using l by (simp add: represents_def latestOf_def chainOf_def)
  have b: "blkAt sampleGenesis [([10], block1)] (unat (6 :: u64)) = Some ([10], block1)"
    by (simp add: blkAt_def tipHeight_def baseHeight_def sampleGenesis_def chainOf_def)
  have env: "svEnv s = sampleEnv" using assms(2) by (simp add: sameServer_def chainServer_def sampleServer_def)
  have "BalanceByHeight sampleEnv apiStore a 6 = Ok \<lparr>bdBalance = balanceAt sampleGenesis [([10], block1)] a 6, bdHash = [10], bdHeight = 6\<rparr>
      \<and> BalanceByHash sampleEnv apiStore a [10] = BalanceByHeight sampleEnv apiStore a 6"
    using Balance_represents [OF l assms(1), of 6] b by simp
  moreover have "getOnchainData s t a [10] =
      Ok \<lparr>ocDefaultBalance = balanceAt sampleGenesis [([10], block1)] a 6, ocIsProxy = False, ocProxyBalance = 0\<rparr>"
    unfolding sameServer_getOnchainData [OF assms(2)] using assms(1)
    by (simp add: getOnchainData_def chainServer_def chainNodes_def BytesToAddress_def onchainFields_def Let_def)
  ultimately show ?thesis
    by (simp add: numeral_2_eq_2 steady_def env Latest_represents [OF l] h compareAccount_def)
qed

lemma steady_accounts:
  "\<forall>(a, p) \<in> set accts. length a = 8 \<Longrightarrow> sameServer chainServer s \<Longrightarrow>
   \<exists>s' t'. checkAccounts 2 steady cnt accts k (s, 0) t = Ok ((s', 0), t')"
proof (induction accts arbitrary: k s t)
  case (Cons x accts)
  obtain a p where x: "x = (a, p)" by force
  have dep: "\<not> IsProxyContractDeployed (svChain s)"
  proof -
    have "\<not> IsProxyContractDeployed sampleChain" by code_simp
    then show ?thesis using Cons.prems(2) by (simp add: sameServer_def chainServer_def sampleServer_def)
  qed
  from Cons.IH [of s k t] Cons.IH [of "setValidationProgress (int cnt) (int (Suc k)) s" "Suc k" "Suc t"] Cons.prems
  show ?case by (cases p) (simp_all add: x skipsAccount_def dep steady_account)
qed simp

theorem validation_pass_sound_witness:
  "\<exists>accts s' t'. Accounts sampleEnv apiStore = Ok accts \<and>
     validatePass 2 (\<lambda>m. m) steady chainServer 0 = Ok ((s', 0), t') \<and> healthy s' \<and>
     list_all (\<lambda>(acct, prx). skipsAccount chainServer prx \<or> agrees chainServer steady acct prx) accts"
proof -
  from sampleServer_serves obtain l where l: "represents sampleEnv apiStore sampleGenesis l [([10], block1)]"
    by (auto simp: serves_chain_def sampleServer_def)
  from Accounts_represents [OF l] obtain m where m: "Accounts sampleEnv apiStore = Ok m" "\<forall>a \<in> mkeys m. length a = 8" by blast
  have e: "svEnv chainServer = sampleEnv" "bsStore steady 0 = apiStore" "healthy chainServer"
    by (simp_all add: chainServer_def sampleServer_def steady_def healthy_def)
  have "\<forall>(a, p) \<in> set m. length a = 8" using m(2) by (force simp: mkeys_def)
  moreover have "sameServer chainServer chainServer" by (simp add: sameServer_def)
  ultimately have "\<exists>s' t'. checkAccounts 2 steady (length m) m 0 (chainServer, 0) 0 = Ok ((s', 0), t')"
    by (rule steady_accounts)
  then obtain s' t' where run: "validatePass 2 (\<lambda>m. m) steady chainServer 0 = Ok ((s', 0), t')"
    by (cases "m = []") (auto simp: validatePass_def e m(1))
  from validation_pass_sound [OF run e(3) range_order_id, of m] m(1) e(1,2) have
    "healthy s' \<and> list_all (\<lambda>(acct, prx). skipsAccount chainServer prx \<or> agrees chainServer steady acct prx) m"
    by (simp add: list_all_iff)
  with run m(1) show ?thesis by blast
qed

end
