(* ===== verification/Construction.thy ===== *)
theory Construction
  imports ApiCall
begin

section \<open>Package api: construction of transactions\<close>

text \<open>
  The endpoints of \<^verbatim>\<open>api/construction_service.go\<close> with their wrappers. A transaction
  travels between the endpoints as a text: the hexadecimal form of a type byte before the protobuf
  message, then a colon and the options of the construction; a signed inner transaction, which a proxy
  account signs, is 33 bytes before the 64 bytes of the signature. Protobuf, the JSON encoding of
  Cadence values, the matching of operations in the Rosetta SDK, and the conversion of a floating-point
  number outside the range of \<^verbatim>\<open>uint32\<close>, which Go leaves to the implementation, are fields of
  the record \<open>codecs\<close>. The calls to the access nodes take the number of the call, as in \<open>Api\<close>.
\<close>

subsection \<open>Requests and parameters\<close>

text \<open>An operation of a request or a response; numbers in the metadata of a request are \<open>JFloat\<close>.\<close>

record constructOp =
  qoAccount :: "string option"
  qoAmount :: "(string \<times> currency) option"
  qoIndex :: int
  qoRelated :: "int list"
  qoType :: string
  qoMetadata :: "(string \<times> json) list"

record codecs =
  cdEncode :: "scriptValue \<Rightarrow> (string, bytes) sum"
  cdDecode :: "bytes \<Rightarrow> (string, scriptValue) sum"
  cdMarshalTxn :: "Transaction \<Rightarrow> (string, bytes) sum"
  cdUnmarshalTxn :: "bytes \<Rightarrow> (string, Transaction) sum"
  cdMarshalOpts :: "ConstructOpts \<Rightarrow> (string, bytes) sum"
  cdUnmarshalOpts :: "bytes \<Rightarrow> (string, ConstructOpts) sum"
  cdMatchOperations ::
    "string \<Rightarrow> constructOp list \<Rightarrow> (string, (constructOp \<times> int) \<times> (constructOp \<times> int)) sum"
  cdFloatOverflow :: "int \<Rightarrow> int \<Rightarrow> u32"

text \<open>The server with its pool of construction nodes and the transaction scripts.\<close>

record ('db, 'k, 'sc) construct =
  cnServer :: "'db Server"
  cnNodes :: nodes
  cnPing :: "nat \<Rightarrow> string option"
  cnSendTransaction :: "nat \<Rightarrow> Transaction \<Rightarrow> (grpcError, bytes) sum"
  cnServerAddress :: string
  cnScriptBasicTransfer :: bytes
  cnScriptComputeFees :: bytes
  cnScriptCreateAccount :: bytes
  cnScriptCreateProxyAccount :: bytes
  cnScriptProxyTransfer :: bytes
  cnScriptSetContract :: bytes
  cnHashing :: hashing
  cnCurve :: "('k, 'sc) secp256k1"
  cnCodecs :: codecs

definition opDeployContract :: string where "opDeployContract = ''deploy_contract''"
definition opProxyTransferInner :: string where "opProxyTransferInner = ''proxy_transfer_inner''"
definition opUpdateContract :: string where "opUpdateContract = ''update_contract''"

definition userTag :: bytes where
  "userTag = map of_char ''FLOW-V0.0-user'' @ replicate 18 0"

definition txnTypeFlow :: byte where "txnTypeFlow = 1"
definition txnTypeInner :: byte where "txnTypeInner = 2"

record innerTxn =
  inAmount :: u64
  inNonce :: u64
  inRaw :: bytes
  inReceiver :: bytes
  inSender :: bytes

record txnIntent =
  tiAmount :: u64
  tiContractCode :: string
  tiContractName :: string
  tiContractUpdate :: bool
  tiKeyMessage :: string
  tiKeyMetadata :: string
  tiKeySignature :: string
  tiKeys :: "string list"
  tiInner :: bool
  tiNewKey :: string
  tiPrevKeyIndex :: u32
  tiProxy :: bool
  tiReceiver :: bytes
  tiSender :: bytes

definition zeroIntent :: txnIntent where
  "zeroIntent =
     \<lparr>tiAmount = 0, tiContractCode = [], tiContractName = [], tiContractUpdate = False, tiKeyMessage = [],
      tiKeyMetadata = [], tiKeySignature = [], tiKeys = [], tiInner = False, tiNewKey = [],
      tiPrevKeyIndex = 0, tiProxy = False, tiReceiver = [], tiSender = []\<rparr>"

abbreviation cnTexts :: "('db, 'k, 'sc) construct \<Rightarrow> texts" where
  "cnTexts c \<equiv> svTexts (cnServer c)"

subsection \<open>Decoding a transaction\<close>

definition decodeInner :: "bytes \<Rightarrow> bool \<Rightarrow> innerTxn response" where
  "decodeInner raw isSigned =
     (if isSigned \<and> length raw \<noteq> 97 then
        Err (wrapErrorf errInvalidTransactionPayload
          (''unexpected length for signed transaction payload: expected 97, got '' @ formatNat (length raw)))
      else if \<not> isSigned \<and> length raw \<noteq> 33 then
        Err (wrapErrorf errInvalidTransactionPayload
          (''unexpected length for transaction payload: expected 33, got '' @ formatNat (length raw)))
      else
        andThen (getU64 (drop 1 raw)) (\<lambda>amount.
        andThen (getU64 (drop 9 raw)) (\<lambda>nonce.
        andThen (subslice raw 17 25) (\<lambda>receiver.
        andThen (subslice raw 25 33) (\<lambda>sender.
        Ok \<lparr>inAmount = amount, inNonce = nonce, inRaw = raw, inReceiver = receiver, inSender = sender\<rparr>)))))"

text \<open>
  The result is a Flow transaction (\<open>Inl\<close>) or an inner one (\<open>Inr\<close>). The messages of a decoded
  repeated field are never nil, so the test of the only envelope signature against nil has no branch.
\<close>

definition decodeTransaction ::
  "('db, 'k, 'sc) construct \<Rightarrow> string \<Rightarrow> bool \<Rightarrow> (Transaction + innerTxn) response" where
  "decodeTransaction c src isSigned =
     (let parts = splitOn CHR '':'' src;
          src1 = (if length parts = 2 then hd parts else src)
      in case hexDecode src1 of
           None \<Rightarrow> Err (wrapErr errInvalidTransactionPayload (txHexError (cnTexts c) src1))
         | Some [] \<Rightarrow> Err (wrapErrorf errInvalidTransactionPayload ''missing transaction data'')
         | Some (typ # body) \<Rightarrow>
             if typ = txnTypeFlow then
               (case cdUnmarshalTxn (cnCodecs c) body of
                  Inl err \<Rightarrow> Err (wrapErr errProtobuf err)
                | Inr txn \<Rightarrow>
                    if isSigned \<and> length (txEnvelopeSignatures txn) \<noteq> 1 then
                      Err (wrapErrorf errInvalidTransactionPayload
                        (''invalid number of envelope signatures for signed transaction: '' @
                         formatNat (length (txEnvelopeSignatures txn))))
                    else Ok (Inl txn))
             else if typ = txnTypeInner then
               andThen (decodeInner (typ # body) isSigned) (\<lambda>inner. Ok (Inr inner))
             else Err (wrapErrorf errInvalidTransactionPayload (''unknown transaction type: '' @ formatNat (unat typ))))"

definition getConstructOpts ::
  "('db, 'k, 'sc) construct \<Rightarrow> (string \<times> json) list \<Rightarrow> (string \<times> ConstructOpts) response" where
  "getConstructOpts c md =
     (case map_of md ''protobuf'' of
        None \<Rightarrow> Err (wrapErrorf errInvalidConstructOptions ''missing protobuf options field'')
      | Some (JString raw) \<Rightarrow>
          (case hexDecode raw of
             None \<Rightarrow> Err (wrapErrorf errInvalidConstructOptions
               (''protobuf options field is not a string: '' @ txValue (cnTexts c) (JString raw)))
           | Some enc \<Rightarrow>
               (case cdUnmarshalOpts (cnCodecs c) enc of
                  Inl err \<Rightarrow> Err (wrapErr errProtobuf err)
                | Inr opts \<Rightarrow> Ok (raw, opts)))
      | Some v \<Rightarrow> Err (wrapErrorf errInvalidConstructOptions
          (''protobuf options field is not a string: '' @ txValue (cnTexts c) v)))"

definition decodeOptsFromTransaction :: "('db, 'k, 'sc) construct \<Rightarrow> string \<Rightarrow> ConstructOpts option" where
  "decodeOptsFromTransaction c src =
     (case splitOn CHR '':'' src of
        [_, o1] \<Rightarrow>
          if o1 = [] then None
          else (case hexDecode o1 of
                  None \<Rightarrow> None
                | Some raw \<Rightarrow>
                    (case cdUnmarshalOpts (cnCodecs c) raw of Inl _ \<Rightarrow> None | Inr opts \<Rightarrow> Some opts))
      | _ \<Rightarrow> None)"

subsection \<open>The intent of the operations\<close>

abbreviation badIntent :: "string \<Rightarrow> xerror" where
  "badIntent msg \<equiv> wrapErrorf errInvalidOpsIntent msg"

definition mdField :: "string \<Rightarrow> (string \<times> json) list \<Rightarrow> json response" where
  "mdField name md =
     (case map_of md name of
        None \<Rightarrow> Err (badIntent (name @ '' metadata field missing on operation''))
      | Some v \<Rightarrow> Ok v)"

definition mdString :: "texts \<Rightarrow> string \<Rightarrow> (string \<times> json) list \<Rightarrow> string response" where
  "mdString T name md =
     andThen (mdField name md) (\<lambda>v.
     case v of
       JString x \<Rightarrow> Ok x
     | _ \<Rightarrow> Err (badIntent (name @ '' metadata field on operation is not a string: '' @ txValue T v)))"

definition mdNonEmpty :: "string \<Rightarrow> 'a list \<Rightarrow> unit response" where
  "mdNonEmpty name x =
     (if length x = 0 then Err (badIntent (name @ '' metadata field on operation is empty'')) else Ok ())"

text \<open>A floating-point number \<open>m * 2 ^ e\<close>, truncated towards zero.\<close>

definition floatToUint32 :: "codecs \<Rightarrow> int \<Rightarrow> int \<Rightarrow> u32" where
  "floatToUint32 K m e =
     (let v = (if 0 \<le> e then m * 2 ^ nat e else sgn m * (\<bar>m\<bar> div 2 ^ nat (- e)))
      in if 0 \<le> v \<and> v < 2 ^ 32 then of_int v else cdFloatOverflow K m e)"

definition accountKeyOf :: "('db, 'k, 'sc) construct \<Rightarrow> constructOp \<Rightarrow> string response" where
  "accountKeyOf c opr =
     andThen (mdString (cnTexts c) ''public_key'' (qoMetadata opr)) (\<lambda>raw.
     case hexDecode raw of
       None \<Rightarrow> Err (badIntent (''invalid public_key metadata field on operation: '' @ txHexError (cnTexts c) raw))
     | Some compressed \<Rightarrow>
         andThen (mapErr (\<lambda>e. wrapErr errInvalidOpsIntent (txCryptoError (cnTexts c) e))
                   (ConvertRosettaPublicKey (cnCurve c) compressed)) (\<lambda>pub.
         Ok (hexEncode pub)))"

definition severalOps :: "string \<Rightarrow> constructOp list \<Rightarrow> unit response" where
  "severalOps typ ops =
     (if length ops > 1
      then Err (badIntent (''multiple ('' @ formatNat (length ops) @ '') '' @ typ @ '' operations found''))
      else Ok ())"

definition accountIntent ::
  "('db, 'k, 'sc) construct \<Rightarrow> string \<Rightarrow> constructOp list \<Rightarrow> txnIntent response" where
  "accountIntent c typ ops =
     andThen (mapOutcome (accountKeyOf c) ops) (\<lambda>keys.
     if typ = opCreateProxyAccount then
       andThen (severalOps typ ops) (\<lambda>_. Ok (zeroIntent\<lparr>tiKeys := keys, tiProxy := True\<rparr>))
     else Ok (zeroIntent\<lparr>tiKeys := keys\<rparr>))"

definition newKeyOf :: "('db, 'k, 'sc) construct \<Rightarrow> (string \<times> json) list \<Rightarrow> bytes response" where
  "newKeyOf c md =
     andThen (mdString (cnTexts c) ''new_key'' md) (\<lambda>rawKey.
     case hexDecode rawKey of
       None \<Rightarrow> Err (badIntent (''failed to hex-decode new_key metadata field on operation: '' @ txHexError (cnTexts c) rawKey))
     | Some srcKey \<Rightarrow>
         andThen (mdNonEmpty ''new_key'' srcKey) (\<lambda>_.
         mapErr (\<lambda>e. badIntent (''could not convert new_key value from operation: '' @ txCryptoError (cnTexts c) e))
           (ConvertRosettaPublicKey (cnCurve c) srcKey)))"

definition prevKeyIndexOf :: "('db, 'k, 'sc) construct \<Rightarrow> (string \<times> json) list \<Rightarrow> u32 response" where
  "prevKeyIndexOf c md =
     andThen (mdField ''prev_key_index'' md) (\<lambda>v.
     case v of
       JFloat m e \<Rightarrow> Ok (floatToUint32 (cnCodecs c) m e)
     | _ \<Rightarrow> Err (badIntent (''prev_key_index metadata field on operation is not a number: '' @ txValue (cnTexts c) v)))"

definition contractIntent ::
  "('db, 'k, 'sc) construct \<Rightarrow> string \<Rightarrow> constructOp list \<Rightarrow> txnIntent response" where
  "contractIntent c typ ops =
     andThen (severalOps typ ops) (\<lambda>_.
     andThen (elemAt ops 0) (\<lambda>opr.
     let T = cnTexts c; md = qoMetadata opr in
     andThen (mdString T ''contract_name'' md) (\<lambda>name.
     andThen (mdNonEmpty ''contract_name'' name) (\<lambda>_.
     andThen (mdString T ''contract_code'' md) (\<lambda>code.
     case hexDecode code of
       None \<Rightarrow> Err (badIntent (''failed to hex-decode contract_code metadata field on operation: '' @ txHexError T code))
     | Some _ \<Rightarrow>
         andThen (mdNonEmpty ''contract_code'' code) (\<lambda>_.
         andThen (prevKeyIndexOf c md) (\<lambda>prevKeyIndex.
         andThen (newKeyOf c md) (\<lambda>newKey.
         andThen (mdString T ''key_message'' md) (\<lambda>keyMessage.
         andThen (mdNonEmpty ''key_message'' keyMessage) (\<lambda>_.
         andThen (mdString T ''key_signature'' md) (\<lambda>derSignature.
         andThen (mdNonEmpty ''key_signature'' derSignature) (\<lambda>_.
         andThen (mapErr (\<lambda>e. badIntent (''could not convert key_signature value from operation: '' @ txCryptoError T e))
                   (ConvertDERSignature (cnCurve c) derSignature)) (\<lambda>keySignature.
         andThen (mdString T ''key_metadata'' md) (\<lambda>keyMetadata.
         andThen (mdNonEmpty ''key_metadata'' keyMetadata) (\<lambda>_.
         Ok (zeroIntent\<lparr>tiContractCode := code, tiContractName := name, tiKeyMessage := keyMessage,
               tiKeyMetadata := keyMetadata, tiKeySignature := keySignature, tiNewKey := hexEncode newKey,
               tiPrevKeyIndex := prevKeyIndex, tiContractUpdate := (typ = opUpdateContract)\<rparr>))))))))))))))))"

text \<open>The account of a matched operation; the amount of the receiver is taken modulo \<open>2 ^ 64\<close>.\<close>

definition matchedAccount :: "('db, 'k, 'sc) construct \<Rightarrow> constructOp \<Rightarrow> bytes response" where
  "matchedAccount c opr =
     (case qoAccount opr of
        None \<Rightarrow> Panic ''nil pointer dereference''
      | Some addr \<Rightarrow> getAccount (cnServer c) addr)"

definition transferIntent ::
  "('db, 'k, 'sc) construct \<Rightarrow> string \<Rightarrow> constructOp list \<Rightarrow> txnIntent response" where
  "transferIntent c typ ops =
     (case cdMatchOperations (cnCodecs c) typ ops of
        Inl err \<Rightarrow> Err (badIntent (''unable to match operations: '' @ err))
      | Inr ((senderOp, _), (receiverOp, amount)) \<Rightarrow>
          andThen (matchedAccount c senderOp) (\<lambda>sender.
          andThen (matchedAccount c receiverOp) (\<lambda>receiver.
          Ok (zeroIntent\<lparr>tiSender := sender, tiAmount := of_int amount, tiReceiver := receiver,
                tiProxy := (typ = opProxyTransfer), tiInner := (typ = opProxyTransferInner)\<rparr>))))"

text \<open>The checks of lines 812--831: every operation is there and has the type of the first.\<close>

fun sameType :: "texts \<Rightarrow> string \<Rightarrow> constructOp option list \<Rightarrow> constructOp list response" where
  "sameType T typ [] = Ok []"
| "sameType T typ (None # ops) = Err (badIntent ''null operation value encountered'')"
| "sameType T typ (Some opr # ops) =
     (if qoType opr \<noteq> typ then
        Err (badIntent (''mismatching operation types encountered: '' @ txQuote T typ @ '' and '' @ txQuote T (qoType opr)))
      else andThen (sameType T typ ops) (\<lambda>rest. Ok (opr # rest)))"

definition parseIntent :: "('db, 'k, 'sc) construct \<Rightarrow> constructOp option list \<Rightarrow> txnIntent response" where
  "parseIntent c ops0 =
     (case ops0 of
        [] \<Rightarrow> Err (badIntent ''missing operations'')
      | None # _ \<Rightarrow> Err (badIntent ''null operation value encountered'')
      | Some op0 # _ \<Rightarrow>
          (let typ = qoType op0 in
           andThen (sameType (cnTexts c) typ ops0) (\<lambda>ops.
           if typ = opCreateAccount \<or> typ = opCreateProxyAccount then accountIntent c typ ops
           else if typ = opDeployContract \<or> typ = opUpdateContract then contractIntent c typ ops
           else if typ = opProxyTransfer \<or> typ = opProxyTransferInner \<or> typ = opTransfer then transferIntent c typ ops
           else Err (badIntent (''unknown operation type encountered: '' @ txQuote (cnTexts c) typ)))))"

subsection \<open>Parsing\<close>

abbreviation badPayload :: "string \<Rightarrow> xerror" where
  "badPayload msg \<equiv> wrapErrorf errInvalidTransactionPayload msg"

text \<open>The type assertions on a decoded Cadence value.\<close>

fun asBool :: "scriptValue \<Rightarrow> bool option" where
  "asBool (SVBool b) = Some b" | "asBool _ = None"
fun asString :: "scriptValue \<Rightarrow> string option" where
  "asString (SVString s) = Some s" | "asString _ = None"
fun asInt :: "scriptValue \<Rightarrow> int option" where
  "asInt (SVInt i) = Some i" | "asInt _ = None"
fun asInt64 :: "scriptValue \<Rightarrow> int option" where
  "asInt64 (SVInt64 i) = Some i" | "asInt64 _ = None"
fun asUFix64 :: "scriptValue \<Rightarrow> u64 option" where
  "asUFix64 (SVUFix64 w) = Some w" | "asUFix64 _ = None"
fun asAddress :: "scriptValue \<Rightarrow> bytes option" where
  "asAddress (SVAddress a) = Some a" | "asAddress _ = None"
fun asArray :: "scriptValue \<Rightarrow> scriptValue list option" where
  "asArray (SVArray vs) = Some vs" | "asArray _ = None"

definition decodeArg ::
  "codecs \<Rightarrow> bytes list \<Rightarrow> nat \<Rightarrow> string \<Rightarrow> (scriptValue \<Rightarrow> 'a option) \<Rightarrow> string \<Rightarrow> 'a response" where
  "decodeArg K args i what assert bad =
     andThen (elemAt args i) (\<lambda>arg.
     case cdDecode K arg of
       Inl err \<Rightarrow> Err (badPayload (''unable to decode '' @ what @ '': '' @ err))
     | Inr v \<Rightarrow> (case assert v of None \<Rightarrow> Err (badPayload (''unable to convert '' @ bad)) | Some x \<Rightarrow> Ok x))"

record parseResponse =
  prSigners :: "string list"
  prOperations :: "constructOp list"

definition txnOps :: "bytes \<Rightarrow> constructOp list \<Rightarrow> bool \<Rightarrow> parseResponse response" where
  "txnOps payer ops isSigned = Ok \<lparr>prSigners = (if isSigned then [addressText payer] else []), prOperations = ops\<rparr>"

definition transferPair :: "string \<Rightarrow> bytes \<Rightarrow> bytes \<Rightarrow> u64 \<Rightarrow> constructOp list" where
  "transferPair typ sender receiver amount =
     [\<lparr>qoAccount = Some (addressText sender), qoAmount = Some (''-'' @ formatUint amount, flowCurrency),
       qoIndex = 0, qoRelated = [], qoType = typ, qoMetadata = []\<rparr>,
      \<lparr>qoAccount = Some (addressText receiver), qoAmount = Some (formatUint amount, flowCurrency),
       qoIndex = 1, qoRelated = [0], qoType = typ, qoMetadata = []\<rparr>]"

definition argCount :: "Transaction \<Rightarrow> nat \<Rightarrow> unit response" where
  "argCount txn n =
     (if length (txArguments txn) \<noteq> n
      then Err (badPayload (''invalid number of transaction args: '' @ formatNat (length (txArguments txn)))) else Ok ())"

definition decodeTransferOps ::
  "('db, 'k, 'sc) construct \<Rightarrow> Transaction \<Rightarrow> bool \<Rightarrow> bool \<Rightarrow> parseResponse response" where
  "decodeTransferOps c txn proxy isSigned =
     (let K = cnCodecs c; args = txArguments txn; idx = (if proxy then 1 else 0) in
      andThen (argCount txn (if proxy then 5 else 2)) (\<lambda>_.
      andThen (if proxy then decodeArg K args 0 ''sender transaction arg'' asAddress ''sender arg to address''
               else Ok (txPayer txn)) (\<lambda>sender.
      andThen (decodeArg K args idx ''receiver transaction arg'' asAddress ''receiver arg to address'') (\<lambda>receiver.
      andThen (decodeArg K args (idx + 1) ''amount transaction arg'' asUFix64 ''amount transaction arg to ufix64'') (\<lambda>amount.
      andThen (if proxy then
                 andThen (decodeArg K args 3 ''nonce transaction arg'' asInt64 ''nonce transaction arg to int64'') (\<lambda>_.
                 andThen (decodeArg K args 4 ''sig transaction arg'' asString ''sig transaction arg to string'') (\<lambda>_.
                 Ok ()))
               else Ok ()) (\<lambda>_.
      txnOps (txPayer txn)
        (transferPair (if proxy then opProxyTransfer else opTransfer) sender receiver amount) isSigned))))))"

definition createdKey :: "('db, 'k, 'sc) construct \<Rightarrow> string \<Rightarrow> bytes response" where
  "createdKey c key =
     (case hexDecode key of
        None \<Rightarrow> Err (badPayload (''unable to hex decode transaction arg: '' @ txHexError (cnTexts c) key))
      | Some pub \<Rightarrow>
          mapErr (\<lambda>e. wrapErr errInvalidTransactionPayload (txCryptoError (cnTexts c) e))
            (ConvertFlowPublicKey (cnCurve c) pub))"

definition createOp :: "string \<Rightarrow> nat \<Rightarrow> bytes \<Rightarrow> constructOp" where
  "createOp typ n pub =
     \<lparr>qoAccount = None, qoAmount = None, qoIndex = int n, qoRelated = [], qoType = typ,
      qoMetadata = [(''public_key'', JString (hexEncode pub))]\<rparr>"

fun createOpsLoop ::
  "('db, 'k, 'sc) construct \<Rightarrow> scriptValue list \<Rightarrow> constructOp list \<Rightarrow> constructOp list response" where
  "createOpsLoop c [] ops = Ok ops"
| "createOpsLoop c (val # vals) ops =
     (case asString val of
        None \<Rightarrow> Err (badPayload ''unable to convert transaction arg elem to string'')
      | Some key \<Rightarrow>
          andThen (createdKey c key) (\<lambda>pub.
          createOpsLoop c vals (ops @ [createOp opCreateAccount (length ops) pub])))"

definition decodeCreateAccountOps ::
  "('db, 'k, 'sc) construct \<Rightarrow> Transaction \<Rightarrow> bool \<Rightarrow> bool \<Rightarrow> parseResponse response" where
  "decodeCreateAccountOps c txn proxy isSigned =
     (let K = cnCodecs c; args = txArguments txn in
      andThen (argCount txn 1) (\<lambda>_.
      andThen (if proxy then
                 andThen (decodeArg K args 0 ''transaction arg'' asString ''transaction arg to string'') (\<lambda>key.
                 andThen (createdKey c key) (\<lambda>pub. Ok [createOp opCreateProxyAccount 0 pub]))
               else
                 andThen (decodeArg K args 0 ''transaction arg'' asArray ''transaction arg to array'') (\<lambda>vals.
                 createOpsLoop c vals [])) (\<lambda>ops.
      txnOps (txPayer txn) ops isSigned)))"

definition decodeContractOps ::
  "('db, 'k, 'sc) construct \<Rightarrow> Transaction \<Rightarrow> bool \<Rightarrow> parseResponse response" where
  "decodeContractOps c txn isSigned =
     (let T = cnTexts c; args = txArguments txn;
          str = (\<lambda>i. decodeArg (cnCodecs c) args i ''transaction arg'' asString ''transaction arg to string'') in
      andThen (argCount txn 8) (\<lambda>_.
      andThen (decodeArg (cnCodecs c) args 0 ''transaction arg'' asBool ''transaction arg to string'') (\<lambda>update.
      andThen (str 1) (\<lambda>name.
      andThen (str 2) (\<lambda>code.
      andThen (decodeArg (cnCodecs c) args 3 ''transaction arg'' asInt ''transaction arg to *big.Int'') (\<lambda>prevKeyIndex.
      andThen (str 4) (\<lambda>rawKey.
      case hexDecode rawKey of
        None \<Rightarrow> Err (badPayload (''unable to hex-decode new key transaction arg: '' @ txHexError T rawKey))
      | Some flowKey \<Rightarrow>
          andThen (mapErr (\<lambda>e. badPayload (''unable to convert new key transaction arg: '' @ txCryptoError T e))
                    (ConvertFlowPublicKey (cnCurve c) flowKey)) (\<lambda>newKey.
          andThen (str 5) (\<lambda>keyMessage.
          andThen (str 6) (\<lambda>rawSignature.
          andThen (mapErr (\<lambda>e. badPayload (''unable to convert key signature transaction arg: '' @ txCryptoError T e))
                    (ConvertFlowSignature rawSignature)) (\<lambda>keySignature.
          andThen (str 7) (\<lambda>keyMetadata.
          txnOps (txPayer txn)
            [\<lparr>qoAccount = None, qoAmount = None, qoIndex = 0, qoRelated = [],
              qoType = (if update then opUpdateContract else opDeployContract),
              qoMetadata =
                [(''contract_code'', JString code), (''contract_name'', JString name),
                 (''key_message'', JString keyMessage), (''key_metadata'', JString keyMetadata),
                 (''key_signature'', JString keySignature), (''new_key'', JString (hexEncode newKey)),
                 (''prev_key_index'', JInt (sint (of_int prevKeyIndex :: u64)))]\<rparr>] isSigned))))))))))))"

definition ConstructionParse ::
  "('db, 'k, 'sc) construct \<Rightarrow> string \<Rightarrow> bool \<Rightarrow> parseResponse response" where
  "ConstructionParse c transaction isSigned =
     andThen (decodeTransaction c transaction isSigned) (\<lambda>d.
     case d of
       Inl txn \<Rightarrow>
         if txScript txn = cnScriptBasicTransfer c then decodeTransferOps c txn False isSigned
         else if txScript txn = cnScriptProxyTransfer c then decodeTransferOps c txn True isSigned
         else if txScript txn = cnScriptCreateAccount c then decodeCreateAccountOps c txn False isSigned
         else if txScript txn = cnScriptCreateProxyAccount c then decodeCreateAccountOps c txn True isSigned
         else if txScript txn = cnScriptSetContract c then decodeContractOps c txn isSigned
         else Err errInvalidTransactionPayload
     | Inr inner \<Rightarrow>
         txnOps (inSender inner)
           (transferPair opProxyTransferInner (inSender inner) (inReceiver inner) (inAmount inner)) isSigned)"

subsection \<open>Payloads\<close>

record payloadsResponse =
  pyAddress :: string
  pyBytes :: bytes
  pyUnsigned :: string

text \<open>\<^verbatim>\<open>copy(enc[i:], src)\<close>.\<close>

definition copyAt :: "nat \<Rightarrow> bytes \<Rightarrow> bytes \<Rightarrow> bytes" where
  "copyAt i src enc = take i enc @ take (length enc - i) src @ drop (i + length src) enc"

definition innerPayload :: "hashing \<Rightarrow> txnIntent \<Rightarrow> u64 \<Rightarrow> payloadsResponse" where
  "innerPayload H intent seq =
     (let enc = copyAt 25 (tiSender intent) (copyAt 17 (tiReceiver intent)
                  (copyAt 9 (putU64 seq) (copyAt 1 (putU64 (tiAmount intent))
                    ((replicate 33 0)[0 := txnTypeInner]))))
      in \<lparr>pyAddress = addressText (tiSender intent),
          pyBytes = sha3_256 H (userTag @ tiReceiver intent @ take 16 (drop 1 enc)),
          pyUnsigned = hexEncode enc\<rparr>)"

definition encodeArg :: "codecs \<Rightarrow> scriptValue \<times> string \<Rightarrow> bytes response" where
  "encodeArg K va =
     (case cdEncode K (fst va) of
        Inl err \<Rightarrow> Err (badIntent (''unable to JSON encode '' @ snd va @ '': '' @ err))
      | Inr arg \<Rightarrow> Ok arg)"

definition accountArgs :: "txnIntent \<Rightarrow> (scriptValue \<times> string) list" where
  "accountArgs intent =
     (if tiProxy intent then [(SVString (hd (tiKeys intent)), ''public key'')]
      else [(SVArray (map SVString (tiKeys intent)), ''public keys'')])"

definition contractArgs :: "txnIntent \<Rightarrow> (scriptValue \<times> string) list" where
  "contractArgs intent =
     [(SVBool (tiContractUpdate intent), ''contract deploy/update flag''),
      (SVString (tiContractName intent), ''contract name''),
      (SVString (tiContractCode intent), ''contract code''),
      (SVInt (uint (tiPrevKeyIndex intent)), ''prev key index''),
      (SVString (tiNewKey intent), ''new key''),
      (SVString (tiKeyMessage intent), ''key message''),
      (SVString (tiKeySignature intent), ''key signature''),
      (SVString (tiKeyMetadata intent), ''key metadata'')]"

definition transferArgs :: "txnIntent \<Rightarrow> (scriptValue \<times> string) list" where
  "transferArgs intent =
     (if tiProxy intent then [(SVAddress (BytesToAddress (tiSender intent)), ''sender'')] else []) @
     [(SVAddress (BytesToAddress (tiReceiver intent)), ''receiver''), (SVUFix64 (tiAmount intent), ''amount'')]"

text \<open>
  The nonce and the signature of the inner transaction. A payload that is a Flow transaction leaves
  the variable \<^verbatim>\<open>inner\<close> nil, which the next line dereferences.
\<close>

definition innerArgs :: "('db, 'k, 'sc) construct \<Rightarrow> ConstructOpts \<Rightarrow> bytes list response" where
  "innerArgs c opts =
     (if length (coProxyTransferPayload opts) = 0 then
        Err (wrapErrorf errInvalidConstructOptions
          ''proxy_transfer_payload was not specified in the /construction/preprocess metadata'')
      else
        andThen (decodeTransaction c (coProxyTransferPayload opts) True) (\<lambda>d.
        case d of
          Inl _ \<Rightarrow> Panic ''nil pointer dereference''
        | Inr inner \<Rightarrow>
            andThen (encodeArg (cnCodecs c) (SVInt64 (sint (inNonce inner)), ''nonce'')) (\<lambda>nonce.
            andThen (subslice (inRaw inner) 33 (length (inRaw inner))) (\<lambda>sig.
            andThen (encodeArg (cnCodecs c) (SVString (hexEncode sig), ''signature'')) (\<lambda>sarg.
            Ok [nonce, sarg])))))"

definition scriptAndArgs ::
  "('db, 'k, 'sc) construct \<Rightarrow> ConstructOpts \<Rightarrow> txnIntent \<Rightarrow> (bytes \<times> bytes list) response" where
  "scriptAndArgs c opts intent =
     (let enc = mapOutcome (encodeArg (cnCodecs c)) in
      if length (tiKeys intent) > 0 then
        andThen (enc (accountArgs intent)) (\<lambda>args.
        Ok (if tiProxy intent then cnScriptCreateProxyAccount c else cnScriptCreateAccount c, args))
      else if tiContractCode intent \<noteq> [] then
        andThen (enc (contractArgs intent)) (\<lambda>args. Ok (cnScriptSetContract c, args))
      else
        andThen (enc (transferArgs intent)) (\<lambda>args.
        if tiProxy intent then
          andThen (innerArgs c opts) (\<lambda>more_args. Ok (cnScriptProxyTransfer c, args @ more_args))
        else Ok (cnScriptBasicTransfer c, args)))"

definition payloadTransaction :: "ConstructOpts \<Rightarrow> bytes \<Rightarrow> bytes list \<Rightarrow> Transaction" where
  "payloadTransaction opts script args =
     \<lparr>txScript = script, txArguments = args, txReferenceBlockId = coBlockHash opts, txGasLimit = 9999,
      txProposalKey = Some \<lparr>pkAddress = coPayer opts, pkKeyId = coKeyId opts,
        pkSequenceNumber = coSequenceNumber opts\<rparr>,
      txPayer = coPayer opts, txAuthorizers = [coPayer opts], txPayloadSignatures = [], txEnvelopeSignatures = []\<rparr>"

definition ConstructionPayloads ::
  "('db, 'k, 'sc) construct \<Rightarrow> (string \<times> json) list \<Rightarrow> constructOp option list \<Rightarrow> payloadsResponse response" where
  "ConstructionPayloads c md ops =
     andThen (getConstructOpts c md) (\<lambda>(rawOpts, opts).
     andThen (parseIntent c ops) (\<lambda>intent.
     if sint (coSequenceNumber opts) < 0 then
       Err (wrapErrorf errInvalidConstructOptions
         (''invalid sequence_number from construct options: '' @ formatInt (sint (coSequenceNumber opts))))
     else if tiInner intent then Ok (innerPayload (cnHashing c) intent (coSequenceNumber opts))
     else
       andThen (scriptAndArgs c opts intent) (\<lambda>(script, args).
       let txn = payloadTransaction opts script args in
       andThen (mapErr (wrapErr errInternal) (TransactionEnvelopeHash (cnHashing c) txn)) (\<lambda>hash.
       case cdMarshalTxn (cnCodecs c) txn of
         Inl err \<Rightarrow> Err (wrapErr errProtobuf err)
       | Inr enc \<Rightarrow>
           Ok \<lparr>pyAddress = addressText (coPayer opts), pyBytes = hash,
               pyUnsigned = hexEncode (txnTypeFlow # enc) @ '':'' @ rawOpts\<rparr>))))"

subsection \<open>Combining and hashing\<close>

text \<open>
  A signature of the request is a slice: its bytes, and what lies behind them in its array up to the
  capacity. The code takes the first 64 bytes without looking at the length, so that a shorter
  signature is filled up from the array.
\<close>

definition firstBytes :: "nat \<Rightarrow> bytes \<times> bytes \<Rightarrow> bytes response" where
  "firstBytes n s =
     (if n \<le> length (fst s) + length (snd s) then Ok (take n (fst s @ snd s))
      else Panic ''slice bounds out of range'')"

definition ConstructionCombine ::
  "('db, 'k, 'sc) construct \<Rightarrow> string \<Rightarrow> (bytes \<times> bytes) option list \<Rightarrow> string response" where
  "ConstructionCombine c unsignedTransaction signatures =
     (case signatures of
        [Some s] \<Rightarrow>
          (let parts = splitOn CHR '':'' unsignedTransaction;
               constructOpts = (if length parts = 2 then parts ! 1 else []) in
           andThen (decodeTransaction c unsignedTransaction False) (\<lambda>d.
           andThen (firstBytes 64 s) (\<lambda>sig.
           case d of
             Inl txn \<Rightarrow>
               (case txProposalKey txn of
                  None \<Rightarrow> Panic ''nil pointer dereference''
                | Some key \<Rightarrow>
                    (case cdMarshalTxn (cnCodecs c)
                            (txn\<lparr>txEnvelopeSignatures :=
                               [\<lparr>tsAddress = txPayer txn, tsKeyId = pkKeyId key, tsSignature = sig\<rparr>]\<rparr>) of
                       Inl err \<Rightarrow> Err (wrapErr errProtobuf err)
                     | Inr enc \<Rightarrow> Ok (hexEncode (txnTypeFlow # enc) @ '':'' @ constructOpts)))
           | Inr inner \<Rightarrow> Ok (hexEncode (inRaw inner @ sig)))))
      | _ \<Rightarrow> Err errInvalidSignature)"

definition ConstructionDerive :: "unit response" where
  "ConstructionDerive = Ok ()"

definition ConstructionHash :: "('db, 'k, 'sc) construct \<Rightarrow> string \<Rightarrow> string response" where
  "ConstructionHash c signedTransaction =
     andThen (decodeTransaction c signedTransaction True) (\<lambda>d.
     case d of
       Inl txn \<Rightarrow>
         andThen (mapErr (wrapErr errInternal) (TransactionHash (cnHashing c) txn)) (\<lambda>hash. Ok (hexEncode hash))
     | Inr inner \<Rightarrow>
         Ok (hexEncode (sha3_256 (cnHashing c) (map of_char ''inner-transaction-tag'' @ inRaw inner))))"

subsection \<open>Preprocessing and metadata\<close>

abbreviation badField :: "string \<Rightarrow> xerror" where
  "badField msg \<equiv> wrapErrorf errInvalidMetadataField msg"

definition metadataString :: "texts \<Rightarrow> string \<Rightarrow> (string \<times> json) list \<Rightarrow> string response" where
  "metadataString T name md =
     (case map_of md name of
        None \<Rightarrow> Err (badField (name @ '' metadata field is missing''))
      | Some (JString raw) \<Rightarrow> Ok raw
      | Some v \<Rightarrow> Err (badField (name @ '' metadata field is not a string: '' @ txValue T v)))"

definition executionEffort :: "txnIntent \<Rightarrow> nat" where
  "executionEffort intent =
     (if tiContractCode intent \<noteq> [] then
        (if tiContractUpdate intent then UpdateContractEffort else DeployContractEffort)
      else if length (tiKeys intent) > 0 then
        (if tiProxy intent then CreateProxyAccountEffort else CreateAccountEffort * length (tiKeys intent))
      else if tiProxy intent then FlowTransferEffort else ProxyTransferEffort)"

definition sequenceOption :: "texts \<Rightarrow> (string \<times> json) list \<Rightarrow> u64 response" where
  "sequenceOption T md =
     (case map_of md ''sequence_number'' of
        None \<Rightarrow> Ok (- 1)
      | Some (JString raw) \<Rightarrow>
          (case parseInt64 raw of
             None \<Rightarrow> Err (badField (''invalid sequence_number value: '' @ txQuote T raw @ '': '' @ txIntError T raw))
           | Some seq \<Rightarrow>
               if seq < 0 then Err (badField (''invalid sequence_number value: '' @ formatInt seq)) else Ok (of_int seq))
      | Some v \<Rightarrow> Err (badField (''sequence_number metadata field is not a string: '' @ txValue T v)))"

definition payerOption :: "('db, 'k, 'sc) construct \<Rightarrow> txnIntent \<Rightarrow> (string \<times> json) list \<Rightarrow> bytes response" where
  "payerOption c intent md =
     (if tiInner intent then Ok (tiSender intent)
      else
        andThen (metadataString (cnTexts c) ''payer'' md) (\<lambda>raw.
        mapErr (\<lambda>xerr. badField (''invalid payer value: '' @ formatErr xerr)) (getAccount (cnServer c) raw)))"

definition ConstructionPreprocess ::
  "('db, 'k, 'sc) construct \<Rightarrow> constructOp option list \<Rightarrow> (string \<times> json) list \<Rightarrow> string response" where
  "ConstructionPreprocess c ops md =
     andThen (parseIntent c ops) (\<lambda>intent.
     if mget False (svFeeAddrs (cnServer c)) (tiReceiver intent) then
       Err (badIntent (''cannot make transfers to the fee address: 0x'' @ hexEncode (tiReceiver intent)))
     else
       andThen (if tiProxy intent \<and> length (tiKeys intent) = 0
                then metadataString (cnTexts c) ''proxy_transfer_payload'' md else Ok []) (\<lambda>payload.
       andThen (sequenceOption (cnTexts c) md) (\<lambda>seq.
       andThen (payerOption c intent md) (\<lambda>payer.
       case cdMarshalOpts (cnCodecs c)
              \<lparr>coBlockHash = [], coBlockHashFromRemote = False, coBlockHashRemoteServer = [],
               coExecutionEffort = of_nat (executionEffort intent), coFees = 0,
               coKeyId = (if tiContractCode intent \<noteq> [] then tiPrevKeyIndex intent else 0),
               coInclusionEffort = of_nat InclusionEffort, coInner = tiInner intent,
               coNewAccounts = of_nat (length (tiKeys intent)), coPayer = payer,
               coProxyTransferPayload = payload, coSequenceNumber = seq\<rparr> of
         Inl err \<Rightarrow> Err (wrapErr errProtobuf err)
       | Inr data \<Rightarrow> Ok (hexEncode data)))))"

record metadataResponse =
  mdHeight :: string
  mdProtobuf :: string
  mdFee :: string

definition innerNonce :: "('db, 'k, 'sc) construct \<Rightarrow> BlockHeader \<Rightarrow> ConstructOpts \<Rightarrow> ConstructOpts response" where
  "innerNonce c hdr opts =
     (if coSequenceNumber opts = - 1 then
        (case ndExecute (cnNodes c) 1 (bhId hdr) (svScriptGetProxyNonce (cnServer c))
                [SVAddress (BytesToAddress (coPayer opts))] of
           Inl err \<Rightarrow> Err (wrapErrorf errFailedAccessAPICall (''failed to execute get_proxy_nonce: '' @ err))
         | Inr v \<Rightarrow>
             (case asInt64 v of
                None \<Rightarrow> Err (wrapErrorf errInternal
                  (''expected type cadence.Int64 for nonce, got '' @ txType (cnTexts c) (Some v)))
              | Some nonce \<Rightarrow> Ok (opts\<lparr>coSequenceNumber := of_int nonce\<rparr>)))
      else Ok opts)"

text \<open>The keys of the payer: the sequence number of the proposal key, and how many are not revoked.\<close>

fun keyLoop :: "u32 \<Rightarrow> acctKey list \<Rightarrow> u64 \<times> nat \<times> bool \<Rightarrow> (u64 \<times> nat \<times> bool) response" where
  "keyLoop keyId [] st = Ok st"
| "keyLoop keyId (key # keys) (seq, cnt, found) =
     (if akIndex key = keyId then
        (if akRevoked key
         then Err (wrapErrorf errInvalidKeyID (''key '' @ formatNat (unat keyId) @ '' has been revoked''))
         else keyLoop keyId keys (ucast (akSequenceNumber key), Suc cnt, True))
      else keyLoop keyId keys (seq, if akRevoked key then cnt else Suc cnt, found))"

definition keySeqAndCount :: "ConstructOpts \<Rightarrow> acctKey list \<Rightarrow> (u64 \<times> nat) response" where
  "keySeqAndCount opts keys =
     (if coSequenceNumber opts = - 1 then
        andThen (keyLoop (coKeyId opts) keys (coSequenceNumber opts, 0, False)) (\<lambda>(seq, cnt, found).
        if \<not> found then
          Err (wrapErrorf errInvalidKeyID
            (''could not find key ID '' @ formatNat (unat (coKeyId opts)) @ '' out of '' @ formatNat (length keys) @ '' keys''))
        else Ok (seq, cnt))
      else Ok (coSequenceNumber opts, length (filter (\<lambda>k. \<not> akRevoked k) keys)))"

definition outerOptions ::
  "('db, 'k, 'sc) construct \<Rightarrow> BlockHeader \<Rightarrow> ConstructOpts \<Rightarrow> (u64 \<times> ConstructOpts) response" where
  "outerOptions c hdr opts =
     andThen (tipOf (cnServer c)) (\<lambda>tip.
     case tip of
       None \<Rightarrow> Panic ''nil pointer dereference''
     | Some l \<Rightarrow>
         (let remote = (bhHeight hdr > bmHeight l);
              height = (if remote then bhHeight hdr else bmHeight l);
              opts1 = (if remote
                       then opts\<lparr>coBlockHash := bhId hdr, coBlockHashFromRemote := True,
                              coBlockHashRemoteServer := cnServerAddress c\<rparr>
                       else opts\<lparr>coBlockHash := bmHash l\<rparr>)
          in case ndExecute (cnNodes c) 1 (bhId hdr) (cnScriptComputeFees c)
                    [SVUFix64 (coInclusionEffort opts), SVUFix64 (coExecutionEffort opts)] of
               Inl err \<Rightarrow> Err (wrapErrorf errFailedAccessAPICall (''failed to execute compute_fees: '' @ err))
             | Inr v \<Rightarrow>
                 (case asUFix64 v of
                    None \<Rightarrow> Err (wrapErrorf errInternal
                      (''expected type cadence.UFix64 for cost, got '' @ txType (cnTexts c) (Some v)))
                  | Some cost \<Rightarrow>
                      (case ndAccountAtHeight (cnNodes c) 2 (coPayer opts) height of
                         Inl err \<Rightarrow> Err (wrapErr errInternal err)
                       | Inr keys \<Rightarrow>
                           andThen (keySeqAndCount opts keys) (\<lambda>(seq, cnt).
                           if cnt \<noteq> 1 then
                             Err (wrapErrorf errInvalidNumberOfAccountKeys
                               (''found '' @ formatNat cnt @ '' valid keys out of total '' @ formatNat (length keys) @ '' keys''))
                           else
                             Ok (height,
                                 opts1\<lparr>coFees := cost + coNewAccounts opts * of_nat MinimumAccountBalance,
                                   coSequenceNumber := seq\<rparr>))))))"

definition ConstructionMetadata ::
  "('db, 'k, 'sc) construct \<Rightarrow> (string \<times> json) list \<Rightarrow> metadataResponse response" where
  "ConstructionMetadata c options =
     (if svOffline (cnServer c) then Err errOfflineMode
      else
        andThen (getConstructOpts c options) (\<lambda>(_, opts).
        case ndLatestBlockHeader (cnNodes c) 0 of
          Inl err \<Rightarrow> Err (wrapErr errInternal err)
        | Inr hdr \<Rightarrow>
            andThen (if coInner opts then andThen (innerNonce c hdr opts) (\<lambda>opts1. Ok (0, opts1))
                     else outerOptions c hdr opts) (\<lambda>(height, opts1).
            case cdMarshalOpts (cnCodecs c) opts1 of
              Inl err \<Rightarrow> Err (wrapErr errProtobuf err)
            | Inr data \<Rightarrow>
                Ok \<lparr>mdHeight = formatUint height, mdProtobuf = hexEncode data, mdFee = formatUint (coFees opts1)\<rparr>)))"

subsection \<open>Submission\<close>

definition submitError ::
  "('db, 'k, 'sc) construct \<Rightarrow> string \<Rightarrow> string \<Rightarrow> grpcError \<Rightarrow> xerror" where
  "submitError c signedTransaction txnHash err =
     (if IsRateLimited err then
        wrapErrorf errRateLimited (''failed to submit txn '' @ txnHash @ '': '' @ geMessage err)
      else if geCode err = InvalidArgument \<and> contains (geMessage err) ''transaction is expired'' then
        (case decodeOptsFromTransaction c signedTransaction of
           Some opts \<Rightarrow>
             wrapErrorf errTransactionExpired
               (''expired transaction '' @ txnHash @ '': '' @ geMessage err @ '': reference block hash used from '' @
                (if coBlockHashFromRemote opts
                 then ''remote server '' @ txQuote (cnTexts c) (coBlockHashRemoteServer opts)
                 else ''locally indexed data''))
         | None \<Rightarrow> wrapErrorf errTransactionExpired (''expired transaction '' @ txnHash @ '': '' @ geMessage err))
      else wrapErrorf errBroadcastFailed (''failed to submit transaction '' @ txnHash @ '': '' @ geMessage err))"

definition ConstructionSubmit :: "('db, 'k, 'sc) construct \<Rightarrow> string \<Rightarrow> string response" where
  "ConstructionSubmit c signedTransaction =
     (if svOffline (cnServer c) then Err errOfflineMode
      else
        andThen (decodeTransaction c signedTransaction True) (\<lambda>d.
        case d of
          Inr _ \<Rightarrow> Err (badPayload ''inner transactions cannot be submitted'')
        | Inl txn \<Rightarrow>
            (case cnPing c 0 of
               Some err \<Rightarrow> Err (wrapErr errAccessNodeInaccessible err)
             | None \<Rightarrow>
                 (case cnSendTransaction c 1 txn of
                    Inr hash \<Rightarrow> Ok (hexEncode hash)
                  | Inl err \<Rightarrow>
                      (case TransactionHash (cnHashing c) txn of
                         Ok hash \<Rightarrow> Err (submitError c signedTransaction (hexEncode hash) err)
                       | Err _ \<Rightarrow> Err (submitError c signedTransaction [] err)
                       | Panic p \<Rightarrow> Panic p
                       | Fatal m \<Rightarrow> Fatal m)))))"

subsection \<open>The wrapper\<close>

definition wrappedConstructionCombine ::
  "('db, 'k, 'sc) construct \<Rightarrow> string \<Rightarrow> (bytes \<times> bytes) option list \<Rightarrow> string response" where
  "wrappedConstructionCombine c txn sigs = guarded (cnServer c) (ConstructionCombine c txn sigs)"

definition wrappedConstructionDerive :: "('db, 'k, 'sc) construct \<Rightarrow> unit response" where
  "wrappedConstructionDerive c = guarded (cnServer c) ConstructionDerive"

definition wrappedConstructionHash :: "('db, 'k, 'sc) construct \<Rightarrow> string \<Rightarrow> string response" where
  "wrappedConstructionHash c txn = guarded (cnServer c) (ConstructionHash c txn)"

definition wrappedConstructionMetadata ::
  "('db, 'k, 'sc) construct \<Rightarrow> (string \<times> json) list \<Rightarrow> metadataResponse response" where
  "wrappedConstructionMetadata c options = guarded (cnServer c) (ConstructionMetadata c options)"

definition wrappedConstructionParse :: "('db, 'k, 'sc) construct \<Rightarrow> string \<Rightarrow> bool \<Rightarrow> parseResponse response" where
  "wrappedConstructionParse c txn isSigned = guarded (cnServer c) (ConstructionParse c txn isSigned)"

definition wrappedConstructionPayloads ::
  "('db, 'k, 'sc) construct \<Rightarrow> (string \<times> json) list \<Rightarrow> constructOp option list \<Rightarrow> payloadsResponse response" where
  "wrappedConstructionPayloads c md ops = guarded (cnServer c) (ConstructionPayloads c md ops)"

definition wrappedConstructionPreprocess ::
  "('db, 'k, 'sc) construct \<Rightarrow> constructOp option list \<Rightarrow> (string \<times> json) list \<Rightarrow> string response" where
  "wrappedConstructionPreprocess c ops md = guarded (cnServer c) (ConstructionPreprocess c ops md)"

definition wrappedConstructionSubmit :: "('db, 'k, 'sc) construct \<Rightarrow> string \<Rightarrow> string response" where
  "wrappedConstructionSubmit c txn = guarded (cnServer c) (ConstructionSubmit c txn)"

end
