(* ===== verification/ConstructionProps.thy ===== *)
theory ConstructionProps
  imports Construction ApiProps
begin

section \<open>Properties of the construction endpoints\<close>

text \<open>
  What leaves \<^verbatim>\<open>/construction/payloads\<close> comes back from \<^verbatim>\<open>/construction/parse\<close>, before
  and after \<^verbatim>\<open>/construction/combine\<close>, and what is signed is what is submitted.
\<close>

text \<open>
  What the endpoints rely on: the JSON encoding of a Cadence value decodes to the value, and a
  transaction message, which has no field that can be invalid, encodes to bytes that decode to it.
\<close>

definition codecs_ok :: "codecs \<Rightarrow> bool" where
  "codecs_ok K \<longleftrightarrow>
     (\<forall>v b. cdEncode K v = Inr b \<longrightarrow> cdDecode K b = Inr v) \<and>
     (\<forall>t. \<exists>b. cdMarshalTxn K t = Inr b \<and> cdUnmarshalTxn K b = Inr t)"

lemma codecs_decode: "codecs_ok K \<Longrightarrow> cdEncode K v = Inr b \<Longrightarrow> cdDecode K b = Inr v"
  by (simp add: codecs_ok_def)

lemma codecs_txn:
  assumes "codecs_ok K"
  obtains b where "cdMarshalTxn K t = Inr b" "cdUnmarshalTxn K b = Inr t"
  using assms unfolding codecs_ok_def by blast

lemma codecs_unmarshal: "codecs_ok K \<Longrightarrow> cdMarshalTxn K t = Inr b \<Longrightarrow> cdUnmarshalTxn K b = Inr t"
  by (metis codecs_txn sum.inject(2))

subsection \<open>The text of a transaction\<close>

definition flowText :: "bytes \<Rightarrow> string \<Rightarrow> string" where
  "flowText enc opts = hexEncode (txnTypeFlow # enc) @ '':'' @ opts"

lemma flowText_fold: "hexEncode (txnTypeFlow # enc) @ CHR '':'' # opts = flowText enc opts"
  by (simp add: flowText_def)

lemma hexDecode_no_colon:
  assumes "hexDecode s = Some bs"
  shows "CHR '':'' \<notin> set s"
proof
  assume "CHR '':'' \<in> set s"
  from hexDecode_chars [OF assms this] show False by (simp add: fromHexChar_def)
qed

lemma splitOn_flowText:
  "CHR '':'' \<notin> set opts \<Longrightarrow> splitOn CHR '':'' (flowText enc opts) = [hexEncode (txnTypeFlow # enc), opts]"
  unfolding flowText_def append_Cons append_Nil
  by (subst splitOn_two) (simp_all only: hexEncode_no_colon not_False_eq_True splitOn_none)

lemma decodeTransaction_flowText:
  assumes "CHR '':'' \<notin> set opts" and "cdUnmarshalTxn (cnCodecs c) enc = Inr t"
    and "isSigned \<longrightarrow> length (txEnvelopeSignatures t) = 1"
  shows "decodeTransaction c (flowText enc opts) isSigned = Ok (Inl t)"
  using assms by (simp add: decodeTransaction_def splitOn_flowText Let_def del: hexEncode.simps)

lemma decodeTransaction_innerText:
  "decodeTransaction c (hexEncode (txnTypeInner # body)) isSigned =
     andThen (decodeInner (txnTypeInner # body) isSigned) (\<lambda>inner. Ok (Inr inner))"
  by (simp add: decodeTransaction_def splitOn_none hexEncode_no_colon Let_def txnTypeFlow_def txnTypeInner_def
      del: hexEncode.simps)

text \<open>The signature that \<^verbatim>\<open>/construction/combine\<close> adds to a transaction.\<close>

definition signedBy :: "ProposalKey \<Rightarrow> bytes \<Rightarrow> Transaction \<Rightarrow> Transaction" where
  "signedBy key sig t =
     t\<lparr>txEnvelopeSignatures := [\<lparr>tsAddress = txPayer t, tsKeyId = pkKeyId key, tsSignature = take 64 sig\<rparr>]\<rparr>"

lemma combine_flowText:
  assumes K: "codecs_ok (cnCodecs c)" and opts: "CHR '':'' \<notin> set opts"
    and t: "cdMarshalTxn (cnCodecs c) t = Inr enc" "txProposalKey t = Some key" and sig: "64 \<le> length sig"
  obtains enc' where "ConstructionCombine c (flowText enc opts) [Some (sig, spare)] = Ok (flowText enc' opts)"
    and "decodeTransaction c (flowText enc' opts) True = Ok (Inl (signedBy key sig t))"
proof -
  obtain enc' where enc': "cdMarshalTxn (cnCodecs c) (signedBy key sig t) = Inr enc'"
      "cdUnmarshalTxn (cnCodecs c) enc' = Inr (signedBy key sig t)"
    using codecs_txn [OF K] by blast
  show thesis
  proof (rule that)
    have "decodeTransaction c (flowText enc opts) False = Ok (Inl t)"
      by (rule decodeTransaction_flowText [OF opts codecs_unmarshal [OF K t(1)]]) simp
    moreover have "firstBytes 64 (sig, spare) = Ok (take 64 sig)"
      using sig by (simp add: firstBytes_def)
    ultimately show "ConstructionCombine c (flowText enc opts) [Some (sig, spare)] = Ok (flowText enc' opts)"
      using t(2) enc'(1)
      by (simp add: ConstructionCombine_def Let_def splitOn_flowText [OF opts] signedBy_def flowText_fold
          del: hexEncode.simps)
    show "decodeTransaction c (flowText enc' opts) True = Ok (Inl (signedBy key sig t))"
      by (rule decodeTransaction_flowText [OF opts enc'(2)]) (simp add: signedBy_def)
  qed
qed

lemma getConstructOpts_raw:
  assumes "getConstructOpts c md = Ok (raw, opts)"
  shows "CHR '':'' \<notin> set raw"
proof -
  from assms obtain enc where "hexDecode raw = Some enc"
    by (auto simp: getConstructOpts_def split: option.splits json.splits sum.splits)
  then show ?thesis by (rule hexDecode_no_colon)
qed

lemma payloads_flow:
  assumes "ConstructionPayloads c md ops = Ok p" and "parseIntent c ops = Ok intent" and "\<not> tiInner intent"
  obtains raw opts script args enc where "getConstructOpts c md = Ok (raw, opts)"
    "CHR '':'' \<notin> set raw" "scriptAndArgs c opts intent = Ok (script, args)"
    "TransactionEnvelopeHash (cnHashing c) (payloadTransaction opts script args) = Ok (pyBytes p)"
    "cdMarshalTxn (cnCodecs c) (payloadTransaction opts script args) = Inr enc"
    "pyUnsigned p = flowText enc raw" "pyAddress p = addressText (coPayer opts)"
proof -
  from assms obtain raw opts where o: "getConstructOpts c md = Ok (raw, opts)"
    by (auto simp: ConstructionPayloads_def)
  from assms o obtain script args where sa: "scriptAndArgs c opts intent = Ok (script, args)"
    by (auto simp: ConstructionPayloads_def split: if_splits)
  let ?t = "payloadTransaction opts script args"
  show thesis
  proof (cases "cdMarshalTxn (cnCodecs c) ?t")
    case (Inl err)
    with assms o sa show thesis by (auto simp: ConstructionPayloads_def Let_def split: if_splits)
  next
    case (Inr enc)
    with assms o sa have "TransactionEnvelopeHash (cnHashing c) ?t = Ok (pyBytes p)"
      "pyUnsigned p = flowText enc raw" "pyAddress p = addressText (coPayer opts)"
      by (auto simp: ConstructionPayloads_def Let_def flowText_def split: if_splits)
    with Inr o sa getConstructOpts_raw [OF o] show thesis by (intro that)
  qed
qed

lemma envelope_hash_signedBy: "TransactionEnvelopeHash H (signedBy key sig t) = TransactionEnvelopeHash H t"
  by (simp add: TransactionEnvelopeHash_def deriveHash_def signedBy_def toFlowEnvelope_def toPayload_def
      split: option.split)

lemma payloadTransaction_fields [simp]:
  "txProposalKey (payloadTransaction opts script args) =
     Some \<lparr>pkAddress = coPayer opts, pkKeyId = coKeyId opts, pkSequenceNumber = coSequenceNumber opts\<rparr>"
  "txPayer (payloadTransaction opts script args) = coPayer opts"
  "txScript (payloadTransaction opts script args) = script"
  "txArguments (payloadTransaction opts script args) = args"
  "txEnvelopeSignatures (payloadTransaction opts script args) = []"
  by (simp_all add: payloadTransaction_def)

text \<open>The life of a Flow transaction: unsigned, combined with a signature, and signed.\<close>

lemma flow_cycle:
  assumes K: "codecs_ok (cnCodecs c)" and p: "ConstructionPayloads c md ops = Ok p"
    and it: "parseIntent c ops = Ok it" "\<not> tiInner it" and sig: "64 \<le> length sig"
  obtains raw opts script args t key stx where "getConstructOpts c md = Ok (raw, opts)"
    "scriptAndArgs c opts it = Ok (script, args)" "t = payloadTransaction opts script args"
    "key = \<lparr>pkAddress = coPayer opts, pkKeyId = coKeyId opts, pkSequenceNumber = coSequenceNumber opts\<rparr>"
    "TransactionEnvelopeHash (cnHashing c) t = Ok (pyBytes p)" "pyAddress p = addressText (coPayer opts)"
    "decodeTransaction c (pyUnsigned p) False = Ok (Inl t)"
    "ConstructionCombine c (pyUnsigned p) [Some (sig, spare)] = Ok stx"
    "decodeTransaction c stx True = Ok (Inl (signedBy key sig t))"
proof -
  obtain raw opts script args enc where o: "getConstructOpts c md = Ok (raw, opts)" "CHR '':'' \<notin> set raw"
    and sa: "scriptAndArgs c opts it = Ok (script, args)"
    and hash: "TransactionEnvelopeHash (cnHashing c) (payloadTransaction opts script args) = Ok (pyBytes p)"
    and enc: "cdMarshalTxn (cnCodecs c) (payloadTransaction opts script args) = Inr enc"
    and u: "pyUnsigned p = flowText enc raw" "pyAddress p = addressText (coPayer opts)"
    by (rule payloads_flow [OF p it])
  have "decodeTransaction c (flowText enc raw) False = Ok (Inl (payloadTransaction opts script args))"
    by (rule decodeTransaction_flowText [OF o(2) codecs_unmarshal [OF K enc]]) simp
  then show thesis
    using combine_flowText [OF K o(2) enc payloadTransaction_fields(1) sig, of spare] that o sa hash u by metis
qed

text \<open>
  C6. What is signed is what is submitted. For operations of every kind but inner transfers, the
  unsigned transaction of \<^verbatim>\<open>/construction/payloads\<close> decodes to a transaction whose payer is the
  account that has to sign, whose reference block, key and sequence number are those of the options, and
  whose envelope hash is the payload to sign. Combining it with a signature of at least 64 bytes
  succeeds; the result decodes to the same transaction with just that signature, has the same envelope
  hash, and is the transaction that \<^verbatim>\<open>/construction/submit\<close> hands to the access node.
\<close>

theorem signed_is_submitted:
  assumes K: "codecs_ok (cnCodecs c)" and p: "ConstructionPayloads c md ops = Ok p"
    and intent: "parseIntent c ops = Ok intent" "\<not> tiInner intent" and sig: "64 \<le> length sig"
  shows "\<exists>raw opts key t t' stx.
    getConstructOpts c md = Ok (raw, opts) \<and>
    key = \<lparr>pkAddress = coPayer opts, pkKeyId = coKeyId opts, pkSequenceNumber = coSequenceNumber opts\<rparr> \<and>
    decodeTransaction c (pyUnsigned p) False = Ok (Inl t) \<and>
    pyAddress p = addressText (txPayer t) \<and> txReferenceBlockId t = coBlockHash opts \<and> txProposalKey t = Some key \<and>
    TransactionEnvelopeHash (cnHashing c) t = Ok (pyBytes p) \<and>
    ConstructionCombine c (pyUnsigned p) [Some (sig, spare)] = Ok stx \<and>
    decodeTransaction c stx True = Ok (Inl t') \<and>
    t' = t\<lparr>txEnvelopeSignatures := [\<lparr>tsAddress = txPayer t, tsKeyId = pkKeyId key, tsSignature = take 64 sig\<rparr>]\<rparr> \<and>
    TransactionEnvelopeHash (cnHashing c) t' = Ok (pyBytes p) \<and>
    (\<not> svOffline (cnServer c) \<and> cnPing c 0 = None \<longrightarrow>
      ConstructionSubmit c stx =
        (case cnSendTransaction c 1 t' of
           Inr hash \<Rightarrow> Ok (hexEncode hash)
         | Inl err \<Rightarrow>
             (case TransactionHash (cnHashing c) t' of
                Ok hash \<Rightarrow> Err (submitError c stx (hexEncode hash) err)
              | Err _ \<Rightarrow> Err (submitError c stx [] err)
              | Panic m \<Rightarrow> Panic m
              | Fatal m \<Rightarrow> Fatal m)))"
proof -
  obtain raw opts script args t key stx where o: "getConstructOpts c md = Ok (raw, opts)"
    and t: "t = payloadTransaction opts script args"
    and key: "key = \<lparr>pkAddress = coPayer opts, pkKeyId = coKeyId opts, pkSequenceNumber = coSequenceNumber opts\<rparr>"
    and u: "TransactionEnvelopeHash (cnHashing c) t = Ok (pyBytes p)" "pyAddress p = addressText (coPayer opts)"
      "decodeTransaction c (pyUnsigned p) False = Ok (Inl t)"
      "ConstructionCombine c (pyUnsigned p) [Some (sig, spare)] = Ok stx"
      "decodeTransaction c stx True = Ok (Inl (signedBy key sig t))"
    by (rule flow_cycle [OF K p intent sig])
  have fields: "pyAddress p = addressText (txPayer t)"
      "txReferenceBlockId t = coBlockHash opts" "txProposalKey t = Some key"
    using u(2) by (simp_all add: t payloadTransaction_def key)
  have hash: "TransactionEnvelopeHash (cnHashing c) (signedBy key sig t) = Ok (pyBytes p)"
    using u(1) by (simp only: envelope_hash_signedBy)
  have submit: "\<not> svOffline (cnServer c) \<and> cnPing c 0 = None \<longrightarrow>
      ConstructionSubmit c stx =
        (case cnSendTransaction c 1 (signedBy key sig t) of
           Inr hash \<Rightarrow> Ok (hexEncode hash)
         | Inl err \<Rightarrow>
             (case TransactionHash (cnHashing c) (signedBy key sig t) of
                Ok hash \<Rightarrow> Err (submitError c stx (hexEncode hash) err)
              | Err _ \<Rightarrow> Err (submitError c stx [] err)
              | Panic m \<Rightarrow> Panic m
              | Fatal m \<Rightarrow> Fatal m))"
    by (simp add: ConstructionSubmit_def u(5))
  show ?thesis
    by (intro exI conjI) (rule o key u fields hash signedBy_def submit)+
qed

subsection \<open>Transfers\<close>

lemma encodeArg_Ok [simp]: "encodeArg K va = Ok b \<longleftrightarrow> cdEncode K (fst va) = Inr b"
  by (auto simp: encodeArg_def split: sum.splits)

lemma decodeArg_encoded:
  assumes "codecs_ok K" and "cdEncode K v = Inr (args ! i)" and "i < length args" and "assert v = Some x"
  shows "decodeArg K args i what assert bad = Ok x"
  using codecs_decode [OF assms(1,2)] assms(3,4) by (simp add: decodeArg_def)

lemma BytesToAddress_id [simp]: "length a = 8 \<Longrightarrow> BytesToAddress a = a"
  by (simp add: BytesToAddress_def)

lemma signedBy_fields [simp]:
  "txScript (signedBy key sig t) = txScript t" "txArguments (signedBy key sig t) = txArguments t"
  "txPayer (signedBy key sig t) = txPayer t"
  by (simp_all add: signedBy_def)

lemma decodeOps_signedBy [simp]:
  "decodeTransferOps c (signedBy key sig t) proxy s = decodeTransferOps c t proxy s"
  "decodeCreateAccountOps c (signedBy key sig t) proxy s = decodeCreateAccountOps c t proxy s"
  by (simp_all only: decodeTransferOps_def decodeCreateAccountOps_def argCount_def signedBy_fields)

lemma innerArgs_Ok:
  assumes "innerArgs c opts = Ok more_args"
  obtains nonce n sarg sg where "more_args = [nonce, sarg]" "cdEncode (cnCodecs c) (SVInt64 n) = Inr nonce"
    "cdEncode (cnCodecs c) (SVString sg) = Inr sarg"
proof -
  from assms obtain d where d: "decodeTransaction c (coProxyTransferPayload opts) True = Ok d"
    by (auto simp: innerArgs_def split: if_splits)
  with assms obtain inner where "d = Inr inner" by (cases d) (auto simp: innerArgs_def split: if_splits)
  with assms d show thesis by (auto simp: innerArgs_def split: if_splits intro: that)
qed

lemma transfer_parsed:
  assumes K: "codecs_ok (cnCodecs c)" and sa: "scriptAndArgs c opts intent = Ok (script, args)"
    and no: "tiKeys intent = []" "tiContractCode intent = []"
    and len: "length (tiSender intent) = 8" "length (tiReceiver intent) = 8"
  shows "script = (if tiProxy intent then cnScriptProxyTransfer c else cnScriptBasicTransfer c) \<and>
    decodeTransferOps c (payloadTransaction opts script args) (tiProxy intent) s =
      Ok \<lparr>prSigners = (if s then [addressText (coPayer opts)] else []),
          prOperations = transferPair (if tiProxy intent then opProxyTransfer else opTransfer)
            (if tiProxy intent then tiSender intent else coPayer opts) (tiReceiver intent) (tiAmount intent)\<rparr>"
proof (cases "tiProxy intent")
  case True
  from sa no len True obtain a0 a1 a2 more_args where args: "args = [a0, a1, a2] @ more_args"
      "cdEncode (cnCodecs c) (SVAddress (tiSender intent)) = Inr a0"
      "cdEncode (cnCodecs c) (SVAddress (tiReceiver intent)) = Inr a1"
      "cdEncode (cnCodecs c) (SVUFix64 (tiAmount intent)) = Inr a2"
      "innerArgs c opts = Ok more_args" and script: "script = cnScriptProxyTransfer c"
    by (auto simp: scriptAndArgs_def transferArgs_def)
  from args(5) obtain nonce n sarg sg where inner: "more_args = [nonce, sarg]"
      "cdEncode (cnCodecs c) (SVInt64 n) = Inr nonce" "cdEncode (cnCodecs c) (SVString sg) = Inr sarg"
    by (rule innerArgs_Ok)
  note dec = decodeArg_encoded [OF K, of _ args]
  have "decodeArg (cnCodecs c) args 0 w asAddress b = Ok (tiSender intent)" for w b
    by (rule dec [of "SVAddress (tiSender intent)"]) (simp_all add: args inner)
  moreover have "decodeArg (cnCodecs c) args 1 w asAddress b = Ok (tiReceiver intent)" for w b
    by (rule dec [of "SVAddress (tiReceiver intent)"]) (simp_all add: args inner)
  moreover have "decodeArg (cnCodecs c) args 2 w asUFix64 b = Ok (tiAmount intent)" for w b
    by (rule dec [of "SVUFix64 (tiAmount intent)"]) (simp_all add: args inner)
  moreover have "decodeArg (cnCodecs c) args 3 w asInt64 b = Ok n" for w b
    by (rule dec [of "SVInt64 n"]) (simp_all add: args inner)
  moreover have "decodeArg (cnCodecs c) args 4 w asString b = Ok sg" for w b
    by (rule dec [of "SVString sg"]) (simp_all add: args inner eval_nat_numeral)
  moreover have "length args = 5" by (simp add: args inner)
  ultimately show ?thesis using True script
    by (simp add: decodeTransferOps_def argCount_def txnOps_def Let_def nat_1_add_1 del: One_nat_def)
next
  case False
  with sa no len obtain a1 a2 where args: "args = [a1, a2]"
      "cdEncode (cnCodecs c) (SVAddress (tiReceiver intent)) = Inr a1"
      "cdEncode (cnCodecs c) (SVUFix64 (tiAmount intent)) = Inr a2" and script: "script = cnScriptBasicTransfer c"
    by (auto simp: scriptAndArgs_def transferArgs_def)
  note dec = decodeArg_encoded [OF K, of _ args]
  have "decodeArg (cnCodecs c) args 0 w asAddress b = Ok (tiReceiver intent)" for w b
    by (rule dec [of "SVAddress (tiReceiver intent)"]) (simp_all add: args)
  moreover have "decodeArg (cnCodecs c) args (Suc 0) w asUFix64 b = Ok (tiAmount intent)" for w b
    by (rule dec [of "SVUFix64 (tiAmount intent)"]) (simp_all add: args)
  moreover have "length args = 2" by (simp add: args)
  ultimately show ?thesis using False script
    by (simp add: decodeTransferOps_def argCount_def txnOps_def Let_def)
qed

text \<open>The layout of an inner transaction: type, amount, nonce, receiver and sender.\<close>

definition innerBytes :: "u64 \<Rightarrow> u64 \<Rightarrow> bytes \<Rightarrow> bytes \<Rightarrow> bytes" where
  "innerBytes amount nonce receiver sender = [txnTypeInner] @ putU64 amount @ putU64 nonce @ receiver @ sender"

lemma length_innerBytes [simp]:
  "length receiver = 8 \<Longrightarrow> length sender = 8 \<Longrightarrow> length (innerBytes amount nonce receiver sender) = 33"
  by (simp add: innerBytes_def)

lemma copyAt_over: "length pre = i \<Longrightarrow> length mid = length src \<Longrightarrow> copyAt i src (pre @ mid @ post) = pre @ src @ post"
  by (simp add: copyAt_def)

lemma innerPayload_unsigned:
  assumes "length (tiReceiver it) = 8" "length (tiSender it) = 8"
  shows "pyUnsigned (innerPayload H it seq) =
    hexEncode (innerBytes (tiAmount it) seq (tiReceiver it) (tiSender it))"
proof -
  let ?z = "replicate 8 0 :: bytes"
  let ?h = "[txnTypeInner]" and ?a = "putU64 (tiAmount it)" and ?n = "putU64 seq"
  have "(replicate 33 0)[0 := txnTypeInner] = ?h @ ?z @ (?z @ ?z @ ?z)"
    by (simp add: eval_nat_numeral)
  moreover have "copyAt 1 ?a (?h @ ?z @ (?z @ ?z @ ?z)) = ?h @ ?a @ (?z @ ?z @ ?z)"
    by (rule copyAt_over) simp_all
  moreover have "copyAt 9 ?n ((?h @ ?a) @ ?z @ (?z @ ?z)) = (?h @ ?a) @ ?n @ (?z @ ?z)"
    by (rule copyAt_over) simp_all
  moreover have "copyAt 17 (tiReceiver it) ((?h @ ?a @ ?n) @ ?z @ ?z) = (?h @ ?a @ ?n) @ tiReceiver it @ ?z"
    by (rule copyAt_over) (simp_all add: assms)
  moreover have "copyAt 25 (tiSender it) ((?h @ ?a @ ?n @ tiReceiver it) @ ?z @ []) =
      (?h @ ?a @ ?n @ tiReceiver it) @ tiSender it @ []"
    by (rule copyAt_over) (simp_all add: assms)
  ultimately show ?thesis
    by (simp only: innerPayload_def Let_def payloadsResponse.select_convs append_assoc append_Nil2 innerBytes_def)
qed

lemma decodeInner_innerBytes:
  assumes "length receiver = 8" "length sender = 8" "length sig = (if s then 64 else 0)"
  shows "decodeInner (innerBytes amount nonce receiver sender @ sig) s =
    Ok \<lparr>inAmount = amount, inNonce = nonce, inRaw = innerBytes amount nonce receiver sender @ sig,
        inReceiver = receiver, inSender = sender\<rparr>"
proof -
  let ?raw = "innerBytes amount nonce receiver sender @ sig"
  have "getU64 (drop 1 ?raw) = Ok amount" by (simp add: innerBytes_def)
  moreover have "getU64 (drop 9 ?raw) = Ok nonce" by (simp add: innerBytes_def)
  moreover have "subslice ?raw 17 25 = Ok receiver" "subslice ?raw 25 33 = Ok sender"
    using assms by (simp_all add: innerBytes_def subslice_def)
  ultimately show ?thesis using assms by (cases s) (simp_all add: decodeInner_def)
qed

lemma decode_innerBytes:
  assumes "length receiver = 8" "length sender = 8" "length sig = (if s then 64 else 0)"
  shows "decodeTransaction c (hexEncode (innerBytes amount nonce receiver sender @ sig)) s =
    Ok (Inr \<lparr>inAmount = amount, inNonce = nonce, inRaw = innerBytes amount nonce receiver sender @ sig,
        inReceiver = receiver, inSender = sender\<rparr>)"
  using decodeTransaction_innerText [of c "putU64 amount @ putU64 nonce @ receiver @ sender @ sig" s]
    decodeInner_innerBytes [OF assms, of amount nonce]
  by (simp add: innerBytes_def del: hexEncode.simps)

lemma inner_cycle:
  assumes "length receiver = 8" "length sender = 8" "64 \<le> length sig"
  shows "ConstructionParse c (hexEncode (innerBytes amount nonce receiver sender)) False =
      Ok \<lparr>prSigners = [], prOperations = transferPair opProxyTransferInner sender receiver amount\<rparr>"
    and "ConstructionCombine c (hexEncode (innerBytes amount nonce receiver sender)) [Some (sig, spare)] =
      Ok (hexEncode (innerBytes amount nonce receiver sender @ take 64 sig))"
    and "ConstructionParse c (hexEncode (innerBytes amount nonce receiver sender @ take 64 sig)) True =
      Ok \<lparr>prSigners = [addressText sender], prOperations = transferPair opProxyTransferInner sender receiver amount\<rparr>"
proof -
  have u: "decodeTransaction c (hexEncode (innerBytes amount nonce receiver sender)) False =
      Ok (Inr \<lparr>inAmount = amount, inNonce = nonce, inRaw = innerBytes amount nonce receiver sender,
        inReceiver = receiver, inSender = sender\<rparr>)"
    using decode_innerBytes [of receiver sender "[]" False] assms by simp
  then show "ConstructionParse c (hexEncode (innerBytes amount nonce receiver sender)) False =
      Ok \<lparr>prSigners = [], prOperations = transferPair opProxyTransferInner sender receiver amount\<rparr>"
    by (simp add: ConstructionParse_def txnOps_def)
  show "ConstructionCombine c (hexEncode (innerBytes amount nonce receiver sender)) [Some (sig, spare)] =
      Ok (hexEncode (innerBytes amount nonce receiver sender @ take 64 sig))"
    using u assms by (simp add: ConstructionCombine_def firstBytes_def)
  show "ConstructionParse c (hexEncode (innerBytes amount nonce receiver sender @ take 64 sig)) True =
      Ok \<lparr>prSigners = [addressText sender], prOperations = transferPair opProxyTransferInner sender receiver amount\<rparr>"
    using decode_innerBytes [of receiver sender "take 64 sig" True c amount nonce] assms
    by (simp add: ConstructionParse_def txnOps_def)
qed

lemma sameType_Ok: "sameType T k ops = Ok rs \<Longrightarrow> rs = map the ops \<and> (\<forall>r \<in> set rs. qoType r = k)"
  by (induction T k ops arbitrary: rs rule: sameType.induct) (auto split: if_splits)

text \<open>The types of the operations are six distinct texts.\<close>

lemmas op_types = opTransfer_def opProxyTransfer_def opProxyTransferInner_def opCreateAccount_def
  opCreateProxyAccount_def opDeployContract_def opUpdateContract_def

lemma parseIntent_transfer:
  assumes "parseIntent c (Some op0 # ops) = Ok it" and kind: "qoType op0 \<in> {opTransfer, opProxyTransfer, opProxyTransferInner}"
    and "cdMatchOperations (cnCodecs c) (qoType op0) (op0 # map the ops) = Inr ((sop, x), (rop, amount))"
    and "qoAccount sop = Some (addressText sender)" "qoAccount rop = Some (addressText receiver)"
    and "length sender = 8" "length receiver = 8"
  shows "it = zeroIntent\<lparr>tiSender := sender, tiAmount := of_int amount, tiReceiver := receiver,
      tiProxy := (qoType op0 = opProxyTransfer), tiInner := (qoType op0 = opProxyTransferInner)\<rparr>"
proof -
  from assms(1) obtain rs where rs: "sameType (cnTexts c) (qoType op0) (Some op0 # ops) = Ok rs"
    by (auto simp: parseIntent_def Let_def)
  from sameType_Ok [OF this] have "rs = op0 # map the ops" by simp
  with rs assms have "transferIntent c (qoType op0) (op0 # map the ops) = Ok it"
    by (auto simp: parseIntent_def Let_def op_types simp del: sameType.simps)
  with assms(3-) show ?thesis
    by (simp add: transferIntent_def matchedAccount_def getAccount_addressText)
qed

text \<open>
  C11. Transfers survive the round trip through the construction endpoints. Let a request hold the two
  operations of a transfer, of a proxy transfer or of an inner transfer, which the SDK matches to a
  sender, a receiver and an amount that fits in 64 bits, and for a plain transfer let the payer be the
  sender. If \<^verbatim>\<open>/construction/payloads\<close> succeeds, then \<^verbatim>\<open>/construction/parse\<close> of the
  unsigned transaction gives back the sender, the receiver, the amount and the type; combining with a
  signature succeeds, and parsing the signed transaction gives the same operations, with the account
  that was asked to sign as the signer.
\<close>

theorem transfer_roundtrip:
  assumes K: "codecs_ok (cnCodecs c)" and scripts: "cnScriptProxyTransfer c \<noteq> cnScriptBasicTransfer c"
    and p: "ConstructionPayloads c md (Some op0 # ops) = Ok p"
    and kind: "qoType op0 \<in> {opTransfer, opProxyTransfer, opProxyTransferInner}"
    and matched: "cdMatchOperations (cnCodecs c) (qoType op0) (op0 # map the ops) = Inr ((sop, x), (rop, amount))"
    and accounts: "qoAccount sop = Some (addressText sender)" "qoAccount rop = Some (addressText receiver)"
      "length sender = 8" "length receiver = 8"
    and fits: "0 \<le> amount" "amount < 2 ^ 64"
    and payer: "qoType op0 = opTransfer \<Longrightarrow> \<exists>raw opts. getConstructOpts c md = Ok (raw, opts) \<and> coPayer opts = sender"
    and sig: "64 \<le> length sig"
  shows "\<exists>w stx. uint w = amount \<and>
    ConstructionParse c (pyUnsigned p) False =
      Ok \<lparr>prSigners = [], prOperations = transferPair (qoType op0) sender receiver w\<rparr> \<and>
    ConstructionCombine c (pyUnsigned p) [Some (sig, spare)] = Ok stx \<and>
    ConstructionParse c stx True =
      Ok \<lparr>prSigners = [pyAddress p], prOperations = transferPair (qoType op0) sender receiver w\<rparr>"
proof -
  define w :: u64 where "w = of_int amount"
  have w: "uint w = amount" using fits by (simp add: w_def uint_word_of_int)
  from p obtain it where it: "parseIntent c (Some op0 # ops) = Ok it" by (auto simp: ConstructionPayloads_def)
  note intent = parseIntent_transfer [OF it kind matched accounts]
  show ?thesis
  proof (cases "qoType op0 = opProxyTransferInner")
    case True
    with p it intent obtain seq where pp: "p = innerPayload (cnHashing c) it seq"
      by (auto simp: ConstructionPayloads_def split: if_splits)
    have "pyUnsigned p = hexEncode (innerBytes w seq receiver sender)"
      unfolding pp using intent accounts by (subst innerPayload_unsigned) (simp_all add: w_def)
    moreover have "pyAddress p = addressText sender" by (simp add: pp innerPayload_def intent Let_def)
    ultimately show ?thesis using True w
      by (intro exI [of _ w]) (simp add: inner_cycle [OF accounts(4,3) sig])
  next
    case False
    with intent have ni: "\<not> tiInner it" by simp
    obtain raw opts script args t key stx where o: "getConstructOpts c md = Ok (raw, opts)"
      and sa: "scriptAndArgs c opts it = Ok (script, args)" and t: "t = payloadTransaction opts script args"
      and u: "pyAddress p = addressText (coPayer opts)" "decodeTransaction c (pyUnsigned p) False = Ok (Inl t)"
        "ConstructionCombine c (pyUnsigned p) [Some (sig, spare)] = Ok stx"
        "decodeTransaction c stx True = Ok (Inl (signedBy key sig t))"
      by (rule flow_cycle [OF K p it ni sig])
    have from_sender: "(if tiProxy it then tiSender it else coPayer opts) = sender"
      using payer o kind False intent by auto
    note parsed = transfer_parsed [OF K sa, unfolded from_sender]
    show ?thesis
      using parsed [of False] parsed [of True] intent accounts scripts t u w kind False
      by (auto simp: ConstructionParse_def w_def zeroIntent_def op_types)
  qed
qed

subsection \<open>Account creations\<close>

lemma accountKeyOf_created:
  assumes S: "pubkey_ok (cnCurve c)" and k: "accountKeyOf c opr = Ok k" and len: "length key = 33"
    and md: "map_of (qoMetadata opr) ''public_key'' = Some (JString (hexEncode key))"
  shows "createdKey c k = Ok key"
proof -
  from k md obtain pub where pub: "ConvertRosettaPublicKey (cnCurve c) key = Ok pub" "k = hexEncode pub"
    by (auto simp: accountKeyOf_def mdString_def mdField_def)
  then obtain kk where "ParsePubKey (cnCurve c) key = Inr kk"
    by (auto simp: ConvertRosettaPublicKey_def split: sum.splits)
  from converted_key [OF S len this] pub show ?thesis by (auto simp: createdKey_def)
qed

lemma accountKeys_created:
  assumes S: "pubkey_ok (cnCurve c)"
  shows "mapOutcome (accountKeyOf c) ops = Ok ks \<Longrightarrow> list_all (\<lambda>key. length key = 33) keys \<Longrightarrow>
    map (\<lambda>opr. map_of (qoMetadata opr) ''public_key'') ops = map (\<lambda>key. Some (JString (hexEncode key))) keys \<Longrightarrow>
    mapOutcome (createdKey c) ks = Ok keys"
proof (induction ops arbitrary: ks keys)
  case (Cons opr ops)
  then obtain k ks' key keys' where "ks = k # ks'" "keys = key # keys'" "accountKeyOf c opr = Ok k"
      "mapOutcome (accountKeyOf c) ops = Ok ks'" by (cases keys) auto
  with Cons accountKeyOf_created [OF S] show ?case by auto
qed simp

definition createdOps :: "string \<Rightarrow> nat \<Rightarrow> bytes list \<Rightarrow> constructOp list" where
  "createdOps k n keys = map (\<lambda>(i, key). createOp k i key) (List.enumerate n keys)"

lemma createOpsLoop_created:
  "mapOutcome (createdKey c) ks = Ok keys \<Longrightarrow>
     createOpsLoop c (map SVString ks) ops = Ok (ops @ createdOps opCreateAccount (length ops) keys)"
proof (induction ks arbitrary: keys ops)
  case (Cons k ks)
  then obtain key keys' where k: "keys = key # keys'" "createdKey c k = Ok key" "mapOutcome (createdKey c) ks = Ok keys'"
    by auto
  from Cons.IH [OF k(3), of "ops @ [createOp opCreateAccount (length ops) key]"] k show ?case
    by (simp add: createdOps_def)
qed (simp add: createdOps_def)

lemma accounts_parsed:
  assumes K: "codecs_ok (cnCodecs c)" and sa: "scriptAndArgs c opts it = Ok (script, args)"
    and ks: "tiKeys it = ks" "ks \<noteq> []" "tiProxy it \<Longrightarrow> length ks = 1" and created: "mapOutcome (createdKey c) ks = Ok keys"
  shows "script = (if tiProxy it then cnScriptCreateProxyAccount c else cnScriptCreateAccount c) \<and>
    decodeCreateAccountOps c (payloadTransaction opts script args) (tiProxy it) s =
      Ok \<lparr>prSigners = (if s then [addressText (coPayer opts)] else []),
          prOperations = createdOps (if tiProxy it then opCreateProxyAccount else opCreateAccount) 0 keys\<rparr>"
proof (cases "tiProxy it")
  case True
  with ks(3) obtain k where k: "ks = [k]" by (cases ks) auto
  with created obtain key where key: "keys = [key]" "createdKey c k = Ok key" by auto
  from sa ks k True obtain a where a: "args = [a]" "cdEncode (cnCodecs c) (SVString k) = Inr a"
      "script = cnScriptCreateProxyAccount c"
    by (auto simp: scriptAndArgs_def accountArgs_def)
  have "decodeArg (cnCodecs c) args 0 w asString b = Ok k" for w b
    by (rule decodeArg_encoded [OF K, of "SVString k"]) (simp_all add: a)
  with True a key show ?thesis
    by (simp add: decodeCreateAccountOps_def argCount_def txnOps_def createdOps_def)
next
  case False
  with sa ks obtain a where a: "args = [a]" "cdEncode (cnCodecs c) (SVArray (map SVString ks)) = Inr a"
      "script = cnScriptCreateAccount c"
    by (auto simp: scriptAndArgs_def accountArgs_def)
  have "decodeArg (cnCodecs c) args 0 w asArray b = Ok (map SVString ks)" for w b
    by (rule decodeArg_encoded [OF K, of "SVArray (map SVString ks)"]) (simp_all add: a)
  with False a createOpsLoop_created [OF created, of "[]"] show ?thesis
    by (simp add: decodeCreateAccountOps_def argCount_def txnOps_def)
qed

lemma mapOutcome_length: "mapOutcome f xs = Ok ys \<Longrightarrow> length ys = length xs"
  by (induction xs arbitrary: ys) auto

lemma parseIntent_account:
  assumes "parseIntent c (map Some ops) = Ok it" and "ops \<noteq> []"
    and kind: "qoType (hd ops) \<in> {opCreateAccount, opCreateProxyAccount}"
  obtains "mapOutcome (accountKeyOf c) ops = Ok (tiKeys it)" "\<not> tiInner it"
    "tiProxy it = (qoType (hd ops) = opCreateProxyAccount)" "tiProxy it \<Longrightarrow> length (tiKeys it) = 1"
proof -
  from assms(2) obtain op0 rest where ops: "ops = op0 # rest" by (cases ops) auto
  from assms(1) obtain rs where rs: "sameType (cnTexts c) (qoType op0) (map Some ops) = Ok rs"
    by (auto simp: parseIntent_def Let_def ops)
  from sameType_Ok [OF this] have "rs = ops" by (simp add: comp_def)
  with rs assms ops have "accountIntent c (qoType op0) ops = Ok it"
    by (auto simp: parseIntent_def Let_def simp del: sameType.simps)
  then show thesis
    using ops by (intro that)
      (auto simp: accountIntent_def severalOps_def zeroIntent_def dest: mapOutcome_length split: if_splits)
qed

text \<open>
  C20. Account creations survive the round trip. If \<^verbatim>\<open>/construction/payloads\<close> succeeds for
  operations that create accounts, or one proxy account, with compressed public keys, then
  \<^verbatim>\<open>/construction/parse\<close> of the unsigned transaction gives back an operation of the same type
  for every key, in order and with the same key, although the script carries the keys in Flow's format;
  combining with a signature succeeds, and the signed transaction parses to the same operations with the
  account that was asked to sign as the signer.
\<close>

theorem account_roundtrip:
  assumes K: "codecs_ok (cnCodecs c)" and S: "pubkey_ok (cnCurve c)"
    and scripts: "distinct [cnScriptBasicTransfer c, cnScriptProxyTransfer c, cnScriptCreateAccount c,
      cnScriptCreateProxyAccount c]"
    and p: "ConstructionPayloads c md (map Some ops) = Ok p" and ops: "ops \<noteq> []"
    and kind: "qoType (hd ops) \<in> {opCreateAccount, opCreateProxyAccount}"
    and keys: "list_all (\<lambda>key. length key = 33) keys"
      "map (\<lambda>opr. map_of (qoMetadata opr) ''public_key'') ops = map (\<lambda>key. Some (JString (hexEncode key))) keys"
    and sig: "64 \<le> length sig"
  shows "\<exists>stx. ConstructionParse c (pyUnsigned p) False =
      Ok \<lparr>prSigners = [], prOperations = createdOps (qoType (hd ops)) 0 keys\<rparr> \<and>
    ConstructionCombine c (pyUnsigned p) [Some (sig, spare)] = Ok stx \<and>
    ConstructionParse c stx True =
      Ok \<lparr>prSigners = [pyAddress p], prOperations = createdOps (qoType (hd ops)) 0 keys\<rparr>"
proof -
  from p obtain it where it: "parseIntent c (map Some ops) = Ok it" by (auto simp: ConstructionPayloads_def)
  from it ops kind have ks: "mapOutcome (accountKeyOf c) ops = Ok (tiKeys it)" and ni: "\<not> tiInner it"
    and px: "tiProxy it = (qoType (hd ops) = opCreateProxyAccount)" "tiProxy it \<Longrightarrow> length (tiKeys it) = 1"
    by (blast elim: parseIntent_account)+
  obtain raw opts script args t key stx where sa: "scriptAndArgs c opts it = Ok (script, args)"
    and u: "t = payloadTransaction opts script args" "pyAddress p = addressText (coPayer opts)"
      "decodeTransaction c (pyUnsigned p) False = Ok (Inl t)"
      "ConstructionCombine c (pyUnsigned p) [Some (sig, spare)] = Ok stx"
      "decodeTransaction c stx True = Ok (Inl (signedBy key sig t))"
    by (rule flow_cycle [OF K p it ni sig])
  have ne: "tiKeys it \<noteq> []" using mapOutcome_length [OF ks] ops by auto
  have k: "qoType (hd ops) = (if tiProxy it then opCreateProxyAccount else opCreateAccount)"
    using kind px(1) by auto
  note parsed = accounts_parsed [OF K sa refl ne px(2) accountKeys_created [OF S ks keys]]
  from parsed [of False] parsed [of True] u scripts show ?thesis
    unfolding k by (cases "tiProxy it") (auto simp: ConstructionParse_def)
qed

subsection \<open>A proxy transfer without an inner transaction\<close>

text \<open>
  C39. A request crashes its handler. For a proxy transfer whose option \<^verbatim>\<open>proxy_transfer_payload\<close> is a
  signed Flow transaction instead of a signed inner one, \<^verbatim>\<open>/construction/payloads\<close> panics with a nil
  dereference, whatever the operations and the other options are; no endpoint before it checks the option.
\<close>

theorem proxy_payload_panics:
  assumes opts: "getConstructOpts c md = Ok (raw, opts)" "0 \<le> sint (coSequenceNumber opts)"
    and payload: "decodeTransaction c (coProxyTransferPayload opts) True = Ok (Inl t)"
    and it: "parseIntent c ops = Ok it" "tiProxy it" "\<not> tiInner it" "tiKeys it = []" "tiContractCode it = []"
    and enc: "cdEncode (cnCodecs c) (SVAddress (BytesToAddress (tiSender it))) = Inr b0"
      "cdEncode (cnCodecs c) (SVAddress (BytesToAddress (tiReceiver it))) = Inr b1"
      "cdEncode (cnCodecs c) (SVUFix64 (tiAmount it)) = Inr b2"
  shows "ConstructionPayloads c md ops = Panic ''nil pointer dereference''"
proof -
  have "coProxyTransferPayload opts \<noteq> []"
    using payload by (auto simp: decodeTransaction_def)
  with payload have "innerArgs c opts = Panic ''nil pointer dereference''"
    by (simp add: innerArgs_def del: andThen_Ok_iff andThen_Ok_rev)
  then have "scriptAndArgs c opts it = Panic ''nil pointer dereference''"
    using it enc by (simp add: scriptAndArgs_def transferArgs_def encodeArg_def del: andThen_Ok_iff andThen_Ok_rev)
  then show ?thesis
    using opts it by (simp add: ConstructionPayloads_def del: andThen_Ok_iff andThen_Ok_rev)
qed

subsection \<open>Witnesses\<close>

text \<open>An encoding of lists of byte strings, and of transactions.\<close>

fun chunks :: "bytes list \<Rightarrow> bytes" where
  "chunks [] = []"
| "chunks (x # xs) = delimit x @ chunks xs"

fun unchunks :: "nat \<Rightarrow> bytes \<Rightarrow> bytes list" where
  "unchunks 0 bs = []"
| "unchunks (Suc n) bs = (case undelimit bs of None \<Rightarrow> [] | Some (x, r) \<Rightarrow> x # unchunks n r)"

definition parts :: "bytes \<Rightarrow> bytes list" where
  "parts bs = unchunks (length bs) bs"

lemma unchunks_chunks: "length xs \<le> n \<Longrightarrow> unchunks n (chunks xs) = xs"
proof (induction xs arbitrary: n)
  case Nil
  then show ?case by (cases n) auto
next
  case (Cons x xs)
  then obtain m where "n = Suc m" "length xs \<le> m" by (cases n) auto
  with Cons show ?case by simp
qed

lemma length_chunks: "length xs \<le> length (chunks xs)"
proof (induction xs)
  case (Cons x xs)
  moreover have "0 < length (delimit x)" by (cases x) auto
  ultimately show ?case by (simp only: chunks.simps length_append list.size)
qed simp

lemma parts_chunks [simp]: "parts (chunks xs) = xs"
  by (simp add: parts_def unchunks_chunks length_chunks)

definition sigEnc :: "TransactionSignature \<Rightarrow> bytes" where
  "sigEnc g = chunks [tsAddress g, putU64 (ucast (tsKeyId g)), tsSignature g]"

definition sigDec :: "bytes \<Rightarrow> TransactionSignature" where
  "sigDec bs =
     (let xs = parts bs in \<lparr>tsAddress = xs ! 0, tsKeyId = of_nat (be_nat (xs ! 1)), tsSignature = xs ! 2\<rparr>)"

definition keyEnc :: "ProposalKey option \<Rightarrow> bytes" where
  "keyEnc k =
     (case k of None \<Rightarrow> []
      | Some k \<Rightarrow> chunks [pkAddress k, putU64 (ucast (pkKeyId k)), putU64 (pkSequenceNumber k)])"

definition keyDec :: "bytes \<Rightarrow> ProposalKey option" where
  "keyDec bs =
     (if bs = [] then None
      else (let xs = parts bs in Some \<lparr>pkAddress = xs ! 0, pkKeyId = of_nat (be_nat (xs ! 1)),
              pkSequenceNumber = of_nat (be_nat (xs ! 2))\<rparr>))"

definition txnEnc :: "Transaction \<Rightarrow> bytes" where
  "txnEnc t =
     chunks [txScript t, chunks (txArguments t), txReferenceBlockId t, putU64 (txGasLimit t), keyEnc (txProposalKey t),
       txPayer t, chunks (txAuthorizers t), chunks (map sigEnc (txPayloadSignatures t)),
       chunks (map sigEnc (txEnvelopeSignatures t))]"

definition txnDec :: "bytes \<Rightarrow> Transaction" where
  "txnDec bs =
     (let xs = parts bs in
      \<lparr>txScript = xs ! 0, txArguments = parts (xs ! 1), txReferenceBlockId = xs ! 2,
       txGasLimit = of_nat (be_nat (xs ! 3)), txProposalKey = keyDec (xs ! 4), txPayer = xs ! 5,
       txAuthorizers = parts (xs ! 6), txPayloadSignatures = map sigDec (parts (xs ! 7)),
       txEnvelopeSignatures = map sigDec (parts (xs ! 8))\<rparr>)"

lemma be_nat_putU64 [simp]: "be_nat (putU64 w) = unat w"
  using unsigned_less [of w, where 'a = nat] by (simp add: putU64_def be_nat_be_bytes)

lemma ucast_key [simp]: "(ucast (ucast (k :: u32) :: u64) :: u32) = k"
  by transfer simp

lemma sigDec_sigEnc [simp]: "sigDec (sigEnc g) = g"
  unfolding sigDec_def sigEnc_def parts_chunks Let_def by simp

lemma keyDec_keyEnc [simp]: "keyDec (keyEnc k) = k"
proof (cases k)
  case (Some key)
  have "delimit (pkAddress key) \<noteq> []" by (cases "pkAddress key") auto
  then have "chunks (pkAddress key # xs) \<noteq> []" for xs by simp
  then show ?thesis using Some
    unfolding keyDec_def keyEnc_def by (simp add: Let_def del: chunks.simps)
qed (simp add: keyDec_def keyEnc_def)

lemma txnDec_txnEnc [simp]: "txnDec (txnEnc t) = t"
  unfolding txnDec_def txnEnc_def parts_chunks Let_def
  by (simp add: comp_def)

definition strBytes :: "string \<Rightarrow> bytes" where
  "strBytes x = map of_char x"

definition bytesStr :: "bytes \<Rightarrow> string" where
  "bytesStr bs = map (\<lambda>b. char_of (unat b)) bs"

lemma bytesStr_strBytes [simp]: "bytesStr (strBytes x) = x"
proof -
  have "unat (of_char ch :: byte) = (of_char ch :: nat)" for ch
    by (metis of_nat_of_char unat_of_nat_byte of_char_mod_256)
  then show ?thesis by (simp add: bytesStr_def strBytes_def comp_def)
qed

text \<open>Codecs for the values of the examples; the matching reads the two amounts.\<close>

fun sampleEncode :: "scriptValue \<Rightarrow> (string, bytes) sum" where
  "sampleEncode (SVAddress a) = Inr (1 # a)"
| "sampleEncode (SVUFix64 w) = Inr (2 # putU64 w)"
| "sampleEncode (SVString x) = Inr (3 # strBytes x)"
| "sampleEncode (SVArray vs) =
     (if list_all (\<lambda>v. asString v \<noteq> None) vs then Inr (4 # chunks (map (\<lambda>v. strBytes (the (asString v))) vs))
      else Inl ''unsupported value'')"
| "sampleEncode _ = Inl ''unsupported value''"

fun sampleDecode :: "bytes \<Rightarrow> (string, scriptValue) sum" where
  "sampleDecode [] = Inl ''empty''"
| "sampleDecode (k # b) =
     Inr (if k = 1 then SVAddress b else if k = 2 then SVUFix64 (of_nat (be_nat b))
          else if k = 3 then SVString (bytesStr b) else SVArray (map (\<lambda>x. SVString (bytesStr x)) (parts b)))"

definition sampleMatch ::
    "string \<Rightarrow> constructOp list \<Rightarrow> (string, (constructOp \<times> int) \<times> (constructOp \<times> int)) sum" where
  "sampleMatch k ops =
     (case ops of
        [a, b] \<Rightarrow>
          (case (Option.bind (qoAmount a) (parseInt64 \<circ> fst), Option.bind (qoAmount b) (parseInt64 \<circ> fst)) of
             (Some i, Some j) \<Rightarrow> if i < 0 \<and> 0 < j then Inr ((a, i), (b, j)) else Inl ''no match''
           | _ \<Rightarrow> Inl ''no match'')
      | _ \<Rightarrow> Inl ''no match'')"

definition sampleCodecs :: "ConstructOpts \<Rightarrow> codecs" where
  "sampleCodecs opts =
     \<lparr>cdEncode = sampleEncode, cdDecode = sampleDecode, cdMarshalTxn = (\<lambda>t. Inr (txnEnc t)),
      cdUnmarshalTxn = (\<lambda>b. Inr (txnDec b)), cdMarshalOpts = (\<lambda>_. Inr []), cdUnmarshalOpts = (\<lambda>_. Inr opts),
      cdMatchOperations = sampleMatch, cdFloatOverflow = (\<lambda>_ _. 0)\<rparr>"

lemma sampleDecode_array:
  "list_all (\<lambda>v. asString v \<noteq> None) vs \<Longrightarrow> map (\<lambda>v. SVString (the (asString v))) vs = vs"
proof (induction vs)
  case (Cons v vs)
  then show ?case by (cases v) auto
qed simp

lemma sampleCodecs_ok: "codecs_ok (sampleCodecs opts)"
proof -
  have "sampleDecode b = Inr v" if "sampleEncode v = Inr b" for v b
    using that sampleDecode_array
    by (cases v) (auto simp: comp_def split: if_splits)
  then show ?thesis by (simp add: codecs_ok_def sampleCodecs_def)
qed

definition sampleOpts :: "string \<Rightarrow> ConstructOpts" where
  "sampleOpts payload =
     \<lparr>coBlockHash = [9], coBlockHashFromRemote = False, coBlockHashRemoteServer = [], coExecutionEffort = 80,
      coFees = 0, coKeyId = 0, coInclusionEffort = 100, coInner = False, coNewAccounts = 0, coPayer = alice,
      coProxyTransferPayload = payload, coSequenceNumber = 3\<rparr>"

definition sampleConstruct :: "string \<Rightarrow> ((bytes \<times> bytes) list, bool, nat) construct" where
  "sampleConstruct payload =
     \<lparr>cnServer = sampleServer, cnNodes = sampleNodes, cnPing = (\<lambda>_. None), cnSendTransaction = (\<lambda>_ _. Inr [7]),
      cnServerAddress = [], cnScriptBasicTransfer = [1], cnScriptComputeFees = [2], cnScriptCreateAccount = [3],
      cnScriptCreateProxyAccount = [4], cnScriptProxyTransfer = [5], cnScriptSetContract = [6],
      cnHashing = sampleHashing, cnCurve = sampleSecp, cnCodecs = sampleCodecs (sampleOpts payload)\<rparr>"

definition sampleMetadata :: "(string \<times> json) list" where
  "sampleMetadata = [(''protobuf'', JString [])]"

lemma sampleConstruct_opts: "getConstructOpts (sampleConstruct pl) sampleMetadata = Ok ([], sampleOpts pl)"
  by (simp add: getConstructOpts_def sampleMetadata_def sampleConstruct_def sampleCodecs_def)

lemma sampleConstruct_match:
  "sampleMatch k [transferPair k alice bob 5 ! 0, transferPair k alice bob 5 ! 1] =
     Inr ((transferPair k alice bob 5 ! 0, - 5), (transferPair k alice bob 5 ! 1, 5))"
proof -
  have "formatUint 5 = ''5''" "parseInt64 ''-5'' = Some (- 5)" "parseInt64 ''5'' = Some 5" by code_simp+
  then show ?thesis by (simp add: sampleMatch_def transferPair_def)
qed

lemma sample_fields [simp]:
  "cnServer (sampleConstruct pl) = sampleServer" "cnHashing (sampleConstruct pl) = sampleHashing"
  "cnCurve (sampleConstruct pl) = sampleSecp" "cnCodecs (sampleConstruct pl) = sampleCodecs (sampleOpts pl)"
  "cnScriptBasicTransfer (sampleConstruct pl) = [1]" "cnScriptProxyTransfer (sampleConstruct pl) = [5]"
  "cnScriptCreateAccount (sampleConstruct pl) = [3]" "cnScriptCreateProxyAccount (sampleConstruct pl) = [4]"
  "cdEncode (sampleCodecs opts) = sampleEncode" "cdMarshalTxn (sampleCodecs opts) t = Inr (txnEnc t)"
  "cdUnmarshalTxn (sampleCodecs opts) b = Inr (txnDec b)" "cdMatchOperations (sampleCodecs opts) = sampleMatch"
  "coSequenceNumber (sampleOpts pl) = 3" "coProxyTransferPayload (sampleOpts pl) = pl" "coPayer (sampleOpts pl) = alice"
  by (simp_all add: sampleConstruct_def sampleCodecs_def sampleOpts_def)

lemma alice_bob_length [simp]: "length alice = 8" "length bob = 8"
  by (simp_all add: alice_def bob_def)

lemma transferPair_nth [simp]:
  "transferPair k a b w = [transferPair k a b w ! 0, transferPair k a b w ! 1]"
  "qoAccount (transferPair k a b w ! 0) = Some (addressText a)"
  "qoAccount (transferPair k a b w ! Suc 0) = Some (addressText b)"
  "qoType (transferPair k a b w ! 0) = k" "qoType (transferPair k a b w ! Suc 0) = k"
  by (simp_all add: transferPair_def)

declare transferPair_nth(1) [simp del]

definition samplePair :: "string \<Rightarrow> constructOp option list" where
  "samplePair k = map Some (transferPair k alice bob 5)"

lemma samplePair_Cons:
  "samplePair k = Some (transferPair k alice bob 5 ! 0) # [Some (transferPair k alice bob 5 ! 1)]"
  unfolding samplePair_def by (subst transferPair_nth(1)) simp

lemma samplePair_intent:
  assumes "k \<in> {opTransfer, opProxyTransfer}"
  shows "parseIntent (sampleConstruct pl) (samplePair k) =
    Ok (zeroIntent\<lparr>tiSender := alice, tiAmount := 5, tiReceiver := bob, tiProxy := (k = opProxyTransfer), tiInner := False\<rparr>)"
proof -
  have t: "transferIntent (sampleConstruct pl) k [transferPair k alice bob 5 ! 0, transferPair k alice bob 5 ! 1] =
      Ok (zeroIntent\<lparr>tiSender := alice, tiAmount := 5, tiReceiver := bob, tiProxy := (k = opProxyTransfer),
            tiInner := (k = opProxyTransferInner)\<rparr>)"
    using sampleConstruct_match [of k]
    by (simp add: transferIntent_def matchedAccount_def getAccount_addressText del: andThen_Ok_iff andThen_Ok_rev)
  show ?thesis
  proof (cases "k = opTransfer")
    case True
    with t show ?thesis
      by (simp add: samplePair_Cons parseIntent_def op_types del: andThen_Ok_iff andThen_Ok_rev)
  next
    case False
    with assms t show ?thesis
      by (simp add: samplePair_Cons parseIntent_def op_types del: andThen_Ok_iff andThen_Ok_rev)
  qed
qed

lemma sample_payloads:
  "\<exists>p. ConstructionPayloads (sampleConstruct []) sampleMetadata (samplePair opTransfer) = Ok p"
  by (simp add: ConstructionPayloads_def sampleConstruct_opts samplePair_intent scriptAndArgs_def transferArgs_def
      encodeArg_def zeroIntent_def TransactionEnvelopeHash_def deriveHash_def sampleHashing_def Let_def op_types
      del: andThen_Ok_iff andThen_Ok_rev)

theorem transfer_roundtrip_witness:
  "\<exists>p stx. ConstructionPayloads (sampleConstruct []) sampleMetadata (samplePair opTransfer) = Ok p \<and>
    ConstructionParse (sampleConstruct []) (pyUnsigned p) False =
      Ok \<lparr>prSigners = [], prOperations = transferPair opTransfer alice bob 5\<rparr> \<and>
    ConstructionCombine (sampleConstruct []) (pyUnsigned p) [Some (replicate 65 1, [])] = Ok stx \<and>
    ConstructionParse (sampleConstruct []) stx True =
      Ok \<lparr>prSigners = [pyAddress p], prOperations = transferPair opTransfer alice bob 5\<rparr>"
proof -
  let ?c = "sampleConstruct []" and ?op = "\<lambda>i. transferPair opTransfer alice bob 5 ! i"
  obtain p where p: "ConstructionPayloads ?c sampleMetadata (samplePair opTransfer) = Ok p"
    using sample_payloads by blast
  have "\<exists>w stx. uint w = 5 \<and>
    ConstructionParse ?c (pyUnsigned p) False =
      Ok \<lparr>prSigners = [], prOperations = transferPair (qoType (?op 0)) alice bob w\<rparr> \<and>
    ConstructionCombine ?c (pyUnsigned p) [Some (replicate 65 1, [])] = Ok stx \<and>
    ConstructionParse ?c stx True =
      Ok \<lparr>prSigners = [pyAddress p], prOperations = transferPair (qoType (?op 0)) alice bob w\<rparr>"
  proof (rule transfer_roundtrip [where ops = "[Some (?op 1)]" and sop = "?op 0" and rop = "?op 1" and x = "- 5"])
    show "codecs_ok (cnCodecs ?c)" by (simp add: sampleCodecs_ok)
    show "ConstructionPayloads ?c sampleMetadata (Some (?op 0) # [Some (?op 1)]) = Ok p"
      using p by (simp add: samplePair_Cons)
    show "cdMatchOperations (cnCodecs ?c) (qoType (?op 0)) (?op 0 # map the [Some (?op 1)]) = Inr ((?op 0, - 5), ?op 1, 5)"
      using sampleConstruct_match [of opTransfer] by simp
    show "\<exists>raw opts. getConstructOpts ?c sampleMetadata = Ok (raw, opts) \<and> coPayer opts = alice"
      by (simp add: sampleConstruct_opts)
  qed simp_all
  then obtain w stx where w: "uint w = 5" and r: "ConstructionParse ?c (pyUnsigned p) False =
      Ok \<lparr>prSigners = [], prOperations = transferPair opTransfer alice bob w\<rparr>"
    "ConstructionCombine ?c (pyUnsigned p) [Some (replicate 65 1, [])] = Ok stx"
    "ConstructionParse ?c stx True = Ok \<lparr>prSigners = [pyAddress p], prOperations = transferPair opTransfer alice bob w\<rparr>"
    by auto
  have "w = 5" by (rule word_eq_iff_unsigned [where 'a = int, THEN iffD2]) (simp add: w)
  with p r show ?thesis by blast
qed

theorem signed_is_submitted_witness:
  "\<exists>p t stx. ConstructionPayloads (sampleConstruct []) sampleMetadata (samplePair opTransfer) = Ok p \<and>
    ConstructionCombine (sampleConstruct []) (pyUnsigned p) [Some (replicate 65 1, [])] = Ok stx \<and>
    decodeTransaction (sampleConstruct []) stx True = Ok (Inl t) \<and>
    TransactionEnvelopeHash sampleHashing t = Ok (pyBytes p) \<and>
    ConstructionSubmit (sampleConstruct []) stx = Ok (hexEncode [7])"
proof -
  let ?c = "sampleConstruct []"
  obtain p where p: "ConstructionPayloads ?c sampleMetadata (samplePair opTransfer) = Ok p"
    using sample_payloads by blast
  have node: "\<not> svOffline (cnServer ?c)" "cnPing ?c 0 = None" "\<And>t. cnSendTransaction ?c 1 t = Inr [7]"
    by (simp_all add: sampleServer_def) (simp_all add: sampleConstruct_def)
  have it: "parseIntent ?c (samplePair opTransfer) = Ok (zeroIntent\<lparr>tiSender := alice, tiAmount := 5, tiReceiver := bob,
      tiProxy := (opTransfer = opProxyTransfer), tiInner := False\<rparr>)"
    by (rule samplePair_intent) simp
  have "codecs_ok (cnCodecs ?c)" by (simp add: sampleCodecs_ok)
  from signed_is_submitted [OF this p it, of "replicate 65 1" "[]"] p node
  show ?thesis by auto
qed

definition sampleKeys :: "bytes list" where
  "sampleKeys = [2 # replicate 32 7, 3 # replicate 32 7]"

definition sampleCreations :: "constructOp list" where
  "sampleCreations = createdOps opCreateAccount 0 sampleKeys"

lemma sampleCreations_Cons: "sampleCreations =
    [createOp opCreateAccount 0 (2 # replicate 32 7), createOp opCreateAccount 1 (3 # replicate 32 7)]"
  by (simp add: sampleCreations_def createdOps_def sampleKeys_def)

lemma sampleCreations_keys:
  "map (\<lambda>opr. map_of (qoMetadata opr) ''public_key'') sampleCreations =
     map (\<lambda>key. Some (JString (hexEncode key))) sampleKeys"
  by (simp add: sampleCreations_Cons sampleKeys_def createOp_def del: hexEncode.simps)

lemma sample_accountKeyOf:
  assumes "key = (if b then 3 else 2) # replicate 32 7"
  shows "accountKeyOf (sampleConstruct pl) (createOp k n key) =
    Ok (hexEncode (replicate 32 7 @ replicate 32 (if b then 3 else 2)))"
proof -
  have "ConvertRosettaPublicKey sampleSecp key = Ok (replicate 32 7 @ replicate 32 (if b then 3 else 2))"
    using assms by (cases b) (simp_all add: ConvertRosettaPublicKey_def sampleSecp_def Let_def)
  then show ?thesis
    by (simp add: accountKeyOf_def createOp_def mdString_def mdField_def
        del: hexEncode.simps andThen_Ok_iff andThen_Ok_rev)
qed

lemma sample_account_payloads:
  "\<exists>p. ConstructionPayloads (sampleConstruct []) sampleMetadata (map Some sampleCreations) = Ok p"
proof -
  let ?f = "\<lambda>b. hexEncode (replicate 32 7 @ replicate 32 (if b then 3 else 2 :: byte))"
  have "mapOutcome (accountKeyOf (sampleConstruct [])) sampleCreations = Ok [?f False, ?f True]"
    using sample_accountKeyOf [of _ False "[]" opCreateAccount 0] sample_accountKeyOf [of _ True "[]" opCreateAccount 1]
    by (simp add: sampleCreations_Cons)
  then have "parseIntent (sampleConstruct []) (map Some sampleCreations) = Ok (zeroIntent\<lparr>tiKeys := [?f False, ?f True]\<rparr>)"
    unfolding sampleCreations_Cons
    by (simp add: parseIntent_def accountIntent_def createOp_def op_types Let_def
        del: hexEncode.simps mapOutcome.simps andThen_Ok_iff andThen_Ok_rev)
  then show ?thesis
    by (simp add: ConstructionPayloads_def sampleConstruct_opts scriptAndArgs_def accountArgs_def
      encodeArg_def zeroIntent_def TransactionEnvelopeHash_def deriveHash_def sampleHashing_def Let_def
      del: hexEncode.simps andThen_Ok_iff andThen_Ok_rev)
qed

theorem account_roundtrip_witness:
  "\<exists>p stx. ConstructionPayloads (sampleConstruct []) sampleMetadata (map Some sampleCreations) = Ok p \<and>
    ConstructionParse (sampleConstruct []) (pyUnsigned p) False =
      Ok \<lparr>prSigners = [], prOperations = sampleCreations\<rparr> \<and>
    ConstructionCombine (sampleConstruct []) (pyUnsigned p) [Some (replicate 65 1, [])] = Ok stx \<and>
    ConstructionParse (sampleConstruct []) stx True =
      Ok \<lparr>prSigners = [pyAddress p], prOperations = sampleCreations\<rparr>"
proof -
  let ?c = "sampleConstruct []"
  obtain p where p: "ConstructionPayloads ?c sampleMetadata (map Some sampleCreations) = Ok p"
    using sample_account_payloads by blast
  have "\<exists>stx. ConstructionParse ?c (pyUnsigned p) False =
      Ok \<lparr>prSigners = [], prOperations = createdOps (qoType (hd sampleCreations)) 0 sampleKeys\<rparr> \<and>
    ConstructionCombine ?c (pyUnsigned p) [Some (replicate 65 1, [])] = Ok stx \<and>
    ConstructionParse ?c stx True =
      Ok \<lparr>prSigners = [pyAddress p], prOperations = createdOps (qoType (hd sampleCreations)) 0 sampleKeys\<rparr>"
  proof (rule account_roundtrip)
    show "codecs_ok (cnCodecs ?c)" by (simp add: sampleCodecs_ok)
    show "pubkey_ok (cnCurve ?c)" by (auto simp: pubkey_ok_def sampleSecp_def split: if_splits)
    show "ConstructionPayloads ?c sampleMetadata (map Some sampleCreations) = Ok p" by (rule p)
  qed (simp_all add: sampleCreations_keys, simp_all add: sampleCreations_Cons sampleKeys_def createOp_def)
  moreover have "qoType (hd sampleCreations) = opCreateAccount" by (simp add: sampleCreations_Cons createOp_def)
  ultimately show ?thesis using p by (simp add: sampleCreations_def)
qed

text \<open>A signed Flow transaction in the place of an inner one.\<close>

definition sampleSigned :: Transaction where
  "sampleSigned = (payloadTransaction (sampleOpts []) [1] [])\<lparr>txEnvelopeSignatures :=
     [\<lparr>tsAddress = alice, tsKeyId = 0, tsSignature = replicate 64 1\<rparr>]\<rparr>"

theorem proxy_payload_panics_witness:
  "ConstructionPayloads (sampleConstruct (flowText (txnEnc sampleSigned) [])) sampleMetadata (samplePair opProxyTransfer) =
     Panic ''nil pointer dereference''"
proof (rule proxy_payload_panics [OF sampleConstruct_opts _ _ samplePair_intent])
  show "decodeTransaction (sampleConstruct (flowText (txnEnc sampleSigned) []))
      (coProxyTransferPayload (sampleOpts (flowText (txnEnc sampleSigned) []))) True = Ok (Inl sampleSigned)"
    unfolding sample_fields by (rule decodeTransaction_flowText) (simp_all add: sampleSigned_def)
qed (simp_all add: zeroIntent_def)

end
