(* ===== verification/Cache.thy ===== *)
theory Cache
  imports Process IndexProps
begin

section \<open>Package cache: cached Access API calls\<close>

text \<open>
  \<^verbatim>\<open>cache/cache.go\<close>: the gRPC interceptor that answers idempotent calls from a Badger
  database. Badger is the environment \<open>env\<close> of \<^verbatim>\<open>indexdb\<close>. The generated messages and BLAKE3 are
  not part of the repository: \<open>wire\<close> holds the method of a request, the encoding of requests and
  responses, and the hash function, whose writer never fails. The invoker is a function that gives the
  answer with the trailer metadata of the call; the two reads of \<^verbatim>\<open>ctx.Done()\<close> are the two
  booleans of the context. Counters and spans are output only.
\<close>

type_synonym trailer = "(string \<times> string list) list"

type_synonym 'r answer = "(grpcError, 'r) sum \<times> trailer"

record ('q, 'r) wire =
  wrMethod :: "'q \<Rightarrow> string"
  wrMarshalReq :: "'q \<Rightarrow> (string, bytes) sum"
  wrMarshalRes :: "'r \<Rightarrow> (string, bytes) sum"
  wrUnmarshalRes :: "'q \<Rightarrow> bytes \<Rightarrow> (string, 'r) sum"
  wrBlake3 :: "bytes \<Rightarrow> bytes"

record callCtx =
  cxCaller :: "string option"
  cxSkip :: bool
  cxDoneBefore :: bool
  cxDoneAfter :: bool

definition CallerContext :: "callCtx \<Rightarrow> string \<Rightarrow> callCtx" where
  "CallerContext parent callerID = parent\<lparr>cxCaller := Some callerID\<rparr>"

definition Skip :: "callCtx \<Rightarrow> callCtx" where
  "Skip parent = (if cxSkip parent then parent else parent\<lparr>cxSkip := True\<rparr>)"

definition NewCache :: "'db env \<Rightarrow> string \<Rightarrow> (string, 'db) outcome" where
  "NewCache E dir =
     (case kvOpen E dir of
        Inl err \<Rightarrow> Fatal (''Failed to open the cache database at '' @ dir @ '': '' @ err)
      | Inr d \<Rightarrow> Ok d)"

definition nonIdempotent :: "string \<Rightarrow> bool" where
  "nonIdempotent meth \<longleftrightarrow>
     meth \<in> {''/flow.access.AccessAPI/GetAccountAtLatestBlock'', ''/flow.access.AccessAPI/GetLatestBlockHeader'',
             ''/flow.access.AccessAPI/Ping'', ''/flow.access.AccessAPI/SendTransaction''}"

definition getHash :: "('q, 'r) wire \<Rightarrow> string \<Rightarrow> bytes \<Rightarrow> bytes" where
  "getHash W meth msg = wrBlake3 W (map of_char meth @ msg)"

text \<open>\<^verbatim>\<open>ctx.Err()\<close>: an error without a gRPC status.\<close>

definition ctxErr :: grpcError where
  "ctxErr = \<lparr>geCode = OtherCode, geMessage = ''context canceled''\<rparr>"

definition lookupResponse :: "'db env \<Rightarrow> ('q, 'r) wire \<Rightarrow> 'db \<Rightarrow> 'q \<Rightarrow> bytes \<Rightarrow> 'r option" where
  "lookupResponse E W d req hash =
     (case kvGet E d hash of
        Inl _ \<Rightarrow> None
      | Inr val \<Rightarrow> (case wrUnmarshalRes W req val of Inl _ \<Rightarrow> None | Inr res \<Rightarrow> Some res))"

text \<open>A failed write is logged: the response is returned and the database is as before.\<close>

definition storeResponse :: "'db env \<Rightarrow> 'db \<Rightarrow> bytes \<Rightarrow> bytes \<Rightarrow> 'db" where
  "storeResponse E d hash val =
     (case kvSet E d hash val of
        Inl _ \<Rightarrow> d
      | Inr t \<Rightarrow> (case kvCommit E d t of Inl _ \<Rightarrow> d | Inr d' \<Rightarrow> d'))"

definition invokeAndStore ::
  "'db env \<Rightarrow> ('q, 'r) wire \<Rightarrow> callCtx \<Rightarrow> ('q \<Rightarrow> 'r answer) \<Rightarrow> 'q \<Rightarrow> bytes \<Rightarrow> 'db
     \<Rightarrow> (string, 'r answer \<times> 'db) outcome" where
  "invokeAndStore E W ctx invoker req hash d =
     (case invoker req of
        (Inl err, md) \<Rightarrow> Ok ((Inl err, md), d)
      | (Inr res, md) \<Rightarrow>
          (case wrMarshalRes W res of
             Inl err \<Rightarrow> Fatal (''Failed to encode gRPC response for caching: '' @ err)
           | Inr val \<Rightarrow>
               if cxDoneAfter ctx then Ok ((Inl ctxErr, md), d)
               else Ok ((Inr res, md), storeResponse E d hash val)))"

definition InterceptUnary ::
  "'db env \<Rightarrow> ('q, 'r) wire \<Rightarrow> callCtx \<Rightarrow> ('q \<Rightarrow> 'r answer) \<Rightarrow> 'q \<Rightarrow> 'db \<Rightarrow> (string, 'r answer \<times> 'db) outcome" where
  "InterceptUnary E W ctx invoker req d =
     (if nonIdempotent (wrMethod W req) then Ok (invoker req, d)
      else if cxSkip ctx then Ok (invoker req, d)
      else (case wrMarshalReq W req of
              Inl _ \<Rightarrow> Ok (invoker req, d)
            | Inr enc \<Rightarrow>
                (let hash = getHash W (wrMethod W req) enc in
                 if cxDoneBefore ctx then Ok ((Inl ctxErr, []), d)
                 else (case lookupResponse E W d req hash of
                         Some res \<Rightarrow> Ok ((Inr res, []), d)
                       | None \<Rightarrow> invokeAndStore E W ctx invoker req hash d))))"

subsection \<open>The contract of a cache\<close>

text \<open>
  What the client of a cache relies on: a kept answer is found under its own question and under no
  other. A state carries the questions it is about and their true answers.
\<close>

locale memo =
  fixes look :: "'d \<Rightarrow> 'q \<Rightarrow> 'r option"
    and keep :: "'d \<Rightarrow> 'q \<Rightarrow> 'd"
    and invar :: "'d \<Rightarrow> bool"
    and known :: "'d \<Rightarrow> 'q \<Rightarrow> bool"
    and truth :: "'d \<Rightarrow> 'q \<Rightarrow> 'r"
  assumes invar_keep: "invar d \<Longrightarrow> known d q \<Longrightarrow> invar (keep d q)"
    and known_keep: "known (keep d q) = known d"
    and truth_keep: "truth (keep d q) = truth d"
    and look_keep: "invar d \<Longrightarrow> known d q \<Longrightarrow> known d q' \<Longrightarrow>
      look (keep d q) q' = (if q' = q then Some (truth d q) else look d q')"
begin

definition remembers :: "'d \<Rightarrow> 'q set \<Rightarrow> bool" where
  "remembers d A \<longleftrightarrow> invar d \<and> (\<forall>q. known d q \<longrightarrow> look d q = (if q \<in> A then Some (truth d q) else None))"

lemma remembers_look: "remembers d A \<Longrightarrow> known d q \<Longrightarrow> look d q = (if q \<in> A then Some (truth d q) else None)"
  by (simp add: remembers_def)

lemma remembers_keep: "remembers d A \<Longrightarrow> known d q \<Longrightarrow> remembers (keep d q) (insert q A)"
  by (simp add: remembers_def invar_keep known_keep truth_keep look_keep)

end

text \<open>The database of responses: the requests in use, and the answer that the servers give to each.\<close>

record ('db, 'q, 'r) responses =
  rsEnv :: "'db env"
  rsWire :: "('q, 'r) wire"
  rsKnown :: "'q set"
  rsTruth :: "'q \<Rightarrow> 'r"
  rsDb :: 'db

definition reqKey :: "('q, 'r) wire \<Rightarrow> 'q \<Rightarrow> bytes" where
  "reqKey W q = getHash W (wrMethod W q) (case wrMarshalReq W q of Inl _ \<Rightarrow> [] | Inr enc \<Rightarrow> enc)"

definition resBytes :: "('q, 'r) wire \<Rightarrow> 'r \<Rightarrow> bytes" where
  "resBytes W r = (case wrMarshalRes W r of Inl _ \<Rightarrow> [] | Inr val \<Rightarrow> val)"

text \<open>
  The laws that the cache relies on: Badger's, no hash collision among the requests in use, and requests
  and responses that can be encoded, the responses so that decoding gives them back.
\<close>

definition cacheable :: "'db env \<Rightarrow> ('q, 'r) wire \<Rightarrow> 'q set \<Rightarrow> ('q \<Rightarrow> 'r) \<Rightarrow> bool" where
  "cacheable E W R tr \<longleftrightarrow>
     env_ok E \<and> inj_on (reqKey W) R \<and>
     (\<forall>q \<in> R. ordinary_key (reqKey W q) \<and> \<not> nonIdempotent (wrMethod W q) \<and>
        (\<exists>enc val. wrMarshalReq W q = Inr enc \<and> wrMarshalRes W (tr q) = Inr val \<and>
           wrUnmarshalRes W q val = Inr (tr q)))"

definition rsLook :: "('db, 'q, 'r) responses \<Rightarrow> 'q \<Rightarrow> 'r option" where
  "rsLook rs q = lookupResponse (rsEnv rs) (rsWire rs) (rsDb rs) q (reqKey (rsWire rs) q)"

definition rsKeep :: "('db, 'q, 'r) responses \<Rightarrow> 'q \<Rightarrow> ('db, 'q, 'r) responses" where
  "rsKeep rs q =
     rs\<lparr>rsDb := storeResponse (rsEnv rs) (rsDb rs) (reqKey (rsWire rs) q) (resBytes (rsWire rs) (rsTruth rs q))\<rparr>"

definition rsInvar :: "('db, 'q, 'r) responses \<Rightarrow> bool" where
  "rsInvar rs \<longleftrightarrow> cacheable (rsEnv rs) (rsWire rs) (rsKnown rs) (rsTruth rs)"

definition rsIsKnown :: "('db, 'q, 'r) responses \<Rightarrow> 'q \<Rightarrow> bool" where
  "rsIsKnown rs q \<longleftrightarrow> q \<in> rsKnown rs"

lemma storeResponse_content:
  assumes "env_ok E" "ordinary_key k"
  shows "content E (storeResponse E d k v) = (content E d)(k \<mapsto> v)"
proof -
  obtain d' where "kvSet E d k v = Inr d'" "content E d' = (content E d)(k \<mapsto> v)"
    using env_set [OF assms] by blast
  then show ?thesis by (simp add: storeResponse_def env_commit [OF assms(1)])
qed

lemma rsLook_keep:
  assumes inv: "rsInvar rs" and q: "rsIsKnown rs q" and q': "rsIsKnown rs q'"
  shows "rsLook (rsKeep rs q) q' = (if q' = q then Some (rsTruth rs q) else rsLook rs q')"
proof -
  let ?E = "rsEnv rs" and ?W = "rsWire rs"
  from inv have C: "cacheable ?E ?W (rsKnown rs) (rsTruth rs)" by (simp add: rsInvar_def)
  then have E: "env_ok ?E" by (simp add: cacheable_def)
  from C q obtain val where val: "wrMarshalRes ?W (rsTruth rs q) = Inr val"
      "wrUnmarshalRes ?W q val = Inr (rsTruth rs q)" and key: "ordinary_key (reqKey ?W q)"
    unfolding cacheable_def rsIsKnown_def by blast
  have "q' = q \<longleftrightarrow> reqKey ?W q' = reqKey ?W q"
    using C q q' unfolding cacheable_def rsIsKnown_def by (auto dest: inj_onD)
  then show ?thesis
    using val by (cases "q' = q") (simp_all add: rsLook_def rsKeep_def lookupResponse_def resBytes_def
        env_get [OF E] storeResponse_content [OF E key])
qed

interpretation responses: memo rsLook rsKeep rsInvar rsIsKnown rsTruth
proof
  show "rsInvar (rsKeep rs q)" if "rsInvar rs" for rs :: "('a, 'b, 'c) responses" and q
    using that by (simp add: rsInvar_def rsKeep_def)
  show "rsIsKnown (rsKeep rs q) = rsIsKnown rs" for rs :: "('a, 'b, 'c) responses" and q
    by (rule ext) (simp add: rsIsKnown_def rsKeep_def)
  show "rsTruth (rsKeep rs q) = rsTruth rs" for rs :: "('a, 'b, 'c) responses" and q
    by (simp add: rsKeep_def)
qed (rule rsLook_keep)

subsection \<open>The cache as a set of remembered requests\<close>

type_synonym ('q, 'r) call = "callCtx \<times> ('q \<Rightarrow> 'r answer) \<times> 'q"

fun runCalls ::
  "'db env \<Rightarrow> ('q, 'r) wire \<Rightarrow> ('q, 'r) call list \<Rightarrow> 'db \<Rightarrow> (string, 'r answer list \<times> 'db) outcome" where
  "runCalls E W [] d = Ok ([], d)"
| "runCalls E W ((ctx, invoker, req) # calls) d =
     andThen (InterceptUnary E W ctx invoker req d) (\<lambda>(ans, d1).
     andThen (runCalls E W calls d1) (\<lambda>(answers, d2). Ok (ans # answers, d2)))"

text \<open>
  The specification: a call that is not cached gets the answer of the invoker; of the others, a
  remembered request gets the true answer, whatever the server does, and an answered one is remembered.
\<close>

fun memoCalls :: "'q set \<Rightarrow> ('q \<Rightarrow> 'r) \<Rightarrow> 'q set \<Rightarrow> ('q, 'r) call list \<Rightarrow> 'r answer list" where
  "memoCalls R tr A [] = []"
| "memoCalls R tr A ((ctx, invoker, q) # calls) =
     (if q \<notin> R \<or> cxSkip ctx then invoker q # memoCalls R tr A calls
      else if cxDoneBefore ctx then (Inl ctxErr, []) # memoCalls R tr A calls
      else if q \<in> A then (Inr (tr q), []) # memoCalls R tr A calls
      else (case invoker q of
              (Inl err, md) \<Rightarrow> (Inl err, md) # memoCalls R tr A calls
            | (Inr res, md) \<Rightarrow>
                if cxDoneAfter ctx then (Inl ctxErr, md) # memoCalls R tr A calls
                else (Inr res, md) # memoCalls R tr (insert q A) calls))"

text \<open>A request in use is answered truly or not at all; any other request must be one that is not cached.\<close>

definition truthful :: "('q, 'r) wire \<Rightarrow> 'q set \<Rightarrow> ('q \<Rightarrow> 'r) \<Rightarrow> ('q, 'r) call \<Rightarrow> bool" where
  "truthful W R tr call \<longleftrightarrow>
     (case call of (ctx, invoker, q) \<Rightarrow>
        if q \<in> R then (case fst (invoker q) of Inl _ \<Rightarrow> True | Inr r \<Rightarrow> r = tr q)
        else nonIdempotent (wrMethod W q))"

lemma intercept_refines:
  assumes C: "cacheable E W R tr" and rem: "responses.remembers \<lparr>rsEnv = E, rsWire = W, rsKnown = R, rsTruth = tr, rsDb = d\<rparr> A"
    and call: "truthful W R tr (ctx, invoker, q)"
  shows "\<exists>ans d' A'. InterceptUnary E W ctx invoker q d = Ok (ans, d') \<and>
    responses.remembers \<lparr>rsEnv = E, rsWire = W, rsKnown = R, rsTruth = tr, rsDb = d'\<rparr> A' \<and>
    (\<forall>calls. memoCalls R tr A ((ctx, invoker, q) # calls) = ans # memoCalls R tr A' calls)"
proof (cases "q \<in> R \<and> \<not> cxSkip ctx \<and> \<not> cxDoneBefore ctx")
  case False
  let ?ans = "if q \<notin> R \<or> cxSkip ctx then invoker q else (Inl ctxErr, [])"
  have "InterceptUnary E W ctx invoker q d = Ok (?ans, d)"
    using C call False by (cases "q \<in> R") (auto simp: InterceptUnary_def truthful_def cacheable_def Let_def)
  moreover have "memoCalls R tr A ((ctx, invoker, q) # calls) = ?ans # memoCalls R tr A calls" for calls
    using False by auto
  ultimately show ?thesis using rem by blast
next
  case True
  from C True obtain enc val where enc: "wrMarshalReq W q = Inr enc" "wrMarshalRes W (tr q) = Inr val"
      "\<not> nonIdempotent (wrMethod W q)"
    unfolding cacheable_def by blast
  have key: "getHash W (wrMethod W q) enc = reqKey W q" by (simp add: reqKey_def enc)
  have look: "lookupResponse E W d q (reqKey W q) = (if q \<in> A then Some (tr q) else None)"
    using responses.remembers_look [OF rem, of q] True by (simp add: rsLook_def rsIsKnown_def)
  have keep: "responses.remembers \<lparr>rsEnv = E, rsWire = W, rsKnown = R, rsTruth = tr,
      rsDb = storeResponse E d (reqKey W q) val\<rparr> (insert q A)"
    using responses.remembers_keep [OF rem, of q] True enc by (simp add: rsKeep_def rsIsKnown_def resBytes_def)
  obtain r md where inv: "invoker q = (r, md)" by force
  show ?thesis
  proof (cases r)
    case (Inl err)
    with True enc key look rem inv show ?thesis
      by (auto simp: InterceptUnary_def invokeAndStore_def Let_def)
  next
    case (Inr res)
    with call True inv have "res = tr q" by (simp add: truthful_def)
    with Inr True enc key look rem inv keep show ?thesis
      by (auto simp: InterceptUnary_def invokeAndStore_def Let_def)
  qed
qed

lemma calls_refine:
  assumes C: "cacheable E W R tr"
  shows "responses.remembers \<lparr>rsEnv = E, rsWire = W, rsKnown = R, rsTruth = tr, rsDb = d\<rparr> A \<Longrightarrow>
    list_all (truthful W R tr) calls \<Longrightarrow> \<exists>d'. runCalls E W calls d = Ok (memoCalls R tr A calls, d')"
proof (induction calls arbitrary: d A)
  case (Cons call calls)
  obtain ctx invoker q where call: "call = (ctx, invoker, q)" by (cases call)
  with intercept_refines [OF C Cons.prems(1), of ctx invoker q] Cons.prems(2) obtain ans d' A' where
      i: "InterceptUnary E W ctx invoker q d = Ok (ans, d')"
      "responses.remembers \<lparr>rsEnv = E, rsWire = W, rsKnown = R, rsTruth = tr, rsDb = d'\<rparr> A'"
      "memoCalls R tr A ((ctx, invoker, q) # calls) = ans # memoCalls R tr A' calls" by auto
  from Cons.IH [OF i(2)] Cons.prems(2) i(1,3) call show ?case by (auto simp del: memoCalls.simps)
qed simp


text \<open>A node that goes down after its first answer, asked twice for one block and once for another.\<close>

definition sampleWire :: "(nat, bytes) wire" where
  "sampleWire =
     \<lparr>wrMethod = (\<lambda>q. ''/flow.access.AccessAPI/GetBlockByHeight''), wrMarshalReq = (\<lambda>q. Inr [of_nat q]),
      wrMarshalRes = (\<lambda>r. Inr r), wrUnmarshalRes = (\<lambda>q b. Inr b), wrBlake3 = (\<lambda>b. 7 # b)\<rparr>"

definition sampleAnswer :: "nat \<Rightarrow> bytes" where
  "sampleAnswer q = [of_nat q, 5]"

definition liveCtx :: callCtx where
  "liveCtx = \<lparr>cxCaller = None, cxSkip = False, cxDoneBefore = False, cxDoneAfter = False\<rparr>"

definition nodeDown :: "nat \<Rightarrow> bytes answer" where
  "nodeDown q = (Inl \<lparr>geCode = OtherCode, geMessage = ''connection refused''\<rparr>, [])"

definition sampleCalls :: "(nat, bytes) call list" where
  "sampleCalls = [(liveCtx, \<lambda>q. (Inr (sampleAnswer q), []), 1), (liveCtx, nodeDown, 1), (liveCtx, nodeDown, 2)]"


end
