(* ===== verification/Access.thy ===== *)
theory Access
  imports Cache Api
begin

section \<open>Package access: the client of an Access API server\<close>

text \<open>
  The methods of \<^verbatim>\<open>access.Client\<close> and the interceptors around its calls. The generated gRPC client
  is the record \<open>accessAPI\<close>, one function for every call that the methods make, where a message that may
  be nil in the response is an option; the JSON encoding of Cadence values is a pair of functions.
  Deadlines and spans have no effect but a call that fails. The pool, the transport and the rate-limit
  test are in \<open>Config\<close> and \<open>Process\<close>.
\<close>

record accessAPI =
  aaGetAccountAtLatestBlock :: "bytes \<Rightarrow> (grpcError, acctKey list option) sum"
  aaGetAccountAtBlockHeight :: "bytes \<Rightarrow> u64 \<Rightarrow> (grpcError, acctKey list option) sum"
  aaGetBlockByHeight :: "u64 \<Rightarrow> bool \<Rightarrow> (grpcError, Block option) sum"
  aaGetBlockByID :: "bytes \<Rightarrow> bool \<Rightarrow> (grpcError, Block option) sum"
  aaGetEventsForBlockIDs :: "bytes list \<Rightarrow> string \<Rightarrow> (grpcError, Event list list) sum"
  aaGetBlockHeaderByHeight :: "u64 \<Rightarrow> (grpcError, BlockHeader option) sum"
  aaGetBlockHeaderByID :: "bytes \<Rightarrow> (grpcError, BlockHeader option) sum"
  aaGetCollectionByID :: "bytes \<Rightarrow> (grpcError, bytes list option) sum"
  aaExecuteScriptAtBlockID :: "bytes list \<Rightarrow> bytes \<Rightarrow> bytes \<Rightarrow> (grpcError, bytes) sum"
  aaGetExecutionResultForBlockID :: "bytes \<Rightarrow> (grpcError, ExecutionResult option) sum"
  aaGetLatestBlockHeader :: "bool \<Rightarrow> (grpcError, BlockHeader option) sum"
  aaPing :: "(grpcError, unit) sum"
  aaSendTransaction :: "Transaction \<Rightarrow> (grpcError, bytes) sum"
  aaGetTransaction :: "bytes \<Rightarrow> (grpcError, Transaction option) sum"
  aaGetTransactionResultByIndex :: "bytes \<Rightarrow> u32 \<Rightarrow> (grpcError, u64 \<times> TransactionResult) sum"
  aaGetTransactionResult :: "bytes \<Rightarrow> (grpcError, u64 \<times> TransactionResult) sum"
  aaGetTransactionResultsByBlockID :: "bytes \<Rightarrow> (grpcError, TransactionResult list) sum"
  aaGetTransactionsByBlockID :: "bytes \<Rightarrow> (grpcError, Transaction list) sum"

text \<open>\<^verbatim>\<open>fmt.Errorf\<close>: an error without a gRPC status. A result of a transaction comes with its block height.\<close>

definition plainErr :: "string \<Rightarrow> grpcError" where
  "plainErr msg = \<lparr>geCode = OtherCode, geMessage = msg\<rparr>"

definition accountOrErr :: "bytes \<Rightarrow> (grpcError, acctKey list option) sum \<Rightarrow> (grpcError, acctKey list) sum" where
  "accountOrErr addr resp =
     (case resp of
        Inl err \<Rightarrow> Inl err
      | Inr None \<Rightarrow> Inl (plainErr (''access: nil account returned for address '' @ hexEncode addr))
      | Inr (Some acct) \<Rightarrow> Inr acct)"

definition Account :: "accessAPI \<Rightarrow> bytes \<Rightarrow> (grpcError, acctKey list) sum" where
  "Account api addr = accountOrErr addr (aaGetAccountAtLatestBlock api addr)"

definition AccountAtHeight :: "accessAPI \<Rightarrow> bytes \<Rightarrow> u64 \<Rightarrow> (grpcError, acctKey list) sum" where
  "AccountAtHeight api addr height = accountOrErr addr (aaGetAccountAtBlockHeight api addr height)"

text \<open>The methods that return a block, header, collection, result or transaction pass a nil on.\<close>

definition clientBlockByHeight :: "accessAPI \<Rightarrow> u64 \<Rightarrow> (grpcError, Block option) sum" where
  "clientBlockByHeight api height = aaGetBlockByHeight api height True"

definition clientBlockByID :: "accessAPI \<Rightarrow> bytes \<Rightarrow> (grpcError, Block option) sum" where
  "clientBlockByID api blockID = aaGetBlockByID api blockID True"

definition BlockEvents :: "accessAPI \<Rightarrow> bytes \<Rightarrow> string \<Rightarrow> (grpcError, Event list) sum" where
  "BlockEvents api blockID kind =
     (case aaGetEventsForBlockIDs api [blockID] kind of
        Inl err \<Rightarrow> Inl err
      | Inr results \<Rightarrow>
          if length results \<noteq> 1
          then Inl (plainErr (''access: got unexpected number of event results: '' @ formatNat (length results)))
          else Inr (hd results))"

definition BlockHeaderByHeight :: "accessAPI \<Rightarrow> u64 \<Rightarrow> (grpcError, BlockHeader option) sum" where
  "BlockHeaderByHeight api height = aaGetBlockHeaderByHeight api height"

definition BlockHeaderByID :: "accessAPI \<Rightarrow> bytes \<Rightarrow> (grpcError, BlockHeader option) sum" where
  "BlockHeaderByID api blockID = aaGetBlockHeaderByID api blockID"

definition CollectionByID :: "accessAPI \<Rightarrow> bytes \<Rightarrow> (grpcError, bytes list option) sum" where
  "CollectionByID api cid = aaGetCollectionByID api cid"

text \<open>The arguments are encoded in order, the first failure is returned.\<close>

fun encodeArgs :: "(scriptValue \<Rightarrow> (string, bytes) sum) \<Rightarrow> scriptValue list \<Rightarrow> (grpcError, bytes list) sum" where
  "encodeArgs enc [] = Inr []"
| "encodeArgs enc (arg # args) =
     (case enc arg of
        Inl err \<Rightarrow> Inl (plainErr (''access: failed to encode Cadence value for ExecuteScriptAtBlockID: '' @ err))
      | Inr val \<Rightarrow> (case encodeArgs enc args of Inl err \<Rightarrow> Inl err | Inr vals \<Rightarrow> Inr (val # vals)))"

definition Execute ::
  "accessAPI \<Rightarrow> (scriptValue \<Rightarrow> (string, bytes) sum) \<Rightarrow> (bytes \<Rightarrow> (string, scriptValue) sum) \<Rightarrow> bytes \<Rightarrow> bytes
     \<Rightarrow> scriptValue list \<Rightarrow> (grpcError, scriptValue) sum" where
  "Execute api enc dec blockID script args =
     (case encodeArgs enc args of
        Inl err \<Rightarrow> Inl err
      | Inr cargs \<Rightarrow>
          (case aaExecuteScriptAtBlockID api cargs blockID script of
             Inl err \<Rightarrow> Inl err
           | Inr value \<Rightarrow>
               (case dec value of
                  Inl err \<Rightarrow> Inl (plainErr (''access: failed to decode Cadence value for ExecuteScriptAtBlockID: '' @ err))
                | Inr val \<Rightarrow> Inr val)))"

definition ExecutionResultForBlockID :: "accessAPI \<Rightarrow> bytes \<Rightarrow> (grpcError, ExecutionResult option) sum" where
  "ExecutionResultForBlockID api blockID = aaGetExecutionResultForBlockID api blockID"

definition LatestBlockHeader :: "accessAPI \<Rightarrow> (grpcError, BlockHeader option) sum" where
  "LatestBlockHeader api = aaGetLatestBlockHeader api True"

definition LatestFinalizedBlockHeader :: "accessAPI \<Rightarrow> (grpcError, BlockHeader option) sum" where
  "LatestFinalizedBlockHeader api = aaGetLatestBlockHeader api False"

definition Ping :: "accessAPI \<Rightarrow> grpcError option" where
  "Ping api = (case aaPing api of Inl err \<Rightarrow> Some err | Inr _ \<Rightarrow> None)"

definition SendTransaction :: "accessAPI \<Rightarrow> Transaction \<Rightarrow> (grpcError, bytes) sum" where
  "SendTransaction api txn = aaSendTransaction api txn"

definition ServerAddress :: "Client \<Rightarrow> string" where
  "ServerAddress c = clAddr c"

definition clientTransaction :: "accessAPI \<Rightarrow> bytes \<Rightarrow> (grpcError, Transaction option) sum" where
  "clientTransaction api hash = aaGetTransaction api hash"

definition clientTransactionResult :: "accessAPI \<Rightarrow> bytes \<Rightarrow> u32 \<Rightarrow> (grpcError, u64 \<times> TransactionResult) sum" where
  "clientTransactionResult api blockID txnIndex = aaGetTransactionResultByIndex api blockID txnIndex"

definition TransactionResultByHash :: "accessAPI \<Rightarrow> bytes \<Rightarrow> (grpcError, u64 \<times> TransactionResult) sum" where
  "TransactionResultByHash api hash =
     (case aaGetTransactionResult api hash of
        Inl err \<Rightarrow> Inl err
      | Inr (height, res) \<Rightarrow>
          if height = 0 then Inl (plainErr (''access: failed to find transaction result by hash: '' @ hexEncode hash))
          else Inr (height, res))"

definition TransactionResultsByBlockID :: "accessAPI \<Rightarrow> bytes \<Rightarrow> (grpcError, TransactionResult list) sum" where
  "TransactionResultsByBlockID api blockID = aaGetTransactionResultsByBlockID api blockID"

definition TransactionsByBlockID :: "accessAPI \<Rightarrow> bytes \<Rightarrow> (grpcError, Transaction list) sum" where
  "TransactionsByBlockID api blockID = aaGetTransactionsByBlockID api blockID"

subsection \<open>The interceptors\<close>

text \<open>The text of an error of \<^verbatim>\<open>status.Errorf\<close> names the code before the message.\<close>

definition rateLimitErr :: grpcError where
  "rateLimitErr =
     \<lparr>geCode = ResourceExhausted, geMessage = ''rpc error: code = ResourceExhausted desc = '' @ rateLimitText\<rparr>"

definition InterceptRateLimitUnary :: "'r answer \<Rightarrow> (grpcError, 'r) sum" where
  "InterceptRateLimitUnary ans =
     (case map_of (snd ans) ''x-ratelimit-remaining'' of
        Some (v # _) \<Rightarrow>
          (case parseInt64 v of
             Some limit \<Rightarrow> if limit \<le> 0 then Inl rateLimitErr else fst ans
           | None \<Rightarrow> fst ans)
      | _ \<Rightarrow> fst ans)"

text \<open>A call of a client: the rate-limit interceptor around the cache, if the spork has one.\<close>

definition clientCall ::
  "bool \<Rightarrow> 'db env \<Rightarrow> ('q, 'r) wire \<Rightarrow> callCtx \<Rightarrow> ('q \<Rightarrow> 'r answer) \<Rightarrow> 'q \<Rightarrow> 'db
     \<Rightarrow> (string, (grpcError, 'r) sum \<times> 'db) outcome" where
  "clientCall cached E W ctx invoker req d =
     andThen (if cached then InterceptUnary E W ctx invoker req d else Ok (invoker req, d)) (\<lambda>(ans, d1).
     Ok (InterceptRateLimitUnary ans, d1))"

subsection \<open>Certificates\<close>

text \<open>
  The function that \<^verbatim>\<open>verifyCertFunc\<close> returns: X.509 and libp2p are parameters, \<open>None\<close> is the acceptance
  of the peer.
\<close>

record ('c, 'k) certs =
  ctParse :: "bytes \<Rightarrow> (string, 'c) sum"
  ctPubKey :: "'c list \<Rightarrow> (string, 'k) sum"
  ctMatches :: "bytes \<Rightarrow> 'k \<Rightarrow> bool"
  ctRaw :: "'k \<Rightarrow> (string, bytes) sum"
  ctPeerText :: "bytes \<Rightarrow> string"

fun parseCerts :: "('c, 'k) certs \<Rightarrow> bytes list \<Rightarrow> (string, 'c list) sum" where
  "parseCerts X [] = Inr []"
| "parseCerts X (raw # raws) =
     (case ctParse X raw of
        Inl err \<Rightarrow> Inl (''access: failed to parse peer certificates: '' @ err)
      | Inr cert \<Rightarrow> (case parseCerts X raws of Inl err \<Rightarrow> Inl err | Inr chain \<Rightarrow> Inr (cert # chain)))"

definition verifyPeer :: "('c, 'k) certs \<Rightarrow> bytes \<Rightarrow> bytes list \<Rightarrow> string option" where
  "verifyPeer X peerID rawCerts =
     (case parseCerts X rawCerts of
        Inl err \<Rightarrow> Some err
      | Inr chain \<Rightarrow>
          (case ctPubKey X chain of
             Inl err \<Rightarrow> Some (''access: failed to get public key from peer cert chain: '' @ err)
           | Inr peerKey \<Rightarrow>
               if \<not> ctMatches X peerID peerKey then
                 (case ctRaw X peerKey of
                    Inl err \<Rightarrow> Some (''access: failed to convert peer public key to raw format: '' @ err)
                  | Inr rawKey \<Rightarrow>
                      Some (''access: invalid public key received: expected '' @ ctPeerText X peerID @ '', got '' @ hexEncode rawKey))
               else None))"

text \<open>
  A node that is configured with a public key is only talked to when the key in the peer's certificates is
  the one of that configuration; there is no other way past the check.
\<close>

lemma verifyPeer_None:
  "verifyPeer X peerID raws = None \<longleftrightarrow>
     (\<exists>chain key. parseCerts X raws = Inr chain \<and> ctPubKey X chain = Inr key \<and> ctMatches X peerID key)"
  by (auto simp: verifyPeer_def split: sum.splits)

lemma parseCerts_Inr: "parseCerts X raws = Inr chain \<Longrightarrow> list_all2 (\<lambda>raw cert. ctParse X raw = Inr cert) raws chain"
  by (induction raws arbitrary: chain) (auto split: sum.splits)

lemma pinned_peer:
  assumes "newClient E cached node = Ok c" and "ncPublicKey node \<noteq> []"
  shows "\<exists>raw peerID. hexDecode (ncPublicKey node) = Some raw \<and> sysPeerIDFromKey E raw = Some peerID \<and>
    clTransport c = PinnedPeer peerID"
  using assms by (auto simp: newClient_def verifyCertFunc_def split: option.splits)

subsection \<open>Rate limits\<close>

lemma rateLimitErr_limited: "IsRateLimited rateLimitErr"
  by code_simp

text \<open>
  What the retry loops rely on: an exhausted limit in the trailer of a call that reached the server makes
  a rate-limit error of any answer, and a remembered answer has no trailer, so that it is never limited.
\<close>

lemma exhausted_limit:
  assumes "map_of md ''x-ratelimit-remaining'' = Some (v # vs)" and "parseInt64 v = Some limit" and "limit \<le> 0"
  shows "\<exists>err. InterceptRateLimitUnary (ans, md) = Inl err \<and> IsRateLimited err"
  using assms by (simp add: InterceptRateLimitUnary_def rateLimitErr_limited)

lemma remembered_not_limited:
  assumes "lookupResponse E W d req (reqKey W req) = Some res" and "wrMarshalReq W req = Inr enc"
    and "\<not> nonIdempotent (wrMethod W req)" and "\<not> cxSkip ctx" and "\<not> cxDoneBefore ctx"
  shows "clientCall True E W ctx invoker req d = Ok (Inr res, d)"
  using assms by (simp add: clientCall_def InterceptUnary_def Let_def reqKey_def InterceptRateLimitUnary_def
      del: andThen_Ok_iff andThen_Ok_rev)

end
