(* ===== verification/Shutdown.thy ===== *)
theory Shutdown
  imports Prelude "HOL-Library.Sublist"
begin

section \<open>Packages process and log: handlers and termination\<close>

text \<open>
  \<^verbatim>\<open>process/process.go\<close> with the \<^verbatim>\<open>Fatalf\<close> of \<^verbatim>\<open>log/log.go\<close>. The mutex makes each locked section one
  step; the handlers run outside it, so the goroutines that run them interleave. A goroutine is the list
  of handlers that it copied, the position of its loop, and what it does afterwards: terminate with a code, or (the
  handlers of another signal) go on. The signal loop handles one signal at a time, in the order of its
  channel; what \<^verbatim>\<open>os.Exit\<close> leaves unfinished never runs.
\<close>

datatype signal = Interrupt | SIGTERM | OtherSignal nat

record 'h thread =
  thHandlers :: "'h list"
  thNext :: nat
  thCode :: "int option"

record 'h process =
  pcExiting :: bool
  pcRegistry :: "(signal, 'h list) gomap"
  pcCaller :: "'h thread option"
  pcSignals :: "'h thread option"
  pcRun :: "'h list"
  pcStatus :: "int option"

definition NewProcess :: "'h process" where
  "NewProcess =
     \<lparr>pcExiting = False, pcRegistry = [], pcCaller = None, pcSignals = None, pcRun = [], pcStatus = None\<rparr>"

definition handlersFor :: "'h process \<Rightarrow> signal \<Rightarrow> 'h list" where
  "handlersFor p sig = mget [] (pcRegistry p) sig"

definition prepend :: "'h list \<Rightarrow> 'h \<Rightarrow> 'h list" where
  "prepend xs handler = [handler] @ xs"

definition SetSignalHandler :: "signal \<Rightarrow> 'h \<Rightarrow> 'h process \<Rightarrow> 'h process" where
  "SetSignalHandler sig handler p =
     p\<lparr>pcRegistry := mput (pcRegistry p) sig (prepend (handlersFor p sig) handler)\<rparr>"

definition SetExitHandler :: "'h \<Rightarrow> 'h process \<Rightarrow> 'h process" where
  "SetExitHandler handler p = SetSignalHandler SIGTERM handler (SetSignalHandler Interrupt handler p)"

text \<open>
  The locked part of \<^verbatim>\<open>Exit\<close>: the boolean says that the call returns at once. Otherwise its goroutine
  runs the copied handlers and terminates.
\<close>

definition Exit :: "int \<Rightarrow> 'h process \<Rightarrow> bool \<times> 'h process" where
  "Exit code p =
     (if pcExiting p then (True, p)
      else (False, p\<lparr>pcExiting := True, pcCaller := Some \<lparr>thHandlers = handlersFor p Interrupt, thNext = 0, thCode = Some code\<rparr>\<rparr>))"

definition Fatalf :: "'h process \<Rightarrow> bool \<times> 'h process" where
  "Fatalf p = Exit 1 p"

definition terminating :: "signal \<Rightarrow> bool" where
  "terminating sig \<longleftrightarrow> sig = SIGTERM \<or> sig = Interrupt"

text \<open>The locked part of one turn of the signal loop.\<close>

definition onSignal :: "signal \<Rightarrow> 'h process \<Rightarrow> 'h process" where
  "onSignal sig p =
     p\<lparr>pcExiting := (terminating sig \<or> pcExiting p),
       pcSignals := Some \<lparr>thHandlers = handlersFor p sig, thNext = 0, thCode = (if terminating sig then Some 1 else None)\<rparr>\<rparr>"

text \<open>The next step of a goroutine: a handler, \<^verbatim>\<open>os.Exit\<close>, or the end of the turn.\<close>

definition runThread :: "('h thread option \<Rightarrow> 'h process \<Rightarrow> 'h process) \<Rightarrow> 'h thread \<Rightarrow> 'h process \<Rightarrow> 'h process" where
  "runThread put th p =
     (if thNext th < length (thHandlers th)
      then put (Some (th\<lparr>thNext := thNext th + 1\<rparr>)) (p\<lparr>pcRun := pcRun p @ [thHandlers th ! thNext th]\<rparr>)
      else (case thCode th of
              Some code \<Rightarrow> p\<lparr>pcStatus := Some code\<rparr>
            | None \<Rightarrow> put None p))"

definition runCaller :: "'h thread \<Rightarrow> 'h process \<Rightarrow> 'h process" where
  "runCaller = runThread (\<lambda>t p. p\<lparr>pcCaller := t\<rparr>)"

definition runSignals :: "'h thread \<Rightarrow> 'h process \<Rightarrow> 'h process" where
  "runSignals = runThread (\<lambda>t p. p\<lparr>pcSignals := t\<rparr>)"

inductive step :: "'h process \<Rightarrow> 'h process \<Rightarrow> bool" where
  registers: "pcStatus p = None \<Longrightarrow> step p (SetExitHandler h p)"
| registers_signal: "pcStatus p = None \<Longrightarrow> step p (SetSignalHandler sig h p)"
| exits: "pcStatus p = None \<Longrightarrow> step p (snd (Exit code p))"
| receives: "pcStatus p = None \<Longrightarrow> pcSignals p = None \<Longrightarrow> step p (onSignal sig p)"
| caller: "pcStatus p = None \<Longrightarrow> pcCaller p = Some th \<Longrightarrow> step p (runCaller th p)"
| signals: "pcStatus p = None \<Longrightarrow> pcSignals p = Some th \<Longrightarrow> step p (runSignals th p)"

inductive_cases stepE: "step p q"

inductive reachable :: "'h process \<Rightarrow> bool" where
  start: "reachable NewProcess"
| more_steps: "reachable p \<Longrightarrow> step p q \<Longrightarrow> reachable q"


subsection \<open>Registration\<close>

lemma handlersFor_SetSignalHandler [simp]:
  "handlersFor (SetSignalHandler sig h p) sig' = (if sig' = sig then h # handlersFor p sig else handlersFor p sig')"
  by (simp add: SetSignalHandler_def handlersFor_def prepend_def mget_update)

lemma SetSignalHandler_fields [simp]:
  "pcExiting (SetSignalHandler sig h p) = pcExiting p" "pcCaller (SetSignalHandler sig h p) = pcCaller p"
  "pcSignals (SetSignalHandler sig h p) = pcSignals p" "pcRun (SetSignalHandler sig h p) = pcRun p"
  "pcStatus (SetSignalHandler sig h p) = pcStatus p"
  by (simp_all add: SetSignalHandler_def)

lemma handlersFor_SetExitHandlers:
  "terminating sig \<Longrightarrow> handlersFor (fold SetExitHandler hs p) sig = rev hs @ handlersFor p sig"
  by (induction hs arbitrary: p) (auto simp: SetExitHandler_def terminating_def)

lemma handlersFor_NewProcess [simp]: "handlersFor NewProcess sig = []"
  by (simp add: handlersFor_def NewProcess_def)

lemma SetExitHandlers_fields [simp]:
  "pcExiting (fold SetExitHandler hs p) = pcExiting p" "pcRun (fold SetExitHandler hs p) = pcRun p"
  "pcStatus (fold SetExitHandler hs p) = pcStatus p"
  by (induction hs arbitrary: p) (simp_all add: SetExitHandler_def)

subsection \<open>Goroutines and termination\<close>

text \<open>A goroutine has run the handlers before its position, in their order.\<close>

definition progress :: "'h list \<Rightarrow> 'h thread option \<Rightarrow> bool" where
  "progress rn t \<longleftrightarrow>
     (case t of None \<Rightarrow> True
      | Some th \<Rightarrow> thNext th \<le> length (thHandlers th) \<and> subseq (take (thNext th) (thHandlers th)) rn)"

definition finished :: "'h process \<Rightarrow> int \<Rightarrow> 'h thread \<Rightarrow> bool" where
  "finished p c th \<longleftrightarrow>
     (pcCaller p = Some th \<or> pcSignals p = Some th) \<and> thCode th = Some c \<and> subseq (thHandlers th) (pcRun p)"

definition pc_inv :: "'h process \<Rightarrow> bool" where
  "pc_inv p \<longleftrightarrow>
     progress (pcRun p) (pcCaller p) \<and> progress (pcRun p) (pcSignals p) \<and>
     (\<forall>th. pcCaller p = Some th \<or> pcSignals p = Some th \<and> thCode th \<noteq> None \<longrightarrow> pcExiting p) \<and>
     (\<forall>c. pcStatus p = Some c \<longrightarrow> (\<exists>th. finished p c th))"

lemma progress_mono: "progress rn t \<Longrightarrow> progress (rn @ [h]) t"
  by (auto simp: progress_def split: option.splits)

lemma progress_next:
  assumes "progress rn (Some th)" and "thNext th < length (thHandlers th)"
  shows "progress (rn @ [thHandlers th ! thNext th]) (Some (th\<lparr>thNext := Suc (thNext th)\<rparr>))"
  using assms by (auto simp: progress_def take_Suc_conv_app_nth intro: list_emb_append_mono)

lemma progress_new [simp]: "progress rn None" "progress rn (Some \<lparr>thHandlers = hs, thNext = 0, thCode = c\<rparr>)"
  by (simp_all add: progress_def)

lemma progress_finished:
  "progress rn (Some th) \<Longrightarrow> \<not> thNext th < length (thHandlers th) \<Longrightarrow> subseq (thHandlers th) rn"
  by (simp add: progress_def)

lemma runThread_cases:
  obtains (handler) "thNext th < length (thHandlers th)"
      "runThread put th p = put (Some (th\<lparr>thNext := thNext th + 1\<rparr>)) (p\<lparr>pcRun := pcRun p @ [thHandlers th ! thNext th]\<rparr>)"
  | (exit) code where "\<not> thNext th < length (thHandlers th)" "thCode th = Some code" "runThread put th p = p\<lparr>pcStatus := Some code\<rparr>"
  | (rest) "thCode th = None" "runThread put th p = put None p"
  by (cases "thNext th < length (thHandlers th)"; cases "thCode th") (auto simp: runThread_def)

lemma step_inv: "step p q \<Longrightarrow> pc_inv p \<Longrightarrow> pc_inv q"
proof (induction rule: step.induct)
  case (registers p h)
  then show ?case by (auto simp: pc_inv_def SetExitHandler_def)
next
  case (registers_signal p sig h)
  then show ?case by (auto simp: pc_inv_def)
next
  case (exits p code)
  then show ?case by (auto simp: pc_inv_def Exit_def)
next
  case (receives p sig)
  then show ?case by (auto simp: pc_inv_def onSignal_def)
next
  case (caller p th)
  show ?case
    by (rule runThread_cases [of th "\<lambda>t p. p\<lparr>pcCaller := t\<rparr>" p])
      (use caller in \<open>auto simp: pc_inv_def runCaller_def finished_def progress_mono progress_next dest: progress_finished\<close>)
next
  case (signals p th)
  show ?case
    by (rule runThread_cases [of th "\<lambda>t p. p\<lparr>pcSignals := t\<rparr>" p])
      (use signals in \<open>auto simp: pc_inv_def runSignals_def finished_def progress_mono progress_next dest: progress_finished\<close>)
qed

lemma reachable_inv: "reachable p \<Longrightarrow> pc_inv p"
proof (induction rule: reachable.induct)
  case start
  show ?case by (simp add: pc_inv_def NewProcess_def)
qed (rule step_inv)

text \<open>The goroutine of \<^verbatim>\<open>Exit\<close> on its own: the handlers in order, then the end.\<close>

lemma caller_runs:
  "pcStatus p = None \<Longrightarrow> pcCaller p = Some th \<Longrightarrow> thCode th = Some code \<Longrightarrow> thNext th \<le> length (thHandlers th) \<Longrightarrow>
     \<exists>q. step\<^sup>*\<^sup>* p q \<and> pcStatus q = Some code \<and> pcRun q = pcRun p @ drop (thNext th) (thHandlers th)"
proof (induction "length (thHandlers th) - thNext th" arbitrary: p th)
  case 0
  then have "step p (p\<lparr>pcStatus := Some code\<rparr>)"
    using step.caller [of p th] by (simp add: runCaller_def runThread_def)
  then show ?case using 0 by (intro exI [of _ "p\<lparr>pcStatus := Some code\<rparr>"]) (auto simp: r_into_rtranclp)
next
  case (Suc n)
  let ?th = "th\<lparr>thNext := thNext th + 1\<rparr>" and ?h = "thHandlers th ! thNext th"
  let ?p = "p\<lparr>pcRun := pcRun p @ [?h], pcCaller := Some ?th\<rparr>"
  from Suc.hyps(2) have lt: "thNext th < length (thHandlers th)" by simp
  then have st: "step p ?p" using step.caller [of p th] Suc.prems by (simp add: runCaller_def runThread_def)
  have "\<exists>q. step\<^sup>*\<^sup>* ?p q \<and> pcStatus q = Some code \<and> pcRun q = pcRun ?p @ drop (thNext ?th) (thHandlers ?th)"
    using Suc.hyps lt Suc.prems by (intro Suc.hyps(1)) auto
  then show ?case using st lt by (auto simp: Cons_nth_drop_Suc intro: converse_rtranclp_into_rtranclp)
qed

subsection \<open>Every schedule\<close>

text \<open>
  The runs from a state, with the number of steps that the goroutine of \<^verbatim>\<open>Exit\<close> made in them; all other steps,
  of the signal loop, of further calls and of registrations, may come between in any order.
\<close>

inductive sched :: "'h process \<Rightarrow> nat \<Rightarrow> 'h process \<Rightarrow> bool" for p where
  none: "sched p 0 p"
| own: "sched p n q \<Longrightarrow> pcStatus q = None \<Longrightarrow> pcCaller q = Some th \<Longrightarrow> sched p (Suc n) (runCaller th q)"
| other: "sched p n q \<Longrightarrow> step q r \<Longrightarrow> sched p n r"

text \<open>
  Once the process was not exiting with the handlers \<open>hs\<close> registered for each of the two terminating signals, a
  goroutine that is to terminate with a code, of which \<open>C\<close> holds, has copied them, perhaps behind later ones, and
  has run those before its position since then.
\<close>

definition copied :: "(signal \<Rightarrow> 'h list) \<Rightarrow> (int \<Rightarrow> bool) \<Rightarrow> 'h list \<Rightarrow> 'h thread option \<Rightarrow> bool" where
  "copied hs C zs t \<longleftrightarrow>
     (\<forall>th c. t = Some th \<and> thCode th = Some c \<longrightarrow>
        C c \<and> thNext th \<le> length (thHandlers th) \<and> subseq (take (thNext th) (thHandlers th)) zs \<and>
        (\<exists>sig. terminating sig \<and> suffix (hs sig) (thHandlers th)))"

text \<open>
  What holds after a state with these handlers, in terms of the handlers \<open>zs\<close> that ran since.
\<close>

definition since :: "(signal \<Rightarrow> 'h list) \<Rightarrow> (int \<Rightarrow> bool) \<Rightarrow> 'h list \<Rightarrow> 'h process \<Rightarrow> bool" where
  "since hs C zs p \<longleftrightarrow>
     pcExiting p \<and> (\<forall>sig. suffix (hs sig) (handlersFor p sig)) \<and>
     copied hs C zs (pcCaller p) \<and> copied hs C zs (pcSignals p) \<and>
     (\<forall>c. pcStatus p = Some c \<longrightarrow> C c \<and> (\<exists>sig. terminating sig \<and> subseq (hs sig) zs))"

lemma copied_simps [simp]: "copied hs C zs None"
  "copied hs C zs (Some \<lparr>thHandlers = xs, thNext = 0, thCode = c\<rparr>) \<longleftrightarrow>
     (\<forall>code. c = Some code \<longrightarrow> C code \<and> (\<exists>sig. terminating sig \<and> suffix (hs sig) xs))"
  by (auto simp: copied_def)

lemma copied_mono: "copied hs C zs t \<Longrightarrow> copied hs C (zs @ [h]) t"
  by (auto simp: copied_def)

lemma copied_next:
  assumes "copied hs C zs (Some th)" and "thNext th < length (thHandlers th)"
  shows "copied hs C (zs @ [thHandlers th ! thNext th]) (Some (th\<lparr>thNext := Suc (thNext th)\<rparr>))"
  using assms by (auto simp: copied_def take_Suc_conv_app_nth intro: list_emb_append_mono)

lemma copied_finished:
  assumes "copied hs C zs (Some th)" and "\<not> thNext th < length (thHandlers th)" and "thCode th = Some c"
  shows "C c \<and> (\<exists>sig. terminating sig \<and> subseq (hs sig) zs)"
  using assms suffix_imp_subseq subseq_order.trans unfolding copied_def by fastforce

text \<open>A step since then: some handlers ran, and the same holds of what has run in all.\<close>

definition goes :: "(signal \<Rightarrow> 'h list) \<Rightarrow> (int \<Rightarrow> bool) \<Rightarrow> 'h list \<Rightarrow> 'h process \<Rightarrow> 'h process \<Rightarrow> bool" where
  "goes hs C zs p q \<longleftrightarrow> (\<exists>ys. pcRun q = pcRun p @ ys \<and> since hs C (zs @ ys) q)"

lemma runCaller_since:
  assumes "since hs C zs p" and "pcStatus p = None" and "pcCaller p = Some th"
  shows "goes hs C zs p (runCaller th p)"
  unfolding runCaller_def
proof (cases rule: runThread_cases [of th "\<lambda>t q. q\<lparr>pcCaller := t\<rparr>" p])
  case handler
  then show "goes hs C zs p (runThread (\<lambda>t q. q\<lparr>pcCaller := t\<rparr>) th p)" using assms
    unfolding goes_def by (intro exI [of _ "[thHandlers th ! thNext th]"])
      (auto simp: since_def handlersFor_def copied_mono copied_next)
next
  case (exit code)
  then show "goes hs C zs p (runThread (\<lambda>t q. q\<lparr>pcCaller := t\<rparr>) th p)" using assms copied_finished [of hs C zs th code]
    unfolding goes_def by (intro exI [of _ "[]"]) (auto simp: since_def handlersFor_def)
next
  case rest
  then show "goes hs C zs p (runThread (\<lambda>t q. q\<lparr>pcCaller := t\<rparr>) th p)" using assms
    unfolding goes_def by (intro exI [of _ "[]"]) (auto simp: since_def handlersFor_def)
qed

lemma runSignals_since:
  assumes "since hs C zs p" and "pcStatus p = None" and "pcSignals p = Some th"
  shows "goes hs C zs p (runSignals th p)"
  unfolding runSignals_def
proof (cases rule: runThread_cases [of th "\<lambda>t q. q\<lparr>pcSignals := t\<rparr>" p])
  case handler
  then show "goes hs C zs p (runThread (\<lambda>t q. q\<lparr>pcSignals := t\<rparr>) th p)" using assms
    unfolding goes_def by (intro exI [of _ "[thHandlers th ! thNext th]"])
      (auto simp: since_def handlersFor_def copied_mono copied_next)
next
  case (exit code)
  then show "goes hs C zs p (runThread (\<lambda>t q. q\<lparr>pcSignals := t\<rparr>) th p)" using assms copied_finished [of hs C zs th code]
    unfolding goes_def by (intro exI [of _ "[]"]) (auto simp: since_def handlersFor_def)
next
  case rest
  then show "goes hs C zs p (runThread (\<lambda>t q. q\<lparr>pcSignals := t\<rparr>) th p)" using assms
    unfolding goes_def by (intro exI [of _ "[]"]) (auto simp: since_def handlersFor_def)
qed

lemma step_since: "step p q \<Longrightarrow> since hs C zs p \<Longrightarrow> C 1 \<Longrightarrow> goes hs C zs p q"
proof (induction rule: step.induct)
  case (registers p h)
  then show ?case by (auto simp: goes_def since_def SetExitHandler_def suffix_ConsI)
next
  case (registers_signal p sig h)
  then show ?case by (auto simp: goes_def since_def suffix_ConsI)
next
  case (exits p code)
  then show ?case by (auto simp: goes_def since_def Exit_def)
next
  case (receives p sig)
  then show ?case by (auto simp: goes_def since_def onSignal_def handlersFor_def)
next
  case (caller p th)
  then show ?case by (simp add: runCaller_since)
next
  case (signals p th)
  then show ?case by (simp add: runSignals_since)
qed

text \<open>
  In every schedule: the handlers that ran; and the goroutine of \<^verbatim>\<open>Exit\<close>, which stays as it is except for its
  own steps, has as many of them left as it has not made.
\<close>

lemma sched_since:
  assumes "sched p n r" and "since hs C [] p" and "C 1"
  shows "goes hs C [] p r"
  using assms(1)
proof (induction rule: sched.induct)
  case none
  show ?case using assms(2) by (simp add: goes_def)
next
  case (own n q th)
  then obtain zs where zs: "pcRun q = pcRun p @ zs" "since hs C zs q" by (auto simp: goes_def)
  from runCaller_since [OF zs(2) own.hyps(2,3)] zs(1) show ?case by (auto simp: goes_def)
next
  case (other n q r)
  then obtain zs where zs: "pcRun q = pcRun p @ zs" "since hs C zs q" by (auto simp: goes_def)
  from step_since [OF other.hyps(2) zs(2) assms(3)] zs(1) show ?case by (auto simp: goes_def)
qed

definition ahead :: "nat \<Rightarrow> nat \<Rightarrow> 'h process \<Rightarrow> bool" where
  "ahead m n p \<longleftrightarrow>
     pcStatus p \<noteq> None \<or>
     (pcExiting p \<and> (\<exists>th. pcCaller p = Some th \<and> thCode th \<noteq> None \<and> length (thHandlers th) = m \<and> n \<le> thNext th \<and> thNext th \<le> m))"

lemma ahead_own: "ahead m n p \<Longrightarrow> pcStatus p = None \<Longrightarrow> pcCaller p = Some th \<Longrightarrow> ahead m (Suc n) (runCaller th p)"
  by (cases "thNext th < m"; cases "thCode th") (auto simp: ahead_def runCaller_def runThread_def)

lemma ahead_step: "step p q \<Longrightarrow> ahead m n p \<Longrightarrow> ahead m n q"
proof (induction rule: step.induct)
  case (caller p th)
  then have "ahead m (Suc n) (runCaller th p)" by (intro ahead_own)
  then show ?case by (auto simp: ahead_def)
next
  case (signals p th)
  then show ?case by (auto simp: ahead_def runSignals_def runThread_def split: option.splits)
qed (auto simp: ahead_def SetExitHandler_def Exit_def onSignal_def)

lemma sched_ahead: "sched p n r \<Longrightarrow> ahead m 0 p \<Longrightarrow> ahead m n r"
  by (induction rule: sched.induct) (auto intro: ahead_own ahead_step)

text \<open>
  C27. Termination runs the exit handlers, under every schedule. Let a reachable process that is not yet exiting
  register the handlers \<open>hs\<close> with \<^verbatim>\<open>SetExitHandler\<close> and then call \<^verbatim>\<open>Exit\<close>. In every run from there, whatever signals
  arrive and whatever other goroutines do in between: once the goroutine of \<^verbatim>\<open>Exit\<close> has made more steps than there
  are handlers, the process has ended; and when the process has ended, then with the code of \<^verbatim>\<open>Exit\<close> or with
  the code 1 of the signal loop, and since the call \<open>hs\<close> have run in reverse order of registration, and after
  them the handlers that were registered before for one of the terminating signals. When nothing comes in
  between, exactly these run, and the code is the one of \<^verbatim>\<open>Exit\<close>.
\<close>

theorem exit_runs_handlers:
  assumes "reachable p" and "\<not> pcExiting p"
  shows "(\<forall>n r. sched (snd (Exit code (fold SetExitHandler hs p))) n r \<longrightarrow>
      (length hs + length (handlersFor p Interrupt) < n \<longrightarrow> pcStatus r \<noteq> None) \<and>
      (\<forall>c. pcStatus r = Some c \<longrightarrow>
         (c = code \<or> c = 1) \<and>
         (\<exists>zs sig. pcRun r = pcRun p @ zs \<and> terminating sig \<and> subseq (rev hs @ handlersFor p sig) zs))) \<and>
    (\<exists>q. step\<^sup>*\<^sup>* (snd (Exit code (fold SetExitHandler hs p))) q \<and> pcStatus q = Some code \<and>
         pcRun q = pcRun p @ rev hs @ handlersFor p Interrupt)"
proof -
  let ?q = "fold SetExitHandler hs p" and ?p = "snd (Exit code (fold SetExitHandler hs p))"
  define H where "H sig = (if terminating sig then rev hs @ handlersFor p sig else [])" for sig
  have idle: "pcStatus p = None" "pcCaller p = None" "\<And>th. pcSignals p = Some th \<Longrightarrow> thCode th = None"
    using reachable_inv [OF assms(1)] assms(2)
    by (cases "pcStatus p"; cases "pcCaller p"; auto simp: pc_inv_def finished_def)+
  have f: "pcSignals ?q = pcSignals p" by (induction hs arbitrary: p) (simp_all add: SetExitHandler_def)
  have h: "handlersFor ?q sig = rev hs @ handlersFor p sig" if "terminating sig" for sig
    using that by (rule handlersFor_SetExitHandlers)
  have e: "?p = ?q\<lparr>pcExiting := True, pcCaller := Some \<lparr>thHandlers = rev hs @ handlersFor p Interrupt, thNext = 0, thCode = Some code\<rparr>\<rparr>"
    using assms(2) h [of Interrupt] by (simp add: Exit_def terminating_def)
  have start: "since H (\<lambda>c. c = code \<or> c = 1) [] ?p"
    unfolding e since_def using idle h f
    by (auto simp: handlersFor_def [of "_\<lparr>pcExiting := _, pcCaller := _\<rparr>"] copied_def H_def terminating_def
        simp flip: handlersFor_def intro: exI [of _ Interrupt])
  have ah: "ahead (length hs + length (handlersFor p Interrupt)) 0 ?p" by (simp add: e ahead_def)
  show ?thesis
  proof (intro conjI allI impI)
    fix n r assume r: "sched ?p n r"
    show "length hs + length (handlersFor p Interrupt) < n \<Longrightarrow> pcStatus r \<noteq> None"
      using sched_ahead [OF r ah] by (auto simp: ahead_def)
    from sched_since [OF r start] obtain zs where zs: "pcRun r = pcRun p @ zs" "since H (\<lambda>c. c = code \<or> c = 1) zs r"
      by (auto simp: goes_def e)
    fix c assume c: "pcStatus r = Some c"
    with zs(2) show "c = code \<or> c = 1" by (simp add: since_def)
    from zs(2) c obtain sig where "terminating sig" "subseq (H sig) zs" by (auto simp: since_def)
    with zs(1) show "\<exists>zs sig. pcRun r = pcRun p @ zs \<and> terminating sig \<and> subseq (rev hs @ handlersFor p sig) zs"
      by (auto simp: H_def)
  next
    show "\<exists>q. step\<^sup>*\<^sup>* ?p q \<and> pcStatus q = Some code \<and> pcRun q = pcRun p @ rev hs @ handlersFor p Interrupt"
      using caller_runs [of ?p "\<lparr>thHandlers = rev hs @ handlersFor p Interrupt, thNext = 0, thCode = Some code\<rparr>" code] idle(1)
      by (simp add: e)
  qed
qed

text \<open>One handler, then two more and a call of \<^verbatim>\<open>Exit\<close>.\<close>

definition oneHandler :: "nat process" where
  "oneHandler = SetExitHandler 7 NewProcess"

lemma oneHandler_reachable: "reachable oneHandler"
  unfolding oneHandler_def by (rule reachable.more_steps [OF reachable.start step.registers]) (simp add: NewProcess_def)

theorem exit_runs_handlers_witness:
  "\<exists>q. step\<^sup>*\<^sup>* (snd (Exit 3 (fold SetExitHandler [8, 9] oneHandler))) q \<and> pcStatus q = Some 3 \<and> pcRun q = [9, 8, 7]"
proof -
  have o: "\<not> pcExiting oneHandler" "pcRun oneHandler = []" "handlersFor oneHandler Interrupt = [7]"
    by (simp_all add: oneHandler_def SetExitHandler_def) (simp_all add: NewProcess_def)
  then show ?thesis using exit_runs_handlers [OF oneHandler_reachable o(1), of 3 "[8, 9]", THEN conjunct2] by simp
qed


end
