(* ===== verification/Serve.thy ===== *)
theory Serve
  imports SyncerProps ApiProps Construction
begin

section \<open>The server program\<close>

text \<open>
  \<^verbatim>\<open>cmd/server/server.go\<close>, \<^verbatim>\<open>Server.Run\<close> and \<^verbatim>\<open>compileScripts\<close> of \<^verbatim>\<open>api/api.go\<close>, and
  \<^verbatim>\<open>script/script.go\<close>: how the parts are put together. The record \<open>program\<close> holds what the parts take from
  outside; the decoded configuration file and the embedded Cadence templates are part of it. The HTTP
  router of the Rosetta SDK is left out, its asserter is a boolean. \<^verbatim>\<open>text/template\<close> is the fragment
  that the scripts use: text with actions \<^verbatim>\<open>{{.Contracts.Name}}\<close>.
\<close>

subsection \<open>Scripts\<close>

text \<open>The text before the first occurrence of a doubled character, and the text after it.\<close>

fun cutAt :: "char \<Rightarrow> string \<Rightarrow> (string \<times> string) option" where
  "cutAt c [] = None"
| "cutAt c (x # xs) =
     (if x = c \<and> take 1 xs = [c] then Some ([], drop 1 xs)
      else map_option (\<lambda>(a, b). (x # a, b)) (cutAt c xs))"

definition contractField :: "Contracts \<Rightarrow> string \<Rightarrow> string option" where
  "contractField c name =
     map_of [(''.Contracts.FlowFees'', ctFlowFees c), (''.Contracts.FlowToken'', ctFlowToken c),
             (''.Contracts.FungibleToken'', ctFungibleToken c),
             (''.Contracts.FlowColdStorageProxy'', ctFlowColdStorageProxy c)] name"

lemma cutAt_length: "cutAt c s = Some (a, b) \<Longrightarrow> length b < length s"
  by (induction s arbitrary: a) (fastforce split: if_splits)+

lemma cutAt_Some: "cutAt c s = Some (a, b) \<Longrightarrow> s = a @ [c, c] @ b"
proof (induction s arbitrary: a)
  case (Cons x xs)
  then show ?case by (cases xs) (auto split: if_splits)
qed simp

function expand :: "Contracts \<Rightarrow> string \<Rightarrow> string checked" where
  "expand c s =
     (case cutAt CHR ''{'' s of
        None \<Rightarrow> Ok s
      | Some (before, rest) \<Rightarrow>
          (case cutAt CHR ''}'' rest of
             None \<Rightarrow> Fatal ''Failed to parse the script: unclosed action''
           | Some (action, after) \<Rightarrow>
               (case contractField c action of
                  None \<Rightarrow> Fatal ''Failed to compile the script''
                | Some v \<Rightarrow> andThen (expand c after) (\<lambda>out. Ok (before @ v @ out)))))"
  by pat_completeness auto
termination
  by (relation "measure (\<lambda>(c, s). length s)") (auto dest!: cutAt_length)

declare expand.simps [simp del]

definition Compile :: "string \<Rightarrow> Chain \<Rightarrow> bytes checked" where
  "Compile src chain = andThen (expand (chContracts chain) src) (\<lambda>out. Ok (map of_char out))"

record 'a scripts =
  scBasicTransfer :: 'a
  scComputeFees :: 'a
  scCreateAccount :: 'a
  scCreateProxyAccount :: 'a
  scGetBalances :: 'a
  scGetBalancesBasic :: 'a
  scGetFeeReceivers :: 'a
  scGetProxyNonce :: 'a
  scGetProxyPublicKey :: 'a
  scProxyTransfer :: 'a
  scSetContract :: 'a

definition compileScripts :: "string scripts \<Rightarrow> Chain \<Rightarrow> bytes scripts checked" where
  "compileScripts src chain =
     andThen (Compile (scBasicTransfer src) chain) (\<lambda>a.
     andThen (Compile (scComputeFees src) chain) (\<lambda>b.
     andThen (Compile (scCreateAccount src) chain) (\<lambda>c.
     andThen (Compile (scCreateProxyAccount src) chain) (\<lambda>d.
     andThen (Compile (scGetBalances src) chain) (\<lambda>e.
     andThen (Compile (scGetBalancesBasic src) chain) (\<lambda>f.
     andThen (Compile (scGetFeeReceivers src) chain) (\<lambda>g.
     andThen (Compile (scGetProxyNonce src) chain) (\<lambda>h.
     andThen (Compile (scGetProxyPublicKey src) chain) (\<lambda>i.
     andThen (Compile (scProxyTransfer src) chain) (\<lambda>j.
     andThen (Compile (scSetContract src) chain) (\<lambda>k.
     Ok \<lparr>scBasicTransfer = a, scComputeFees = b, scCreateAccount = c, scCreateProxyAccount = d, scGetBalances = e,
         scGetBalancesBasic = f, scGetFeeReceivers = g, scGetProxyNonce = h, scGetProxyPublicKey = i,
         scProxyTransfer = j, scSetContract = k\<rparr>)))))))))))"

subsection \<open>The server\<close>

text \<open>
  \<^verbatim>\<open>Server.Run\<close> up to the start of the HTTP server: the genesis block is read once, here. The
  goroutines of the validation are in \<open>ApiCall\<close>.
\<close>

definition RunServer :: "bool \<Rightarrow> string scripts \<Rightarrow> 'db Server \<Rightarrow> 'db Server checked" where
  "RunServer asserter src s =
     andThen (compileScripts src (svChain s)) (\<lambda>sc.
     andThen (FeeAddresses (chContracts (svChain s))) (\<lambda>fees.
     case Genesis (svEnv s) (svIndex s) of
       (st, Ok gen) \<Rightarrow>
         if \<not> asserter then Fatal ''Failed to instantiate the Rosetta asserter''
         else Ok (s\<lparr>svIndex := st, svFeeAddrs := fees, svGenesis := gen,
                    svNetworks := [(''flow'', chNetwork (svChain s))],
                    svScriptGetBalances := scGetBalances sc, svScriptGetBalancesBasic := scGetBalancesBasic sc,
                    svScriptGetFeeReceivers := scGetFeeReceivers sc, svScriptGetProxyNonce := scGetProxyNonce sc,
                    svScriptGetProxyPublicKey := scGetProxyPublicKey sc,
                    svValidation := \<lparr>vaAccounts = 0, vaChecked = 0, vaErr = [], vaStatus = ''not_started''\<rparr>\<rparr>)
     | (st, Err e) \<Rightarrow> Fatal ''Failed to get genesis block''
     | (st, Panic p) \<Rightarrow> Panic p
     | (st, Fatal m) \<Rightarrow> Fatal m))"

text \<open>The transaction scripts of the construction endpoints, filled in by the same call.\<close>

definition constructScripts :: "bytes scripts \<Rightarrow> ('db, 'k, 'sc) construct \<Rightarrow> ('db, 'k, 'sc) construct" where
  "constructScripts sc c =
     c\<lparr>cnScriptBasicTransfer := scBasicTransfer sc, cnScriptComputeFees := scComputeFees sc,
       cnScriptCreateAccount := scCreateAccount sc, cnScriptCreateProxyAccount := scCreateProxyAccount sc,
       cnScriptProxyTransfer := scProxyTransfer sc, cnScriptSetContract := scSetContract sc\<rparr>"

subsection \<open>The main function\<close>

record ('db, 'k, 's, 'h) program =
  pgSys :: sysEnv
  pgConfig :: "string \<Rightarrow> chainConfig checked"
  pgWorld :: "('db, 'k, 's) world"
  pgHost :: "'h host"
  pgPurgeOrder :: "(bytes \<times> bytes) list \<Rightarrow> (bytes \<times> bytes) list"
  pgNodes :: nodes
  pgTexts :: texts
  pgScripts :: "string scripts"
  pgAsserter :: bool
  pgMarshalInfo :: "(string, AccountInfo) gomap \<Rightarrow> (string, bytes) sum"

definition ExportAccounts :: "('db, 'k, 's, 'h) program \<Rightarrow> 'db Store \<Rightarrow> string \<Rightarrow> (string \<times> bytes) run" where
  "ExportAccounts P s filename =
     (case AccountsInfo (wEnv (pgWorld P)) s of
        Err e \<Rightarrow> Fatal ''Failed to export accounts''
      | Panic p \<Rightarrow> Panic p
      | Fatal m \<Rightarrow> Fatal m
      | Ok infos \<Rightarrow>
          andThen (mustGet ''Failed to encode data for export: '' (pgMarshalInfo P infos)) (\<lambda>enc.
          andThen (must (''Failed to write to '' @ filename @ '': '') (hsWriteFile (pgHost P) filename enc)) (\<lambda>_.
          Ok (filename, enc))))"

definition zeroIndexer :: Indexer where
  "zeroIndexer =
     \<lparr>ixAccts = [], ixFeeAddrs = [], ixLastIndexed = None, ixLiveRoot = None, ixOriginators = [], ixRoot = None,
      ixSealedResults = [], ixSynced = False, ixTypProxyCreated = [], ixTypProxyDeposited = [],
      ixTypProxyTransferred = [], ixTypTokensDeposited = [], ixTypTokensWithdrawn = []\<rparr>"

definition newServer :: "('db, 'k, 's, 'h) program \<Rightarrow> Chain \<Rightarrow> Indexer \<Rightarrow> 'db Store \<Rightarrow> 'db Server" where
  "newServer P cfg indexer index =
     \<lparr>svChain = cfg, svNodes = pgNodes P, svEnv = wEnv (pgWorld P), svIndex = index, svIndexer = indexer,
      svTexts = pgTexts P, svOffline = (chMode cfg = ''offline''), svFeeAddrs = [], svGenesis = None,
      svIndexedStateErr = None, svNetworks = [], svScriptGetBalances = [], svScriptGetBalancesBasic = [],
      svScriptGetFeeReceivers = [], svScriptGetProxyNonce = [], svScriptGetProxyPublicKey = [],
      svValidation = \<lparr>vaAccounts = 0, vaChecked = 0, vaErr = [], vaStatus = []\<rparr>\<rparr>"

definition indexPath :: "('db, 'k, 's, 'h) program \<Rightarrow> Chain \<Rightarrow> string" where
  "indexPath P cfg = hsJoin (pgHost P) [chDataDir cfg, chNetwork cfg @ ''-index'']"

text \<open>
  The indexer while the server is set up: \<^verbatim>\<open>Run\<close> of the indexer returns when its goroutine is started, and the
  goroutine makes some number of turns, any number, before \<^verbatim>\<open>srv.Run\<close> reads the store. The result is the indexer, the
  store and the position of the goroutine, \<open>None\<close> when there is no goroutine.
\<close>

definition runIndexer ::
  "nat \<Rightarrow> ('db, 'k, 's, 'h) program \<Rightarrow> nat \<Rightarrow> Chain \<Rightarrow> 'db Store \<Rightarrow> nat
     \<Rightarrow> (Indexer \<times> 'db Store \<times> 'db position option) run" where
  "runIndexer F P n cfg index t =
     andThen (startUp F (pgWorld P) (pgHost P) (pgPurgeOrder P) cfg zeroIndexer index t) (\<lambda>(started, i, s, t1).
     if started
     then andThen (indexTurns n F (pgWorld P) cfg (Outer i s t1)) (\<lambda>p. Ok (posIndexer p, posStore p, Some p))
     else Ok (i, s, None))"

text \<open>
  \<^verbatim>\<open>main\<close>: \<open>None\<close> is the end of the process after an export. Otherwise the result is the server at the moment when
  \<^verbatim>\<open>srv.Run\<close> returns, with the position of the goroutine that indexes beside it. The store and the indexer are
  pointers that the server shares with the goroutine: what the server sees when the goroutine is at a later position is
  \<open>serving\<close>.
\<close>

definition main ::
  "nat \<Rightarrow> ('db, 'k, 's, 'h) program \<Rightarrow> nat \<Rightarrow> string list \<Rightarrow> nat \<Rightarrow> ('db Server \<times> 'db position option) option run" where
  "main F P n args t =
     (if length args < 2 then Fatal ''Usage: server path/to/config.json [--export filename]''
      else
        andThen (checkedRun (andThen (pgConfig P (args ! 1)) (Init (pgSys P)))) (\<lambda>cfg.
        andThen (mapErr (\<lambda>_. OutOfFuel) (NewStore (wEnv (pgWorld P)) (indexPath P cfg))) (\<lambda>index.
        if length args = 4 \<and> args ! 2 = ''--export''
        then andThen (ExportAccounts P index (args ! 3)) (\<lambda>_. Ok None)
        else
          andThen (if chMode cfg = ''offline'' then Ok (zeroIndexer, index, None)
                   else runIndexer F P n cfg index t) (\<lambda>(indexer, index1, p).
          andThen (checkedRun (RunServer (pgAsserter P) (pgScripts P) (newServer P cfg indexer index1))) (\<lambda>srv.
          Ok (Some (srv, p)))))))"

definition serving :: "'db Server \<Rightarrow> 'db position \<Rightarrow> 'db Server" where
  "serving srv q = srv\<lparr>svIndex := posStore q, svIndexer := posIndexer q\<rparr>"

subsection \<open>What a validated configuration gives the indexer\<close>

lemma parseOriginators_length: "parseOriginators raws = Ok addrs \<Longrightarrow> \<forall>a \<in> set addrs. length a = 8"
  by (induction raws arbitrary: addrs) (auto split: option.splits if_splits)

lemma addSporks_originators: "addSporks E c ids r = Ok r1 \<Longrightarrow> chOriginators r1 = chOriginators r"
proof (induction ids arbitrary: r)
  case (Cons i ids)
  then obtain r2 where "addSpork E c (ids = []) i r = Ok r2" "addSporks E c ids r2 = Ok r1" by auto
  moreover from this(1) have "chOriginators r2 = chOriginators r"
    by (auto simp: addSpork_def split: option.splits)
  ultimately show ?case using Cons.IH by metis
qed simp

lemma parse_keeps_originators:
  "parseAndValidateConstructionAccessNodes E c r = Ok r1 \<Longrightarrow> chOriginators r1 = chOriginators r"
  "parseAndValidateResyncFrom c r = Ok r1 \<Longrightarrow> chOriginators r1 = chOriginators r"
  "parseAndValidateSkipBlocks E c r = Ok r1 \<Longrightarrow> chOriginators r1 = chOriginators r"
  "parseAndValidateSporkSealTolerance c r = Ok r1 \<Longrightarrow> chOriginators r1 = chOriginators r"
  "parseAndValidateWorkers E c r = Ok r1 \<Longrightarrow> chOriginators r1 = chOriginators r"
  "parseAndValidateSporks E c r = Ok r1 \<Longrightarrow> chOriginators r1 = chOriginators r"
  "parseAndValidateDisableConsensusFollower c r = Ok r1 \<Longrightarrow> chOriginators r1 = chOriginators r"
  by (auto simp: parseAndValidateConstructionAccessNodes_def parseAndValidateResyncFrom_def
      parseAndValidateSkipBlocks_def parseAndValidateSporkSealTolerance_def parseAndValidateWorkers_def
      parseAndValidateSporks_def parseAndValidateDisableConsensusFollower_def Let_def
      dest: addSporks_originators split: if_splits)

lemma Init_originators:
  assumes "Init E c = Ok chain" and "chMode chain \<noteq> ''offline''"
  shows "\<forall>a \<in> set (chOriginators chain). length a = 8"
proof -
  have "parseAndValidateOriginators c r = Ok r1 \<Longrightarrow> \<forall>a \<in> set (chOriginators r1). length a = 8" for r r1
    by (auto simp: parseAndValidateOriginators_def dest: parseOriginators_length)
  moreover from assms obtain r r1 where "parseAndValidateOriginators c r = Ok r1" "chOriginators chain = chOriginators r1"
    by (auto simp: Init_def dest!: parse_keeps_originators split: if_splits)
  ultimately show ?thesis by simp
qed

text \<open>What is assumed of the access nodes: the conditions of \<open>tame\<close> that the configuration does not give.\<close>

definition honest :: "nat \<Rightarrow> ('db, 'k, 's) world \<Rightarrow> Chain \<Rightarrow> (bytes \<Rightarrow> u64) \<Rightarrow> bool" where
  "honest F W chain idh \<longleftrightarrow>
     (\<forall>n k. range_order (wRange W n k)) \<and> (\<forall>n. range_order (wIndexRange W n)) \<and>
     (\<forall>spork height hash. fresh_accounts F W chain spork height hash) \<and>
     (\<forall>n sk h block. acBlockByHeight (wAccess W) n sk h = Inr block \<longrightarrow> idh (ebId block) = h)"

lemma honest_tame:
  "Init E c = Ok chain \<Longrightarrow> chMode chain \<noteq> ''offline'' \<Longrightarrow> honest F W chain idh \<Longrightarrow> tame F W chain idh"
  using Init_online by (auto simp: tame_def honest_def)

subsection \<open>From the database on disk to the chain that is served\<close>

text \<open>The database as it is opened: empty, or representing a chain.\<close>

definition opens :: "'db env \<Rightarrow> 'db \<Rightarrow> (bytes \<Rightarrow> u64) \<Rightarrow> (BlockMeta \<times> blk list) option \<Rightarrow> bool" where
  "opens E d idh st \<longleftrightarrow>
     (case st of
        None \<Rightarrow> env_ok E \<and> kvMap E d = []
      | Some (g, bs) \<Rightarrow> (\<exists>l. represents E \<lparr>db = d, genesis = None, latest = None\<rparr> g l bs) \<and> ids_ok idh g bs)"

definition continues :: "Chain \<Rightarrow> (BlockMeta \<times> blk list) option \<Rightarrow> BlockMeta \<Rightarrow> blk list \<Rightarrow> bool" where
  "continues chain st g bs \<longleftrightarrow>
     (case st of
        None \<Rightarrow> bmHeight g = spRootBlock (hd (chSporks chain))
      | Some (g0, bs0) \<Rightarrow> g = g0 \<and> (\<exists>k bs'. keeps chain g0 bs0 k \<and> bs = take k bs0 @ bs'))"

text \<open>
  What the server finds: an empty store without a goroutine, when the genesis block was not found; or a chain,
  which the goroutine, if there is one, only extends from its position on.
\<close>

definition found ::
  "('db, 'k, 's) world \<Rightarrow> Chain \<Rightarrow> (bytes \<Rightarrow> u64) \<Rightarrow> BlockMeta \<Rightarrow> blk list \<Rightarrow> 'db Store \<Rightarrow> 'db position option \<Rightarrow> bool" where
  "found W chain idh g bs s r \<longleftrightarrow>
     genesis s = Some g \<and> (\<exists>l. represents (wEnv W) s g l bs) \<and>
     (\<forall>p. r = Some p \<longrightarrow> posStore p = s \<and> pos_ok W chain idh g bs p)"

lemma position_rebase:
  assumes "pos_ok W chain idh g bs p"
  obtains bs' l where "pos_ok W chain idh g (bs @ bs') p" "represents (wEnv W) (posStore p) g l (bs @ bs')"
proof -
  from pos_ok_grown [OF assms] obtain bs' where h: "holds W chain idh g (bs @ bs') (posIndexer p) (posStore p)"
    by (auto simp: grown_def)
  then obtain l where l: "represents (wEnv W) (posStore p) g l (bs @ bs')" by (auto simp: holds_def)
  have "pos_ok W chain idh g (bs @ bs') p"
    using assms grown_start [OF h] by (cases p) (auto simp: live_ok_def)
  with l that show ?thesis by blast
qed

lemma runIndexer_found:
  assumes tame: "tame F (pgWorld P) chain idh" and orig: "\<forall>a \<in> set (chOriginators chain). length a = 8"
    and purge: "\<not> chPurgeProxyAccounts chain" and opens: "opens (wEnv (pgWorld P)) d idh st"
    and run: "runIndexer F P n chain \<lparr>db = d, genesis = None, latest = None\<rparr> t = Ok (i, s, r)"
  shows "st = None \<and> r = None \<and> s = \<lparr>db = d, genesis = None, latest = None\<rparr> \<or>
     (\<exists>g bs. continues chain st g bs \<and> found (pgWorld P) chain idh g bs s r)"
proof -
  let ?W = "pgWorld P" and ?s0 = "\<lparr>db = d, genesis = None, latest = None\<rparr>"
  from run obtain started i1 s1 t1 where
      up: "startUp F ?W (pgHost P) (pgPurgeOrder P) chain zeroIndexer ?s0 t = Ok (started, i1, s1, t1)"
      and rest: "(if started then andThen (indexTurns n F ?W chain (Outer i1 s1 t1)) (\<lambda>p. Ok (posIndexer p, posStore p, Some p))
        else Ok (i1, s1, None)) = (Ok (i, s, r) :: _ run)"
    by (auto simp: runIndexer_def)
  have turns: "\<exists>bs'. found ?W chain idh g (bs @ bs') s r"
    if h: "started \<Longrightarrow> holds ?W chain idh g bs i1 s1" and rep: "represents (wEnv ?W) s1 g l bs" and g: "genesis s1 = Some g" for g l bs
  proof (cases started)
    case True
    with rest obtain p where p: "indexTurns n F ?W chain (Outer i1 s1 t1) = Ok p" "s = posStore p" "r = Some p" by auto
    have "pos_ok ?W chain idh g bs (Outer i1 s1 t1)" using grown_start [OF h [OF True]] by simp
    from indexTurns_ok [OF tame p(1) this] g have ok: "pos_ok ?W chain idh g bs p" "genesis s = Some g" by (simp_all add: p(2))
    obtain bs' l' where "pos_ok ?W chain idh g (bs @ bs') p" "represents (wEnv ?W) s g l' (bs @ bs')"
      using position_rebase [OF ok(1)] p(2) by metis
    with p(2,3) ok(2) show ?thesis by (auto simp: found_def)
  next
    case False
    with rest rep g show ?thesis by (intro exI [of _ "[]"]) (auto simp: found_def)
  qed
  show ?thesis
  proof (cases st)
    case None
    with opens have E: "env_ok (wEnv ?W)" "kvMap (wEnv ?W) (db ?s0) = []" "genesis ?s0 = None" by (auto simp: opens_def)
    from tame E orig purge up show ?thesis
    proof (cases rule: startUp_fresh)
      case nothing
      with rest None show ?thesis by simp
    next
      case (set g l')
      with turns [of g "[]"] None show ?thesis by (auto simp: continues_def)
    qed
  next
    case (Some gbs)
    then obtain g bs l where st: "st = Some (g, bs)" and rep: "represents (wEnv ?W) ?s0 g l bs" and ids: "ids_ok idh g bs"
      using opens by (cases gbs) (auto simp: opens_def)
    obtain k l' where k: "keeps chain g bs k" "represents (wEnv ?W) s1 g l' (take k bs)" "genesis s1 = Some g"
        "started \<Longrightarrow> holds ?W chain idh g (take k bs) i1 s1"
      using startUp_existing [OF tame rep ids orig purge up] by blast
    from turns [OF k(4,2,3)] k(1) show ?thesis by (auto simp: st continues_def)
  qed
qed

lemma RunServer_serves:
  assumes "RunServer asserter src s = Ok srv"
  shows "svEnv srv = svEnv s" "svOffline srv = svOffline s" "svChain srv = svChain s"
    "svIndexer srv = svIndexer s" "Genesis (svEnv s) (svIndex s) = (svIndex srv, Ok (svGenesis srv))"
proof -
  obtain st gen where "Genesis (svEnv s) (svIndex s) = (st, gen)" by fastforce
  with assms show "svEnv srv = svEnv s" "svOffline srv = svOffline s" "svChain srv = svChain s"
    "svIndexer srv = svIndexer s" "Genesis (svEnv s) (svIndex s) = (svIndex srv, Ok (svGenesis srv))"
    by (cases gen; auto simp: RunServer_def split: if_splits)+
qed

lemma Genesis_db: "Genesis E s = (s', r) \<Longrightarrow> db s' = db s"
  by (auto simp: Genesis_def split: option.splits outcome.splits)

text \<open>
  The server has the chain: its store represents it, and the genesis block that it read is that of the chain. With
  heights that fit into the 63 bits of the Rosetta API, this is what the theorems about the endpoints start from.
\<close>

definition has_chain :: "'db Server \<Rightarrow> BlockMeta \<Rightarrow> blk list \<Rightarrow> bool" where
  "has_chain s g bs \<longleftrightarrow>
     (\<exists>l. represents (svEnv s) (svIndex s) g l bs) \<and> genesis (svIndex s) = Some g \<and> svGenesis s = Some g \<and> \<not> svOffline s"

lemma has_chain_serves: "has_chain s g bs \<and> tipHeight g bs < 2 ^ 63 \<longleftrightarrow> serves_chain s g bs"
  by (auto simp: has_chain_def serves_chain_def)

lemma served_chain:
  assumes "represents (svEnv s) (svIndex s) g l bs" and "\<not> svOffline s" and "RunServer asserter src s = Ok srv"
  shows "has_chain srv g bs"
proof -
  have "svIndex srv = svIndex s\<lparr>genesis := Some g\<rparr>" "svGenesis srv = Some g"
    using RunServer_serves(5) [OF assms(3)] Genesis_represents [OF assms(1)] by auto
  then show ?thesis
    using RunServer_serves [OF assms(3)] represents_cache(2) [OF assms(1)] assms(2) by (auto simp: has_chain_def)
qed

text \<open>The server goes on serving the chain at every later position of the goroutine.\<close>

lemma serving_chain:
  assumes tame: "tame F W chain idh" and found: "found W chain idh g bs s (Some p)"
    and turns: "indexTurns k F W chain p = Ok q" and srv: "has_chain srv g bs" "svEnv srv = wEnv W"
  shows "\<exists>bs'. has_chain (serving srv q) g (bs @ bs')"
proof -
  have p: "posStore p = s" "pos_ok W chain idh g bs p" "genesis s = Some g" using found by (simp_all add: found_def)
  from indexTurns_ok [OF tame turns p(2)] p have q: "pos_ok W chain idh g bs q" "genesis (posStore q) = Some g" by simp_all
  obtain bs' l where "represents (wEnv W) (posStore q) g l (bs @ bs')" using position_rebase [OF q(1)] by blast
  with q(2) srv show ?thesis by (auto simp: has_chain_def serving_def)
qed

text \<open>The steps of \<open>main\<close> when it returns a server.\<close>

lemma main_steps:
  assumes "main F P n args t = Ok (Some (srv, r))"
  obtains c index i s where "Init (pgSys P) c = Ok (svChain srv)"
    "NewStore (wEnv (pgWorld P)) (indexPath P (svChain srv)) = Ok index"
    "(if chMode (svChain srv) = ''offline'' then Ok (zeroIndexer, index, None)
      else runIndexer F P n (svChain srv) index t) = Ok (i, s, r)"
    "RunServer (pgAsserter P) (pgScripts P) (newServer P (svChain srv) i s) = Ok srv"
    "svOffline srv \<longleftrightarrow> chMode (svChain srv) = ''offline''"
proof -
  from assms obtain c cfg index i s where r: "Init (pgSys P) c = Ok cfg"
      "NewStore (wEnv (pgWorld P)) (indexPath P cfg) = Ok index"
      "(if chMode cfg = ''offline'' then Ok (zeroIndexer, index, None)
        else runIndexer F P n cfg index t) = Ok (i, s, r)"
      "RunServer (pgAsserter P) (pgScripts P) (newServer P cfg i s) = Ok srv"
    by (auto simp: main_def checkedRun_def split: if_splits)
  from RunServer_serves [OF r(4)] have cfg: "svChain srv = cfg" and off: "svOffline srv = (chMode cfg = ''offline'')"
    by (simp_all add: newServer_def)
  show ?thesis by (rule that [unfolded cfg, OF r off])
qed

lemma main_mode: "main F P n args t = Ok (Some (srv, r)) \<Longrightarrow> svOffline srv \<longleftrightarrow> chMode (svChain srv) = ''offline''"
  by (erule main_steps)

lemma main_online:
  assumes "main F P n args t = Ok (Some (srv, r))" and "\<not> svOffline srv"
    and "kvOpen (wEnv (pgWorld P)) (indexPath P (svChain srv)) = Inr d"
  obtains c i s where "Init (pgSys P) c = Ok (svChain srv)" "chMode (svChain srv) \<noteq> ''offline''"
    "runIndexer F P n (svChain srv) \<lparr>db = d, genesis = None, latest = None\<rparr> t = Ok (i, s, r)"
    "RunServer (pgAsserter P) (pgScripts P) (newServer P (svChain srv) i s) = Ok srv"
  using assms(1)
proof (rule main_steps)
  fix c index i s
  assume r: "Init (pgSys P) c = Ok (svChain srv)" "NewStore (wEnv (pgWorld P)) (indexPath P (svChain srv)) = Ok index"
    "(if chMode (svChain srv) = ''offline'' then Ok (zeroIndexer, index, None)
      else runIndexer F P n (svChain srv) index t) = Ok (i, s, r)"
    "RunServer (pgAsserter P) (pgScripts P) (newServer P (svChain srv) i s) = Ok srv"
    "svOffline srv \<longleftrightarrow> chMode (svChain srv) = ''offline''"
  from r(2) have "index = \<lparr>db = d, genesis = None, latest = None\<rparr>" by (simp add: NewStore_def assms(3))
  with r assms(2) that show ?thesis by simp
qed

subsection \<open>A program\<close>

text \<open>A server that starts on an empty database and sets its genesis block; the goroutine is started.\<close>

definition plainScripts :: "string scripts" where
  "plainScripts =
     \<lparr>scBasicTransfer = ''import FlowToken from 0x{{.Contracts.FlowToken}}'', scComputeFees = [], scCreateAccount = [],
      scCreateProxyAccount = [], scGetBalances = ''import FlowFees from 0x{{.Contracts.FlowFees}} pub'',
      scGetBalancesBasic = [], scGetFeeReceivers = [],
      scGetProxyNonce = [], scGetProxyPublicKey = [], scProxyTransfer = [], scSetContract = []\<rparr>"

definition sampleProgram :: "((bytes \<times> bytes) list, bool, nat, string) program" where
  "sampleProgram =
     \<lparr>pgSys = sampleSys, pgConfig = (\<lambda>_. Ok sampleConfig), pgWorld = startWorld, pgHost = sampleHost,
      pgPurgeOrder = (\<lambda>m. m), pgNodes = sampleNodes, pgTexts = sampleTexts, pgScripts = plainScripts,
      pgAsserter = True, pgMarshalInfo = (\<lambda>_. Inr [])\<rparr>"

lemma sample_honest: "honest F startWorld sampleChain startIds"
  using start_tame by (auto simp: tame_def honest_def)

lemma sample_scripts: "case compileScripts plainScripts sampleChain of Ok sc \<Rightarrow>
   scBasicTransfer sc = map of_char ''import FlowToken from 0x1654653399040a61'' | _ \<Rightarrow> False"
  by code_simp

lemma sample_findRoot:
  "\<exists>g. findRootBlock 2 startAccess (hd (chSporks sampleChain)) 1 = Ok (Some g, 2) \<and> bmHeight g = 10"
  "\<exists>g. findRootBlock 2 startAccess (last (chSporks sampleChain)) 2 = Ok (Some g, 3)"
proof -
  have r: "spRootBlock (hd (chSporks sampleChain)) = 10" "spRootBlock (last (chSporks sampleChain)) = 20"
    by code_simp+
  show "\<exists>g. findRootBlock 2 startAccess (hd (chSporks sampleChain)) 1 = Ok (Some g, 2) \<and> bmHeight g = 10"
    by (simp add: numeral_2_eq_2 startAccess_def r)
  show "\<exists>g. findRootBlock 2 startAccess (last (chSporks sampleChain)) 2 = Ok (Some g, 3)"
    by (simp add: numeral_2_eq_2 numeral_3_eq_3 startAccess_def r)
qed

lemma sample_fresh_run:
  "\<exists>i s g l. startUp 2 startWorld sampleHost (\<lambda>m. m) sampleChain zeroIndexer \<lparr>db = [], genesis = None, latest = None\<rparr> 1 =
       Ok (True, i, s, 3) \<and>
     represents sampleEnv s g l []"
proof -
  let ?s0 = "\<lparr>db = [], genesis = None, latest = None\<rparr> :: (bytes \<times> bytes) list Store"
  have e: "wEnv startWorld = sampleEnv" "wAccess startWorld = startAccess" "kvMap sampleEnv (db ?s0) = []"
    by (simp_all add: startWorld_def sampleWorld_def sampleEnv_def alistView_def)
  from sample_findRoot obtain g r where g: "findRootBlock 2 startAccess (hd (chSporks sampleChain)) 1 = Ok (Some g, 2)"
      and r: "findRootBlock 2 startAccess (last (chSporks sampleChain)) 2 = Ok (Some r, 3)" by blast
  have "encoded (marshalBlock sampleEnv \<lparr>ibTimestamp = bmTimestamp g, ibTransactions = []\<rparr>) \<noteq> None"
    by (simp add: sampleEnv_def sampleBlockEnc_def)
  from SetGenesis_represents [OF sampleEnv_ok e(3) this] obtain s where
    s: "SetGenesis sampleEnv ?s0 g = (s, Ok ())" "represents sampleEnv s g g []" by blast
  have c: "chSporks sampleChain \<noteq> []" "chResyncFrom sampleChain = 0" "\<not> chPurgeProxyAccounts sampleChain"
      "\<not> chCache sampleChain" "\<not> chUseConsensusFollower sampleChain"
      "case FeeAddresses (chContracts sampleChain) of Ok _ \<Rightarrow> True | _ \<Rightarrow> False" by code_simp+
  from c(6) obtain fees where fees: "FeeAddresses (chContracts sampleChain) = Ok fees" by (auto split: outcome.splits)
  from Accounts_represents [OF s(2)] obtain m where m: "Accounts sampleEnv s = Ok m" by blast
  have "\<exists>j. initState sampleEnv sampleChain i s = Ok j" for i
    by (simp add: initState_def m checkedRun_def fees Let_def)
  then obtain st where st: "initState sampleEnv sampleChain i s = Ok (st i)" for i by metis
  have first: "FirstSpork sampleChain = Ok (hd (chSporks sampleChain))" using c(1) by (simp add: FirstSpork_def hd_conv_nth)
  have "\<exists>i. startUp 2 startWorld sampleHost (\<lambda>m. m) sampleChain zeroIndexer ?s0 1 = Ok (True, i, s, 3)"
    by (simp add: startUp_def initStore_def e(1,2) Genesis_empty [OF sampleEnv_ok e(3)] checkedRun_def first g s(1) r
        LatestSpork_last [OF c(1)] c handlePurgeProxyAccounts_def handleResyncFrom_def st Let_def initWorkers_def
        startFollower_def orFatal_def del: One_nat_def andThen_Ok_iff andThen_Ok_rev)
  with s(2) show ?thesis by blast
qed

lemma sample_main: "\<exists>srv p. main 2 sampleProgram 0 [''server'', ''config.json''] 1 = Ok (Some (srv, Some p)) \<and>
   svChain srv = sampleChain \<and> svGenesis srv \<noteq> None"
proof -
  from sample_fresh_run obtain i s g l where
    run: "startUp 2 startWorld sampleHost (\<lambda>m. m) sampleChain zeroIndexer \<lparr>db = [], genesis = None, latest = None\<rparr> 1 =
      Ok (True, i, s, 3)"
    and rep: "represents sampleEnv s g l []" by blast
  have c: "chMode sampleChain \<noteq> ''offline''"
      "case FeeAddresses (chContracts sampleChain) of Ok _ \<Rightarrow> True | _ \<Rightarrow> False" by code_simp+
  from c(2) obtain fees where fees: "FeeAddresses (chContracts sampleChain) = Ok fees" by (auto split: outcome.splits)
  from sample_scripts obtain sc where sc: "compileScripts plainScripts sampleChain = Ok sc" by (auto split: outcome.splits)
  have p: "pgSys sampleProgram = sampleSys" "pgConfig sampleProgram f = Ok sampleConfig" "pgWorld sampleProgram = startWorld"
      "pgHost sampleProgram = sampleHost" "pgPurgeOrder sampleProgram = (\<lambda>m. m)" "pgScripts sampleProgram = plainScripts"
      "pgAsserter sampleProgram" "wEnv startWorld = sampleEnv" for f
    by (simp_all add: sampleProgram_def startWorld_def sampleWorld_def)
  have k: "NewStore sampleEnv dir = Ok \<lparr>db = [], genesis = None, latest = None\<rparr>" for dir
    by (simp add: NewStore_def sampleEnv_def)
  have "\<exists>srv. RunServer True plainScripts (newServer sampleProgram sampleChain i s) = Ok srv \<and>
      svChain srv = sampleChain \<and> svGenesis srv \<noteq> None"
    using Genesis_represents [OF rep] by (simp add: RunServer_def newServer_def sc fees p)
  then show ?thesis by (auto simp: main_def runIndexer_def p checkedRun_def sampleChain_Init k c run simp del: One_nat_def andThen_Ok_iff andThen_Ok_rev)
qed

end
