(* ===== verification/Reconciliation.thy ===== *)
theory Reconciliation
  imports ApiProps
begin

section \<open>The reconciliation command\<close>

text \<open>
  \<^verbatim>\<open>cmd/reconciliation/reconciliation.go\<close>: the tool replays the balance of an account over blocks of a running
  server and compares it with the balance that the server reports. The client of the Rosetta SDK is a
  record of its calls; the accounts file, read and decoded, is a function of its name. The account of an
  operation is never nil in what the server sends. \<open>None\<close> is the exit after the usage message, \<open>Some\<close> the
  inferred balance at the end of a run without mismatch.
\<close>

record rosettaClient =
  rcStatus :: "string option"
  rcOptions :: "string option"
  rcAsserter :: "string option"
  rcBalance :: "string \<Rightarrow> int \<Rightarrow> (string, string list) sum"
  rcBlock :: "int \<Rightarrow> (string, rosettaBlock) sum"

text \<open>\<^verbatim>\<open>strconv.ParseUint(s, 10, 64)\<close>: digits only.\<close>

definition parseUint64 :: "string \<Rightarrow> u64 option" where
  "parseUint64 s =
     (if s = [] then None
      else (case parseDigits 0 s of
              None \<Rightarrow> None
            | Some n \<Rightarrow> if n < 2 ^ 64 then Some (of_nat n) else None))"

text \<open>\<^verbatim>\<open>sort.Search\<close>: a binary search for the first index at which the predicate holds.\<close>

function searchLoop :: "(nat \<Rightarrow> bool) \<Rightarrow> nat \<Rightarrow> nat \<Rightarrow> nat" where
  "searchLoop f i j =
     (if i < j then (let h = (i + j) div 2 in if \<not> f h then searchLoop f (h + 1) j else searchLoop f i h) else i)"
  by pat_completeness auto
termination
  by (relation "measure (\<lambda>(f, i, j). j - i)") auto

declare searchLoop.simps [simp del]

definition Search :: "nat \<Rightarrow> (nat \<Rightarrow> bool) \<Rightarrow> nat" where
  "Search n f = searchLoop f 0 n"

text \<open>
  The heights from \<open>start\<close> to \<open>stop\<close>. At the largest height \<^verbatim>\<open>height <= end\<close> never fails, and the slice grows
  until memory is used up.
\<close>

definition heightRange :: "u64 \<Rightarrow> u64 \<Rightarrow> u64 list checked" where
  "heightRange start stop =
     (if start > stop then Ok []
      else if stop = -1 then Panic ''out of memory''
      else Ok (map of_nat [unat start..<Suc (unat stop)]))"

definition chooseBlocks :: "string list \<Rightarrow> u64 list \<Rightarrow> u64 list checked" where
  "chooseBlocks args blocks =
     (case parseUint64 (args ! 4) of
        None \<Rightarrow> Fatal ''Unable to decode start height''
      | Some start \<Rightarrow>
          andThen
            (if length args \<ge> 6 then
               (case parseUint64 (args ! 5) of
                  None \<Rightarrow> Fatal ''Unable to decode end height''
                | Some stop \<Rightarrow> heightRange start stop)
             else
               (let idx = Search (length blocks) (\<lambda>i. blocks ! i \<ge> start) in
                if idx = length blocks then Fatal ''Unable to find any blocks for start height''
                else Ok (drop idx blocks))) (\<lambda>bs.
          if bs = [] then Fatal ''Found no blocks to process'' else Ok bs))"

text \<open>The balance at an index, as an \<^verbatim>\<open>int64\<close>.\<close>

definition balanceAtIndex :: "rosettaClient \<Rightarrow> string \<Rightarrow> int \<Rightarrow> u64 checked" where
  "balanceAtIndex c addr idx =
     (case rcBalance c addr idx of
        Inl xerr \<Rightarrow> Fatal ''Failed to get account balance''
      | Inr [] \<Rightarrow> Panic ''index out of range''
      | Inr (v # _) \<Rightarrow>
          (case parseInt64 v of
             None \<Rightarrow> Fatal ''Failed to parse balance amount''
           | Some i \<Rightarrow> Ok (of_int i)))"

fun applyOps :: "string \<Rightarrow> rosettaOp list \<Rightarrow> u64 \<Rightarrow> u64 checked" where
  "applyOps addr [] inferred = Ok inferred"
| "applyOps addr (x # xs) inferred =
     (if roAccount x \<noteq> addr then applyOps addr xs inferred
      else (case roAmount x of
              None \<Rightarrow> applyOps addr xs inferred
            | Some v \<Rightarrow>
                if v = [] then applyOps addr xs inferred
                else (case parseInt64 v of
                        None \<Rightarrow> Fatal ''Failed to parse operation amount''
                      | Some amount \<Rightarrow> applyOps addr xs (inferred + of_int amount))))"

fun applyTxns :: "string \<Rightarrow> rosettaTxn list \<Rightarrow> u64 \<Rightarrow> u64 checked" where
  "applyTxns addr [] inferred = Ok inferred"
| "applyTxns addr (t # ts) inferred = andThen (applyOps addr (rtOperations t) inferred) (applyTxns addr ts)"

fun reconcileBlocks :: "rosettaClient \<Rightarrow> string \<Rightarrow> u64 list \<Rightarrow> u64 \<Rightarrow> u64 checked" where
  "reconcileBlocks c addr [] inferred = Ok inferred"
| "reconcileBlocks c addr (height # heights) inferred =
     (case rcBlock c (sint height) of
        Inl xerr \<Rightarrow> Fatal ''Failed to get block''
      | Inr block \<Rightarrow>
          andThen (applyTxns addr (rbTransactions block) inferred) (\<lambda>inferred1.
          andThen (balanceAtIndex c addr (sint height)) (\<lambda>balance.
          if inferred1 \<noteq> balance then Fatal ''Mismatching account balances''
          else reconcileBlocks c addr heights inferred1)))"

text \<open>The set-up of the client: the network status, the options and the asserter.\<close>

definition setUp :: "rosettaClient \<Rightarrow> unit checked" where
  "setUp c =
     andThen (fatalUnless (rcStatus c = None) ''Failed to get network status'') (\<lambda>_.
     andThen (fatalUnless (rcOptions c = None) ''Failed to get network options'') (\<lambda>_.
     fatalUnless (rcAsserter c = None) ''Failed to instantiate the asserter''))"

definition reconciliation ::
  "rosettaClient \<Rightarrow> (string \<Rightarrow> (string, u64 list) gomap checked) \<Rightarrow> string list \<Rightarrow> u64 option checked" where
  "reconciliation c files args =
     (if length args < 4 then Ok None
      else
        andThen (files (args ! 2)) (\<lambda>accounts.
        let addr = args ! 3 in
        andThen (subslice addr 2 (length addr)) (\<lambda>name.
        case map_of accounts name of
          None \<Rightarrow> Fatal ''Failed to find account''
        | Some blocks \<Rightarrow>
            andThen (setUp c) (\<lambda>_.
            andThen (elemAt blocks 0) (\<lambda>_.
            andThen
              (if length args \<ge> 5 then
                 andThen (chooseBlocks args blocks) (\<lambda>bs.
                 andThen (balanceAtIndex c addr (sint (hd bs - 1))) (\<lambda>inferred. Ok (bs, inferred)))
               else Ok (blocks, 0)) (\<lambda>(bs, inferred).
            andThen (reconcileBlocks c addr bs inferred) (\<lambda>final. Ok (Some final))))))))"

subsection \<open>The search\<close>

definition firstIn :: "(nat \<Rightarrow> bool) \<Rightarrow> nat \<Rightarrow> nat \<Rightarrow> nat \<Rightarrow> bool" where
  "firstIn f i j r \<longleftrightarrow> i \<le> r \<and> r \<le> j \<and> (\<forall>k. i \<le> k \<and> k < r \<longrightarrow> \<not> f k) \<and> (\<forall>k. r \<le> k \<and> k < j \<longrightarrow> f k)"

definition upward :: "(nat \<Rightarrow> bool) \<Rightarrow> nat \<Rightarrow> bool" where
  "upward f j \<longleftrightarrow> (\<forall>k l. k \<le> l \<and> l < j \<and> f k \<longrightarrow> f l)"

lemma searchLoop_first: "upward f j \<Longrightarrow> i \<le> j \<Longrightarrow> firstIn f i j (searchLoop f i j)"
proof (induction f i j rule: searchLoop.induct)
  case (1 f i j)
  show ?case
  proof (cases "i < j")
    case True
    define h where "h = (i + j) div 2"
    have h: "i \<le> h" "h < j" using True by (auto simp: h_def)
    have step: "searchLoop f i j = (if f h then searchLoop f i h else searchLoop f (h + 1) j)"
      using True by (subst searchLoop.simps) (simp add: Let_def h_def)
    show ?thesis
    proof (cases "f h")
      case f: True
      have "upward f h" using 1(3) h(2) by (auto simp: upward_def)
      then have "firstIn f i h (searchLoop f i h)" using 1(2) [OF True h_def] f h(1) by simp
      moreover have "\<forall>k. h \<le> k \<and> k < j \<longrightarrow> f k" using 1(3) f h by (auto simp: upward_def)
      ultimately show ?thesis using h f unfolding step firstIn_def by (auto simp: not_less) (meson not_le)
    next
      case f: False
      then have "firstIn f (h + 1) j (searchLoop f (h + 1) j)" using 1(1) [OF True h_def] 1(3) h(2) by simp
      moreover have "\<not> f k" if "k \<le> h" for k using 1(3) f h(2) that by (auto simp: upward_def)
      ultimately show ?thesis using h f unfolding step firstIn_def by (auto simp: Suc_le_eq) (meson not_less)
    qed
  qed (use 1(4) in \<open>auto simp: firstIn_def searchLoop.simps\<close>)
qed

lemma firstIn_drop:
  assumes "firstIn (\<lambda>i. P (xs ! i)) 0 (length xs) k"
  shows "drop k xs = filter P xs"
proof -
  have "filter P (take k xs) = []" using assms by (auto simp: firstIn_def filter_empty_conv in_set_conv_nth)
  moreover have "filter P (drop k xs) = drop k xs" using assms by (auto simp: firstIn_def filter_id_conv in_set_conv_nth)
  ultimately show ?thesis by (metis append_take_drop_id filter_append append_Nil)
qed

lemma Search_drop:
  assumes "sorted blocks"
  shows "drop (Search (length blocks) (\<lambda>i. blocks ! i \<ge> start)) blocks = filter (\<lambda>b. b \<ge> start) blocks"
proof (rule firstIn_drop)
  have "upward (\<lambda>i. blocks ! i \<ge> start) (length blocks)"
    unfolding upward_def using sorted_nth_mono [OF assms] by (blast intro: order_trans)
  then show "firstIn (\<lambda>i. blocks ! i \<ge> start) 0 (length blocks) (Search (length blocks) (\<lambda>i. blocks ! i \<ge> start))"
    unfolding Search_def by (rule searchLoop_first) simp
qed

subsection \<open>The contract of a Rosetta server\<close>

text \<open>
  What the tool relies on: over a range of heights the client answers, its balances are numbers, and the
  balance at a height is the one before plus the operations of the block.
\<close>

lemma applyOps_reported:
  "list_all readableOp ops \<Longrightarrow> applyOps addr ops inferred = Ok (inferred + of_int (reported addr ops))"
  by (induction ops arbitrary: inferred)
    (auto simp: reported_def readableOp_def amountOf_def parseInt64_def algebra_simps split: option.splits)

lemma applyTxns_reported:
  "list_all (\<lambda>t. list_all readableOp (rtOperations t)) ts \<Longrightarrow>
     applyTxns addr ts inferred = Ok (inferred + of_int (sum_list (map (\<lambda>t. reported addr (rtOperations t)) ts)))"
  by (induction ts arbitrary: inferred) (auto simp: applyOps_reported algebra_simps)

locale ledger =
  fixes client :: "'s \<Rightarrow> rosettaClient"
    and addr :: "'s \<Rightarrow> string"
    and covers :: "'s \<Rightarrow> nat \<Rightarrow> nat \<Rightarrow> bool"
    and worth :: "'s \<Rightarrow> nat \<Rightarrow> u64"
  assumes heights_small: "covers s lo hi \<Longrightarrow> hi < 2 ^ 63"
    and balance_law: "covers s lo hi \<Longrightarrow> lo \<le> n \<Longrightarrow> n \<le> hi \<Longrightarrow>
      \<exists>v vs. rcBalance (client s) (addr s) (int n) = Inr (v # vs) \<and> parseInt64 v = Some (sint (worth s n))"
    and block_law: "covers s lo hi \<Longrightarrow> lo < n \<Longrightarrow> n \<le> hi \<Longrightarrow>
      \<exists>b. rcBlock (client s) (int n) = Inr b \<and> readable b \<and> worth s n = worth s (n - 1) + of_int (reportedBlock (addr s) b)"
begin

lemma index_of: "covers s lo hi \<Longrightarrow> n \<le> hi \<Longrightarrow> sint (of_nat n :: u64) = int n"
  using heights_small [of s lo hi] sint_small [of "of_nat n :: u64"] by (simp add: uint_nat unat_of_nat)

lemma balance_read: "covers s lo hi \<Longrightarrow> lo \<le> n \<Longrightarrow> n \<le> hi \<Longrightarrow> balanceAtIndex (client s) (addr s) (int n) = Ok (worth s n)"
  using balance_law [of s lo hi n] by (auto simp: balanceAtIndex_def)

text \<open>The heights may leave out blocks that do not change the balance.\<close>

fun follows :: "'s \<Rightarrow> nat \<Rightarrow> nat list \<Rightarrow> bool" where
  "follows s p [] = True"
| "follows s p (n # ns) \<longleftrightarrow> p < n \<and> worth s (n - 1) = worth s p \<and> follows s n ns"

lemma reconcile_passes:
  "covers s lo hi \<Longrightarrow> lo \<le> p \<Longrightarrow> follows s p ns \<Longrightarrow> \<forall>n \<in> set ns. n \<le> hi \<Longrightarrow>
     reconcileBlocks (client s) (addr s) (map of_nat ns) (worth s p) = Ok (worth s (last (p # ns)))"
proof (induction ns arbitrary: p)
  case (Cons n ns)
  then have n: "p < n" "worth s (n - 1) = worth s p" "n \<le> hi" "lo < n" by auto
  from block_law [OF Cons.prems(1) n(4,3)] obtain b where
    b: "rcBlock (client s) (int n) = Inr b" "readable b" "worth s n = worth s p + of_int (reportedBlock (addr s) b)"
    using n(2) by auto
  have "applyTxns (addr s) (rbTransactions b) (worth s p) = Ok (worth s n)"
    using applyTxns_reported b(2,3) by (simp add: readable_def reportedBlock_def)
  moreover have "balanceAtIndex (client s) (addr s) (int n) = Ok (worth s n)"
    using balance_read [OF Cons.prems(1) _ n(3)] n(4) by simp
  moreover have "reconcileBlocks (client s) (addr s) (map of_nat ns) (worth s n) = Ok (worth s (last (n # ns)))"
    using Cons n(4) by (intro Cons.IH) auto
  ultimately show ?case using b(1) index_of [OF Cons.prems(1) n(3)]
    by (simp del: andThen_Ok_iff andThen_Ok_rev)
qed simp

lemma follows_upt: "follows s p [Suc p..<Suc q]"
proof (induction "q - p" arbitrary: p)
  case (Suc k)
  then have "[Suc p..<Suc q] = Suc p # [Suc (Suc p)..<Suc q]" by (subst upt_conv_Cons) auto
  moreover have "follows s (Suc p) [Suc (Suc p)..<Suc q]" using Suc by (intro Suc.hyps) auto
  ultimately show ?case by simp
qed simp

text \<open>A list of heights that has every height at which the balance changes.\<close>

lemma worth_steady: "p \<le> q \<Longrightarrow> \<forall>k. p < k \<and> k \<le> q \<longrightarrow> worth s k = worth s (k - 1) \<Longrightarrow> worth s q = worth s p"
proof (induction rule: dec_induct)
  case (step m)
  then show ?case by (metis Suc_leD diff_Suc_1 le_imp_less_Suc le_Suc_eq order_refl)
qed simp

lemma follows_changes:
  "sorted_wrt (<) ns \<Longrightarrow> \<forall>n \<in> set ns. p < n \<and> n \<le> hi \<Longrightarrow>
     \<forall>k. p < k \<and> k \<le> hi \<and> k \<notin> set ns \<longrightarrow> worth s k = worth s (k - 1) \<Longrightarrow> p \<le> hi \<Longrightarrow>
     follows s p ns \<and> worth s (last (p # ns)) = worth s hi"
proof (induction ns arbitrary: p)
  case Nil
  then show ?case using worth_steady [of p hi s] by simp
next
  case (Cons n ns)
  have "worth s k = worth s (k - 1)" if "p < k" "k \<le> n - 1" for k
    using Cons.prems(1,2,3) that by fastforce
  then have "worth s (n - 1) = worth s p" using Cons.prems(2) by (intro worth_steady) auto
  moreover have "follows s n ns \<and> worth s (last (n # ns)) = worth s hi" using Cons.prems by (intro Cons.IH) auto
  ultimately show ?case using Cons.prems(2) by simp
qed

lemma replay:
  assumes cov: "covers s p hi" and ns: "follows s p ns" "\<forall>n \<in> set ns. n \<le> hi" "ns = Suc p # ms"
    and args: "5 \<le> length args" "args ! 3 = addr s" "addr s = c # d # name"
    and got: "setUp (client s) = Ok ()" "files (args ! 2) = Ok accounts" "map_of accounts name = Some (h # hs)"
      "chooseBlocks args (h # hs) = Ok (map of_nat ns)"
  shows "reconciliation (client s) files args = Ok (Some (worth s (last (p # ns))))"
proof -
  have p: "p \<le> hi" using ns(2,3) by simp
  define ls where "ls = (map of_nat ns :: u64 list)"
  have "of_nat (Suc p) - 1 = (of_nat p :: u64)" by simp
  then have "sint (hd ls - 1) = int p" using index_of [OF cov p] ns(3) by (simp add: ls_def)
  moreover have "reconcileBlocks (client s) (addr s) ls (worth s p) = Ok (worth s (last (p # ns)))"
    unfolding ls_def by (rule reconcile_passes [OF cov order_refl ns(1,2)])
  moreover have "balanceAtIndex (client s) (addr s) (int p) = Ok (worth s p)" by (rule balance_read [OF cov order_refl p])
  moreover have "subslice (addr s) 2 (length (addr s)) = (Ok name :: string checked)" by (simp add: args(3))
  ultimately show ?thesis using args(1,2) got
    by (simp add: reconciliation_def elemAt_def Let_def ls_def [symmetric] del: andThen_Ok_iff andThen_Ok_rev)
qed

end

subsection \<open>The server of this repository\<close>

text \<open>
  The client over the endpoints of the server: HTTP and the SDK hand the answers on, \<open>sdk\<close> holds the rest
  of the client. A panic or a stopped server is a failed call.
\<close>

definition answerOf :: "'a response \<Rightarrow> (string, 'a) sum" where
  "answerOf r = (case r of Ok x \<Rightarrow> Inr x | Err e \<Rightarrow> Inl (xeMessage e) | Panic p \<Rightarrow> Inl p | Fatal m \<Rightarrow> Inl m)"

definition atIndex :: "int \<Rightarrow> partialBlock option" where
  "atIndex idx = Some \<lparr>pbHash = None, pbIndex = Some idx\<rparr>"

definition serverClient :: "rosettaClient \<Rightarrow> 'db Server \<Rightarrow> rosettaClient" where
  "serverClient sdk s =
     sdk\<lparr>rcBalance := (\<lambda>addr idx. map_sum id (\<lambda>r. [arValue r]) (answerOf (wrappedAccountBalance s (Some addr) (atIndex idx) []))),
         rcBlock := (\<lambda>idx. answerOf (wrappedBlock s (atIndex idx)))\<rparr>"

record 'db view =
  vwSdk :: rosettaClient
  vwServer :: "'db Server"
  vwAccount :: bytes
  vwGenesis :: BlockMeta
  vwBlocks :: "blk list"

definition viewClient :: "'db view \<Rightarrow> rosettaClient" where
  "viewClient v = serverClient (vwSdk v) (vwServer v)"

definition viewAddr :: "'db view \<Rightarrow> string" where
  "viewAddr v = addressText (vwAccount v)"

text \<open>The blocks above \<open>lo\<close> up to \<open>hi\<close> are as the reconciliation of the endpoints needs them.\<close>

definition reconcilable :: "BlockMeta \<Rightarrow> blk list \<Rightarrow> nat \<Rightarrow> nat \<Rightarrow> bool" where
  "reconcilable g bs lo hi \<longleftrightarrow>
     (\<forall>n b. lo < n \<and> n \<le> hi \<and> blkAt g bs n = Some b \<longrightarrow>
        list_all reportable (blockOps (snd b)) \<and> uniqueOps (ibTransactions (snd b)))"

lemma reconcilable_mono: "reconcilable g bs lo hi \<Longrightarrow> lo \<le> lo' \<Longrightarrow> reconcilable g bs lo' hi"
  unfolding reconcilable_def by (meson le_less_trans)

definition viewCovers :: "'db view \<Rightarrow> nat \<Rightarrow> nat \<Rightarrow> bool" where
  "viewCovers v lo hi \<longleftrightarrow>
     serves_chain (vwServer v) (vwGenesis v) (vwBlocks v) \<and> svIndexedStateErr (vwServer v) = None \<and> length (vwAccount v) = 8 \<and>
     baseHeight (vwGenesis v) \<le> lo \<and> hi \<le> tipHeight (vwGenesis v) (vwBlocks v) \<and>
     reconcilable (vwGenesis v) (vwBlocks v) lo hi"

definition viewWorth :: "'db view \<Rightarrow> nat \<Rightarrow> u64" where
  "viewWorth v n = balanceAt (vwGenesis v) (vwBlocks v) (vwAccount v) n"

lemma sint_nonneg: "0 \<le> sint w \<Longrightarrow> sint w = uint w" for w :: u64
proof -
  assume "0 \<le> sint w"
  then have b: "\<not> bit (uint w) 63" by (simp add: sint_uint signed_take_bit_nonnegative_iff)
  have "uint w < 2 ^ 64" using unsigned_less [of w, where 'a = int] by simp
  then have "uint w = take_bit (Suc 63) (uint w)" by (intro take_bit_int_eq_self [symmetric]) auto
  also have "\<dots> = take_bit 63 (uint w)" using b by (simp only: take_bit_Suc_from_most) simp
  finally show ?thesis using b by (simp add: sint_uint signed_take_bit_eq_if_positive)
qed

lemma served_balance:
  assumes "viewCovers v lo hi" "lo \<le> n" "n \<le> hi"
  shows "\<exists>x xs. rcBalance (viewClient v) (viewAddr v) (int n) = Inr (x # xs) \<and> parseInt64 x = Some (sint (viewWorth v n))"
proof -
  let ?w = "viewWorth v n"
  from assms have sv: "serves_chain (vwServer v) (vwGenesis v) (vwBlocks v)" "length (vwAccount v) = 8"
      "baseHeight (vwGenesis v) \<le> n" "n \<le> tipHeight (vwGenesis v) (vwBlocks v)" "getIndexedStateErr (vwServer v) = None"
    by (auto simp: viewCovers_def getIndexedStateErr_def)
  from AccountBalance_height [OF sv(1-4)] obtain r where
    r: "AccountBalance (vwServer v) (Some (viewAddr v)) (atIndex (int n)) [] = Ok r" "arValue r = formatUint ?w"
    by (auto simp: atHeight_def atIndex_def viewAddr_def viewWorth_def)
  have "0 \<le> sint ?w" using sv(1,2) by (auto simp: serves_chain_def viewWorth_def dest!: represents_chain simp: chain_ok_def)
  then have "parseInt64 (formatUint ?w) = Some (sint ?w)"
    using sint_nonneg [of ?w] parseInt64_formatUint [of ?w] sint_lt [of ?w] by simp
  with r sv(5) show ?thesis
    by (simp add: viewClient_def serverClient_def wrappedAccountBalance_def guarded_def answerOf_def)
qed

lemma balanceAt_Suc: "balanceAt g bs a (Suc n) = balanceAt g bs a n + diffAt g bs a (Suc n)"
  by (simp add: balanceAt_def)

lemma diffAt_Some: "blkAt g bs n = Some b \<Longrightarrow> diffAt g bs a n = blockDiff a (snd b)"
  by (simp add: diffAt_def)

lemma served_block:
  assumes "viewCovers v lo hi" "lo < n" "n \<le> hi"
  shows "\<exists>b. rcBlock (viewClient v) (int n) = Inr b \<and> readable b \<and>
    viewWorth v n = viewWorth v (n - 1) + of_int (reportedBlock (viewAddr v) b)"
proof -
  let ?g = "vwGenesis v" and ?bs = "vwBlocks v" and ?a = "vwAccount v"
  from assms have sv: "serves_chain (vwServer v) ?g ?bs" "length ?a = 8" "baseHeight ?g < n" "getIndexedStateErr (vwServer v) = None"
    by (auto simp: viewCovers_def getIndexedStateErr_def)
  from assms obtain b where b: "blkAt ?g ?bs n = Some b" by (auto simp: viewCovers_def blkAt_def)
  with assms have ok: "list_all reportable (blockOps (snd b))" "uniqueOps (ibTransactions (snd b))"
    unfolding viewCovers_def reconcilable_def by blast+
  from ApiBlock_height [OF sv(1-3) b ok] obtain blk where
    blk: "ApiBlock (vwServer v) (atIndex (int n)) = Ok blk" "of_int (reportedBlock (viewAddr v) blk) = blockDiff ?a (snd b)" "readable blk"
    by (auto simp: atHeight_def atIndex_def viewAddr_def)
  have "Suc (n - 1) = n" using sv(3) by simp
  then have "viewWorth v n = viewWorth v (n - 1) + blockDiff ?a (snd b)"
    using b by (metis balanceAt_Suc diffAt_Some viewWorth_def)
  with blk sv(4) show ?thesis by (simp add: viewClient_def serverClient_def wrappedBlock_def guarded_def answerOf_def)
qed

interpretation served: ledger viewClient viewAddr viewCovers viewWorth
proof
  show "hi < 2 ^ 63" if "viewCovers v lo hi" for v :: "'a view" and lo hi
    using that by (auto simp: viewCovers_def serves_chain_def)
qed (fact served_balance, fact served_block)

lemma parseUint64_formatUint [simp]: "parseUint64 (formatUint w) = Some w"
proof -
  have "unat w < 2 ^ 64" using unsigned_less [of w, where 'a = nat] by simp
  then show ?thesis using formatNat_ne [of "unat w"] by (simp add: parseUint64_def formatUint_def parseDigits_formatNat)
qed

lemma setUp_serverClient: "setUp (serverClient sdk s) = setUp sdk"
  by (simp add: setUp_def serverClient_def)

text \<open>
  C12. The tool finds no mismatch on this server: when the server serves a chain, no mismatch has been recorded, and
  the blocks of the range hold operations as the indexer makes them, \<^verbatim>\<open>reconciliation\<close> over any range of indexed
  heights after the genesis block ends with the balance at the last height, whatever the accounts file lists for
  the account.
\<close>

theorem reconciliation_passes:
  assumes "serves_chain s g bs" and "svIndexedStateErr s = None" and "length a = 8"
    and "baseHeight g < unat start" and "start \<le> stop" and "unat stop \<le> tipHeight g bs"
    and "reconcilable g bs (unat start - 1) (unat stop)"
    and "setUp sdk = Ok ()" and "files file = Ok accounts" and "map_of accounts (hexEncode a) = Some (h # hs)"
  shows "reconciliation (serverClient sdk s) files [prog, network, file, addressText a, formatUint start, formatUint stop] =
    Ok (Some (balanceAt g bs a (unat stop)))"
proof -
  define v where "v = \<lparr>vwSdk = sdk, vwServer = s, vwAccount = a, vwGenesis = g, vwBlocks = bs\<rparr>"
  define p where "p = unat start - 1"
  have p: "Suc p = unat start" "p < unat stop" "unat start \<le> unat stop" using assms(4,5) by (auto simp: p_def word_le_nat_alt)
  have cov: "viewCovers v p (unat stop)" using assms(1-4,6,7) p by (simp add: viewCovers_def v_def p_def)
  have v: "viewClient v = serverClient sdk s" "viewAddr v = addressText a" "viewWorth v n = balanceAt g bs a n" for n
    by (simp_all add: v_def viewClient_def viewAddr_def viewWorth_def)
  have "unat stop < 2 ^ 63" using served.heights_small [OF cov] .
  moreover have "unat (-1 :: u64) = 2 ^ 64 - 1" by (simp add: unsigned_minus_1_eq_mask mask_eq_exp_minus_1)
  ultimately have "stop \<noteq> -1" by auto
  then have range: "heightRange start stop = Ok (map of_nat [Suc p..<Suc (unat stop)])"
    using assms(5) p(1) by (simp add: heightRange_def del: upt_Suc)
  have "[Suc p..<Suc (unat stop)] = Suc p # [Suc (Suc p)..<Suc (unat stop)]" using p(2) by (subst upt_conv_Cons) auto
  moreover have "chooseBlocks [prog, network, file, addressText a, formatUint start, formatUint stop] (h # hs) =
      Ok (map of_nat [Suc p..<Suc (unat stop)])"
    using range p(2) by (simp add: chooseBlocks_def del: andThen_Ok_iff andThen_Ok_rev)
  moreover have "last (p # [Suc p..<Suc (unat stop)]) = unat stop" using p(2) by simp
  ultimately show ?thesis
    using served.replay [OF cov served.follows_upt, of "unat stop" "[Suc (Suc p)..<Suc (unat stop)]"
        "[prog, network, file, addressText a, formatUint start, formatUint stop]" "CHR ''0''" "CHR ''x''" "hexEncode a" files accounts h hs]
      assms(8-10) p(2) by (simp add: v setUp_serverClient addressText_def del: upt_Suc last.simps)
qed

text \<open>A chain with one block above its genesis, and the account of alice.\<close>

definition sampleSdk :: rosettaClient where
  "sampleSdk =
     \<lparr>rcStatus = None, rcOptions = None, rcAsserter = None, rcBalance = (\<lambda>_ _. Inl ''down''), rcBlock = (\<lambda>_. Inl ''down'')\<rparr>"

lemma sampleHeights:
  "baseHeight sampleGenesis = 5" "tipHeight sampleGenesis [([10], block1)] = 6" "length alice = 8" "setUp sampleSdk = Ok ()"
  by (simp_all add: baseHeight_def tipHeight_def sampleGenesis_def alice_def setUp_def sampleSdk_def)

lemma sampleRange: "reconcilable sampleGenesis [([10], block1)] 5 6"
proof -
  have o: "list_all reportable (blockOps block1)" "uniqueOps (ibTransactions block1)" by code_simp+
  have b: "blkAt sampleGenesis [([10], block1)] 6 = Some ([10], block1)"
    by (simp add: blkAt_def tipHeight_def baseHeight_def sampleGenesis_def chainOf_def genesisBlk_def)
  have "n = 6" if "5 < n" "n \<le> 6" for n :: nat using that by simp
  then show "reconcilable sampleGenesis [([10], block1)] 5 6" using b o unfolding reconcilable_def by fastforce
qed

theorem reconciliation_passes_witness:
  "reconciliation (serverClient sampleSdk sampleServer) (\<lambda>_. Ok [(hexEncode alice, [6])])
     [''reconciliation'', ''mainnet'', ''accounts.json'', addressText alice, ''6'', ''6''] =
   Ok (Some (balanceAt sampleGenesis [([10], block1)] alice 6))"
proof -
  have "formatUint (6 :: u64) = ''6''" by code_simp
  then show ?thesis
    using reconciliation_passes [OF sampleServer_serves _ sampleHeights(3), of 6 6 sampleSdk "\<lambda>_. Ok [(hexEncode alice, [6])]"
      "''accounts.json''" "[(hexEncode alice, [6])]" 6 "[]" "''reconciliation''" "''mainnet''"] sampleHeights sampleRange
    by (simp add: sampleServer_def)
qed

text \<open>
  C13. With a start height only, the tool looks at the heights of the accounts file from the start on, which it finds
  by binary search. When the file lists, in order, indexed heights of which it leaves out none at which the balance
  changed, the run ends with the balance at the tip of the chain.
\<close>

theorem reconciliation_replays:
  assumes "serves_chain s g bs" and "svIndexedStateErr s = None" and "length a = 8"
    and "sorted_wrt (<) heights" and "\<forall>b \<in> set heights. start \<le> b \<longrightarrow> baseHeight g < unat b \<and> unat b \<le> tipHeight g bs"
    and "\<exists>b \<in> set heights. start \<le> b"
    and "\<forall>n. unat start \<le> n \<and> n \<le> tipHeight g bs \<and> n \<notin> unat ` set heights \<longrightarrow> diffAt g bs a n = 0"
    and "reconcilable g bs (unat start - 1) (tipHeight g bs)"
    and "setUp sdk = Ok ()" and "files file = Ok accounts" and "map_of accounts (hexEncode a) = Some heights"
  shows "reconciliation (serverClient sdk s) files [prog, network, file, addressText a, formatUint start] =
    Ok (Some (balanceAt g bs a (tipHeight g bs)))"
proof -
  define v where "v = \<lparr>vwSdk = sdk, vwServer = s, vwAccount = a, vwGenesis = g, vwBlocks = bs\<rparr>"
  have v: "viewClient v = serverClient sdk s" "viewAddr v = addressText a" "viewWorth v n = balanceAt g bs a n" for n
    by (simp_all add: v_def viewClient_def viewAddr_def viewWorth_def)
  let ?tip = "tipHeight g bs" and ?args = "[prog, network, file, addressText a, formatUint start]"
  define fs where "fs = filter (\<lambda>b. start \<le> b) heights"
  have fs: "fs \<noteq> []" "sorted_wrt (<) fs" using assms(4,6) by (auto simp: fs_def filter_empty_conv sorted_wrt_filter)
  then obtain f ft where f: "fs = f # ft" by (cases fs) auto
  then have "f \<in> set fs" by simp
  then have f_ok: "start \<le> f" "baseHeight g < unat f" "unat f \<le> ?tip" using assms(5) by (auto simp: fs_def)
  define p where "p = unat f - 1"
  have p: "Suc p = unat f" "unat start \<le> Suc p" using f_ok(1,2) by (auto simp: p_def word_le_nat_alt)
  have "reconcilable g bs p ?tip" using assms(8) p(2) by (auto intro: reconcilable_mono)
  then have cov: "viewCovers v p ?tip" using assms(1-3) f_ok(2) p(1) by (simp add: viewCovers_def v_def)
  define ns where "ns = map unat fs"
  have ns: "sorted_wrt (<) ns" "ns = Suc p # map unat ft" "\<forall>n \<in> set ns. p < n \<and> n \<le> ?tip"
  proof -
    show "sorted_wrt (<) ns"
      unfolding ns_def sorted_wrt_map by (rule sorted_wrt_mono_rel [OF _ fs(2)]) (simp add: word_less_nat_alt)
    moreover have "\<forall>b \<in> set fs. unat b \<le> ?tip" using assms(5) by (simp add: fs_def)
    ultimately show "\<forall>n \<in> set ns. p < n \<and> n \<le> ?tip" using p(1) by (auto simp: ns_def f)
  qed (simp add: ns_def f p(1))
  have steady: "\<forall>k. p < k \<and> k \<le> ?tip \<and> k \<notin> set ns \<longrightarrow> viewWorth v k = viewWorth v (k - 1)"
  proof (intro allI impI)
    fix k assume k: "p < k \<and> k \<le> ?tip \<and> k \<notin> set ns"
    then have "unat start \<le> k" using p(2) by simp
    then have "diffAt g bs a k = 0" using assms(7) k by (auto simp: ns_def fs_def word_le_nat_alt)
    then show "viewWorth v k = viewWorth v (k - 1)" using balanceAt_Suc [of g bs a "k - 1"] k by (simp add: v)
  qed
  have follows: "served.follows v p ns" "balanceAt g bs a (last (p # ns)) = balanceAt g bs a ?tip"
    using served.follows_changes [OF ns(1,3) steady] p(1) f_ok(3) unfolding v by simp_all
  have "sorted heights" using assms(4) by (simp add: strict_sorted_imp_sorted)
  then have "chooseBlocks ?args heights = Ok (map of_nat ns)"
    using Search_drop [of heights start] f
    by (auto simp: chooseBlocks_def Let_def ns_def fs_def [symmetric] comp_def simp del: andThen_Ok_iff andThen_Ok_rev)
  moreover obtain h hs where "heights = h # hs" using assms(6) by (cases heights) auto
  ultimately show ?thesis
    using served.replay [OF cov follows(1), of _ ?args "CHR ''0''" "CHR ''x''" "hexEncode a" files accounts h hs]
      assms(9-11) ns(2,3) follows(2) by (simp add: v setUp_serverClient addressText_def del: last.simps)
qed

theorem reconciliation_replays_witness:
  "reconciliation (serverClient sampleSdk sampleServer) (\<lambda>_. Ok [(hexEncode alice, [6])])
     [''reconciliation'', ''mainnet'', ''accounts.json'', addressText alice, ''6''] =
   Ok (Some (balanceAt sampleGenesis [([10], block1)] alice 6))"
proof -
  have "formatUint (6 :: u64) = ''6''" by code_simp
  moreover have "\<forall>n::nat. 6 \<le> n \<and> n \<le> 6 \<and> n \<noteq> 6 \<longrightarrow> diffAt sampleGenesis [([10], block1)] alice n = 0" by auto
  ultimately show ?thesis
    using reconciliation_replays [OF sampleServer_serves _ sampleHeights(3), of "[6]" 6 sampleSdk
      "\<lambda>_. Ok [(hexEncode alice, [6])]" "''accounts.json''" "[(hexEncode alice, [6])]" "''reconciliation''" "''mainnet''"]
      sampleHeights sampleRange
    by (simp add: sampleServer_def)
qed

end
