(* ===== verification/Timeout.thy ===== *)
theory Timeout
  imports Prelude
begin

section \<open>Package timeout: contexts whose timeout can be extended\<close>

text \<open>
  \<^verbatim>\<open>timeout/timeout.go\<close>. A moment is a natural number, the nanoseconds on the monotonic clock of the process; a
  \<^verbatim>\<open>time.Duration\<close> is a signed word of 64 bits. The timer is the moment at which it fires, if it runs, and
  firing it cancels the context for good. A reader is a function of its state and the size of the buffer
  that gives the bytes, the error, the time that the call took and the next state; a writer gives the
  count, the error, the time and the next state, and the interface does not promise that the count is in range.
  Both copying loops may run forever, so they have fuel; the growth of a slice by \<^verbatim>\<open>append\<close> is a parameter.
\<close>

datatype ioErr = EOF | ErrShortWrite | InvalidWrite | IOErr string

type_synonym duration = "64 word"

record Handler =
  hdNow :: nat
  hdD :: duration
  hdTimer :: "nat option"
  hdCancelled :: bool

type_synonym 'r reader = "'r \<Rightarrow> nat \<Rightarrow> bytes \<times> ioErr option \<times> nat \<times> 'r"

type_synonym 'w writer = "'w \<Rightarrow> bytes \<Rightarrow> int \<times> ioErr option \<times> nat \<times> 'w"

text \<open>
  When a timer that is set now fires: at once for a duration that is not positive, and never after the
  largest moment of the 64-bit clock.
\<close>

definition dueAt :: "nat \<Rightarrow> duration \<Rightarrow> nat" where
  "dueAt now d = (if sint d \<le> 0 then now else min (now + nat (sint d)) (2 ^ 63 - 1))"

text \<open>The context starts cancelled if its parent is.\<close>

definition NewHandler :: "bool \<Rightarrow> nat \<Rightarrow> duration \<Rightarrow> Handler" where
  "NewHandler parentDone now d = \<lparr>hdNow = now, hdD = d, hdTimer = Some (dueAt now d), hdCancelled = parentDone\<rparr>"

text \<open>The passing of time: a timer that has become due fires, which runs \<^verbatim>\<open>cancel\<close>.\<close>

definition elapse :: "nat \<Rightarrow> Handler \<Rightarrow> Handler" where
  "elapse dt h =
     (let now = hdNow h + dt in
      case hdTimer h of
        Some due \<Rightarrow> if due \<le> now then h\<lparr>hdNow := now, hdTimer := None, hdCancelled := True\<rparr> else h\<lparr>hdNow := now\<rparr>
      | None \<Rightarrow> h\<lparr>hdNow := now\<rparr>)"

text \<open>\<^verbatim>\<open>Stop\<close> is true only when it stops a timer that is still running.\<close>

definition Cancel :: "Handler \<Rightarrow> Handler" where
  "Cancel h = (if hdTimer h \<noteq> None then h\<lparr>hdTimer := None, hdCancelled := True\<rparr> else h)"

definition ExpireAfter :: "duration \<Rightarrow> Handler \<Rightarrow> Handler" where
  "ExpireAfter d h = h\<lparr>hdTimer := Some (dueAt (hdNow h) d)\<rparr>"

definition Reset :: "Handler \<Rightarrow> Handler" where
  "Reset h = h\<lparr>hdTimer := Some (dueAt (hdNow h) (hdD h))\<rparr>"

definition defaultBuf :: nat where
  "defaultBuf = 64 * 1024"

text \<open>The write of one chunk: the count that is added, the error that ends the loop, and the time.\<close>

definition writeChunk :: "'w writer \<Rightarrow> bytes \<Rightarrow> 'w \<Rightarrow> int \<times> ioErr option \<times> nat \<times> 'w" where
  "writeChunk wr buf dst =
     (case wr dst buf of
        (nw, ew, dt, dst1) \<Rightarrow>
          let bad = (nw < 0 \<or> int (length buf) < nw);
              nw1 = (if bad then 0 else nw);
              ew1 = (if bad \<and> ew = None then Some InvalidWrite else ew)
          in (nw1, if ew1 \<noteq> None then ew1 else if int (length buf) \<noteq> nw1 then Some ErrShortWrite else None, dt, dst1))"

text \<open>
  \<^verbatim>\<open>written\<close> is an \<^verbatim>\<open>int64\<close>. The result has the count, the error, and the states that are left. The write comes
  after the timer was extended, and the time that it takes counts.
\<close>

fun CopyLoop ::
  "nat \<Rightarrow> 'r reader \<Rightarrow> 'w writer \<Rightarrow> nat \<Rightarrow> duration \<Rightarrow> 64 word \<Rightarrow> Handler \<Rightarrow> 'r \<Rightarrow> 'w \<Rightarrow> (64 word \<times> ioErr option \<times> Handler \<times> 'r \<times> 'w) option"
where
  "CopyLoop 0 rd wr sz d written h src dst = None"
| "CopyLoop (Suc F) rd wr sz d written h src dst =
     (case rd src sz of
        (buf, er, dt, src1) \<Rightarrow>
          let h1 = elapse dt h; h2 = (if er = None then ExpireAfter d h1 else h1);
              (nw, ew, wt, dst1) = (if length buf > 0 then writeChunk wr buf dst else (0, None, 0, dst));
              h3 = (if length buf > 0 then elapse wt h2 else h2);
              written1 = written + of_int nw
          in if ew \<noteq> None then Some (written1, ew, h3, src1, dst1)
             else (case er of
                     Some e \<Rightarrow> Some (written1, if e = EOF then None else er, h3, src1, dst1)
                   | None \<Rightarrow> CopyLoop F rd wr sz d written1 h3 src1 dst1))"

definition Copy ::
  "nat \<Rightarrow> 'r reader \<Rightarrow> 'w writer \<Rightarrow> nat option \<Rightarrow> duration \<Rightarrow> Handler \<Rightarrow> 'r \<Rightarrow> 'w \<Rightarrow> (64 word \<times> ioErr option \<times> Handler \<times> 'r \<times> 'w) option"
where
  "Copy F rd wr buf d h src dst =
     CopyLoop F rd wr (case buf of None \<Rightarrow> defaultBuf | Some sz \<Rightarrow> sz) d 0 h src dst"

text \<open>The buffer of \<^verbatim>\<open>ReadAll\<close> is the data read so far and a capacity, which grows when it is full.\<close>

fun ReadAllLoop ::
  "nat \<Rightarrow> 'r reader \<Rightarrow> (nat \<Rightarrow> nat) \<Rightarrow> duration \<Rightarrow> bytes \<Rightarrow> nat \<Rightarrow> Handler \<Rightarrow> 'r \<Rightarrow> (bytes \<times> ioErr option \<times> Handler \<times> 'r) option"
where
  "ReadAllLoop 0 rd grow d buf cap h r = None"
| "ReadAllLoop (Suc F) rd grow d buf cap h r =
     (let cap1 = (if length buf = cap then grow cap else cap) in
      case rd r (cap1 - length buf) of
        (chunk, err, dt, r1) \<Rightarrow>
          (case err of
             Some e \<Rightarrow> Some (buf @ chunk, if e = EOF then None else err, elapse dt h, r1)
           | None \<Rightarrow> ReadAllLoop F rd grow d (buf @ chunk) cap1 (ExpireAfter d (elapse dt h)) r1))"

definition ReadAll ::
  "nat \<Rightarrow> 'r reader \<Rightarrow> (nat \<Rightarrow> nat) \<Rightarrow> nat option \<Rightarrow> duration \<Rightarrow> Handler \<Rightarrow> 'r \<Rightarrow> (bytes \<times> ioErr option \<times> Handler \<times> 'r) option" where
  "ReadAll F rd grow buf d h r = ReadAllLoop F rd grow d [] (case buf of None \<Rightarrow> defaultBuf | Some cap \<Rightarrow> cap) h r"

subsection \<open>Readers that come to an end\<close>

text \<open>
  \<open>delivers rd a n r bs\<close>: whatever the sizes of the buffers, the reader hands out exactly \<open>bs\<close> in at most \<open>n\<close>
  calls, each of which takes at most the time \<open>a\<close>, and then the end of the file, with the last piece or after it.
\<close>

inductive delivers :: "'r reader \<Rightarrow> nat \<Rightarrow> nat \<Rightarrow> 'r \<Rightarrow> bytes \<Rightarrow> bool" for rd a where
  delivers: "(\<And>m. 0 < m \<Longrightarrow> \<exists>chunk rest e dt r'. rd r m = (chunk, e, dt, r') \<and> length chunk \<le> m \<and> bs = chunk @ rest \<and> dt \<le> a \<and>
      (e = Some EOF \<and> rest = [] \<or> e = None \<and> delivers rd a n r' rest)) \<Longrightarrow> delivers rd a (Suc n) r bs"

text \<open>A writer that takes everything, each piece within the time \<open>b\<close>, in the terms of what it has taken so far.\<close>

definition takes :: "'w writer \<Rightarrow> nat \<Rightarrow> ('w \<Rightarrow> bytes) \<Rightarrow> bool" where
  "takes wr b out \<longleftrightarrow>
     (\<forall>dst buf. \<exists>dt dst1. wr dst buf = (int (length buf), None, dt, dst1) \<and> dt \<le> b \<and> out dst1 = out dst @ buf)"

text \<open>The context is alive, and its timer does not fire before \<open>k\<close> has passed.\<close>

definition alive :: "nat \<Rightarrow> Handler \<Rightarrow> bool" where
  "alive k h \<longleftrightarrow> \<not> hdCancelled h \<and> (\<exists>due. hdTimer h = Some due \<and> hdNow h + k < due)"

text \<open>The clock does not end during \<open>n\<close> rounds of length \<open>c\<close>, nor in the extension that follows them.\<close>

definition clock_ok :: "nat \<Rightarrow> nat \<Rightarrow> duration \<Rightarrow> Handler \<Rightarrow> bool" where
  "clock_ok n c d h \<longleftrightarrow> hdNow h + n * c + nat (sint d) < 2 ^ 63"

lemma alive_elapse: "alive k h \<Longrightarrow> dt \<le> k \<Longrightarrow> alive (k - dt) (elapse dt h) \<and> hdNow (elapse dt h) = hdNow h + dt"
  by (auto simp: alive_def elapse_def)

lemma alive_mono: "alive k h \<Longrightarrow> j \<le> k \<Longrightarrow> alive j h"
  by (auto simp: alive_def)

lemma alive_not_cancelled: "alive k h \<Longrightarrow> \<not> hdCancelled h"
  by (simp add: alive_def)

lemma alive_extend:
  assumes "alive j h" and "int k < sint d" and "hdNow h + nat (sint d) < 2 ^ 63"
  shows "alive k (ExpireAfter d h)" "hdNow (ExpireAfter d h) = hdNow h"
  using assms by (auto simp: alive_def ExpireAfter_def dueAt_def)

lemma writeChunk_takes:
  assumes "takes wr b out"
  obtains dt dst1 where "writeChunk wr buf dst = (int (length buf), None, dt, dst1)" "dt \<le> b" "out dst1 = out dst @ buf"
proof -
  from assms obtain dt dst1 where "wr dst buf = (int (length buf), None, dt, dst1)" "dt \<le> b" "out dst1 = out dst @ buf"
    unfolding takes_def by blast
  then show ?thesis using that by (simp add: writeChunk_def)
qed

text \<open>
  One round of \<^verbatim>\<open>Copy\<close>: a read and, when it gave bytes, a write. Before it the context must last for the write of
  the last round, which came after the extension, and for the read; so the extension covers a read and two writes.
\<close>

lemma copy_round:
  assumes "takes wr b out" and "alive (a + b) h" and "dt \<le> a"
  obtains wt dst1 where "(if length chunk > 0 then writeChunk wr chunk dst else (0, None, 0, dst)) = (int (length chunk), None, wt, dst1)"
    "out dst1 = out dst @ chunk" "wt \<le> b" "alive b (elapse dt h)" "alive 0 (elapse wt (elapse dt h))"
    "hdNow (elapse dt h) \<le> hdNow h + a"
proof -
  obtain wt dst1 where w: "writeChunk wr chunk dst = (int (length chunk), None, wt, dst1)" "wt \<le> b" "out dst1 = out dst @ chunk"
    by (rule writeChunk_takes [OF assms(1)])
  have h1: "alive b (elapse dt h)" "hdNow (elapse dt h) \<le> hdNow h + a"
    using alive_elapse [OF assms(2), of dt] assms(3) by (auto intro: alive_mono)
  have h2: "alive 0 (elapse t (elapse dt h))" if "t \<le> b" for t
    using alive_elapse [OF h1(1) that] by (auto intro: alive_mono)
  show ?thesis
  proof (cases "chunk = []")
    case True
    then show ?thesis using that [of 0 dst] h1 h2 by simp
  next
    case False
    then show ?thesis using that [of wt dst1] w h1 h2 by simp
  qed
qed

lemma CopyLoop_delivers:
  assumes "delivers rd a n src bs" and "takes wr b out" and "0 < sz" and "int (a + 2 * b) < sint d"
    and "alive (a + b) h" and "clock_ok n (a + b) d h"
  shows "\<exists>F h1 src1 dst1. CopyLoop F rd wr sz d written h src dst = Some (written + of_nat (length bs), None, h1, src1, dst1) \<and>
     out dst1 = out dst @ bs \<and> \<not> hdCancelled h1"
  using assms(1,5,6)
proof (induction arbitrary: h written dst rule: delivers.induct)
  case (delivers r bs n)
  define Q where "Q r' rest \<longleftrightarrow> (\<forall>h. alive (a + b) h \<longrightarrow> clock_ok n (a + b) d h \<longrightarrow> (\<forall>written dst.
      (\<exists>F h1 src1 dst1. CopyLoop F rd wr sz d written h r' dst = Some (written + of_nat (length rest), None, h1, src1, dst1) \<and>
         out dst1 = out dst @ rest \<and> \<not> hdCancelled h1)))" for r' rest
  obtain chunk rest e dt r' where r: "rd r sz = (chunk, e, dt, r')" "bs = chunk @ rest" "dt \<le> a"
      and e: "e = Some EOF \<and> rest = [] \<or> e = None \<and> Q r' rest"
    using delivers.IH [OF assms(3)] unfolding Q_def by blast
  obtain wt dst1 where w: "(if length chunk > 0 then writeChunk wr chunk dst else (0, None, 0, dst)) = (int (length chunk), None, wt, dst1)"
      "out dst1 = out dst @ chunk" "wt \<le> b" "alive b (elapse dt h)" "alive 0 (elapse wt (elapse dt h))"
      "hdNow (elapse dt h) \<le> hdNow h + a"
    by (rule copy_round [OF assms(2) delivers.prems(1) r(3)])
  define h3 where "h3 h2 = (if length chunk > 0 then elapse wt h2 else h2)" for h2
  from e show ?case
  proof
    assume n: "e = Some EOF \<and> rest = []"
    then have "CopyLoop (Suc 0) rd wr sz d written h r dst = Some (written + of_nat (length bs), None, h3 (elapse dt h), r', dst1)"
      using r w(1) by (simp add: Let_def h3_def)
    moreover have "\<not> hdCancelled (h3 (elapse dt h))" using w(4,5) by (simp add: h3_def alive_def)
    moreover have "out dst1 = out dst @ bs" using w(2) r(2) n by simp
    ultimately show ?thesis by blast
  next
    assume n: "e = None \<and> Q r' rest"
    define h2 where "h2 = ExpireAfter d (elapse dt h)"
    have clock: "hdNow h + Suc n * (a + b) + nat (sint d) < 2 ^ 63" using delivers.prems(2) by (simp only: clock_ok_def)
    then have "hdNow (elapse dt h) + nat (sint d) < 2 ^ 63" using w(6) by simp
    from alive_extend [OF w(4) _ this, of "a + 2 * b"] assms(4) have h2: "alive (a + 2 * b) h2" "hdNow h2 \<le> hdNow h + a"
      using w(6) by (simp_all add: h2_def)
    have h3: "alive (a + b) (h3 h2)" "hdNow (h3 h2) \<le> hdNow h + a + b"
      using alive_elapse [OF h2(1), of wt] w(3) h2 by (auto simp: h3_def intro: alive_mono)
    then have "clock_ok n (a + b) d (h3 h2)" using clock by (simp add: clock_ok_def)
    with n h3(1) obtain F h1 src1 dst2 where f: "CopyLoop F rd wr sz d (written + of_nat (length chunk)) (h3 h2) r' dst1 =
        Some (written + of_nat (length chunk) + of_nat (length rest), None, h1, src1, dst2)"
        "out dst2 = out dst1 @ rest" "\<not> hdCancelled h1"
      unfolding Q_def by blast
    then have "CopyLoop (Suc F) rd wr sz d written h r dst = Some (written + of_nat (length bs), None, h1, src1, dst2)"
      using r w(1) n by (cases "chunk = []") (simp_all add: Let_def add.assoc h2_def h3_def)
    moreover have "out dst2 = out dst @ bs" using f(2) w(2) r(2) by simp
    ultimately show ?thesis using f(3) by blast
  qed
qed

lemma ReadAllLoop_delivers:
  assumes "delivers rd a n r bs" and "\<And>m. m < grow m" and "int a < sint d" and "alive a h" and "clock_ok n a d h"
    and "length buf \<le> cap"
  shows "\<exists>F h1 r1. ReadAllLoop F rd grow d buf cap h r = Some (buf @ bs, None, h1, r1) \<and> \<not> hdCancelled h1"
  using assms(1,4,5,6)
proof (induction arbitrary: h buf cap rule: delivers.induct)
  case (delivers r bs n)
  define cap1 where "cap1 = (if length buf = cap then grow cap else cap)"
  have room: "0 < cap1 - length buf" using assms(2) [of cap] delivers.prems(3) by (auto simp: cap1_def)
  define Q where "Q r' rest \<longleftrightarrow> (\<forall>h. alive a h \<longrightarrow> clock_ok n a d h \<longrightarrow> (\<forall>buf cap. length buf \<le> cap \<longrightarrow>
      (\<exists>F h1 r1. ReadAllLoop F rd grow d buf cap h r' = Some (buf @ rest, None, h1, r1) \<and> \<not> hdCancelled h1)))" for r' rest
  obtain chunk rest e dt r' where r: "rd r (cap1 - length buf) = (chunk, e, dt, r')" "bs = chunk @ rest" "dt \<le> a"
      "length chunk \<le> cap1 - length buf" and e: "e = Some EOF \<and> rest = [] \<or> e = None \<and> Q r' rest"
    using delivers.IH [OF room, folded Q_def] by blast
  have h1: "alive 0 (elapse dt h)" "hdNow (elapse dt h) \<le> hdNow h + a"
    using alive_elapse [OF delivers.prems(1) r(3)] r(3) by (auto intro: alive_mono)
  from e show ?case
  proof
    assume n: "e = Some EOF \<and> rest = []"
    then have "ReadAllLoop 1 rd grow d buf cap h r = Some (buf @ bs, None, elapse dt h, r')"
      using r by (simp add: Let_def cap1_def)
    with alive_not_cancelled [OF h1(1)] show ?thesis by blast
  next
    assume n: "e = None \<and> Q r' rest"
    have clock: "hdNow h + Suc n * a + nat (sint d) < 2 ^ 63" using delivers.prems(2) by (simp only: clock_ok_def)
    then have "hdNow (elapse dt h) + nat (sint d) < 2 ^ 63" using h1(2) by simp
    from alive_extend [OF h1(1) assms(3) this] have h2: "alive a (ExpireAfter d (elapse dt h))"
        "clock_ok n a d (ExpireAfter d (elapse dt h))" using clock h1(2) by (simp_all add: clock_ok_def)
    moreover have "length (buf @ chunk) \<le> cap1" using r(4) room by simp
    ultimately obtain F h1 r1 where f: "ReadAllLoop F rd grow d (buf @ chunk) cap1 (ExpireAfter d (elapse dt h)) r' =
        Some ((buf @ chunk) @ rest, None, h1, r1)" "\<not> hdCancelled h1"
      using n unfolding Q_def by blast
    then have "ReadAllLoop (Suc F) rd grow d buf cap h r = Some (buf @ bs, None, h1, r1)"
      using r n by (simp add: Let_def cap1_def)
    with f(2) show ?thesis by blast
  qed
qed

text \<open>
  C23. The copying loops return and lose nothing. Let a reader hand out its bytes in finitely many pieces, each read
  within the time \<open>a\<close>, and a writer take every piece within the time \<open>b\<close>. Then \<^verbatim>\<open>Copy\<close> writes exactly these bytes,
  returns their number modulo \<open>2 ^ 64\<close> and no error; and the context is not cancelled when it lasts for a read and a
  write at the start and the extension \<open>d\<close> is longer than a read and two writes (the write of a piece comes
  after the extension, and the last piece may come with the end of the file, which does not extend it), unless the
  64-bit clock ends before. \<^verbatim>\<open>ReadAll\<close> returns the bytes for every growth of the buffer.
\<close>

theorem copy_complete:
  assumes "delivers rd a n src bs" and "takes wr b out" and "0 < sz" and "\<forall>m. m < grow m"
    and "alive (a + b) h" and "int (a + 2 * b) < sint d" and "clock_ok n (a + b) d h"
  shows "(\<exists>F h1 src1 dst1. Copy F rd wr (Some sz) d h src dst = Some (of_nat (length bs), None, h1, src1, dst1) \<and>
       out dst1 = out dst @ bs \<and> \<not> hdCancelled h1) \<and>
     (\<exists>F h1 src1. ReadAll F rd grow buf d h src = Some (bs, None, h1, src1) \<and> \<not> hdCancelled h1)"
proof -
  have "alive a h" using assms(5) by (rule alive_mono) simp
  moreover have "n * a \<le> n * (a + b)" by simp
  then have "clock_ok n a d h" using assms(7) unfolding clock_ok_def by linarith
  ultimately show ?thesis
    using CopyLoop_delivers [OF assms(1-3,6,5,7), of 0 dst] assms(6)
      ReadAllLoop_delivers [OF assms(1) assms(4) [rule_format], of d h "[]" "case buf of None \<Rightarrow> defaultBuf | Some cap \<Rightarrow> cap"]
    by (simp add: Copy_def ReadAll_def)
qed

text \<open>A reader over a list of bytes, and a buffer as the writer; both need time.\<close>

definition listReader :: "bytes reader" where
  "listReader bs m = (take m bs, if length bs \<le> m then Some EOF else None, 1, drop m bs)"

definition listWriter :: "bytes writer" where
  "listWriter dst buf = (int (length buf), None, 2, dst @ buf)"

lemma listReader_delivers: "length bs < n \<Longrightarrow> delivers listReader 1 n bs bs"
proof (induction n arbitrary: bs)
  case (Suc n)
  show ?case
  proof (rule delivers.delivers)
    fix m :: nat
    assume "0 < m"
    have "length bs \<le> m \<or> delivers listReader 1 n (drop m bs) (drop m bs)"
      using Suc \<open>0 < m\<close> by (cases "length bs \<le> m") auto
    then show "\<exists>chunk rest e dt r'. listReader bs m = (chunk, e, dt, r') \<and> length chunk \<le> m \<and> bs = chunk @ rest \<and> dt \<le> 1 \<and>
      (e = Some EOF \<and> rest = [] \<or> e = None \<and> delivers listReader 1 n r' rest)"
      by (intro exI [of _ "take m bs"] exI [of _ "drop m bs"]) (auto simp: listReader_def)
  qed
qed simp

theorem copy_complete_witness:
  "\<exists>F h1 src1. Copy F listReader listWriter (Some 2) 6 (NewHandler False 10 6) [1, 2, 3, 4, 5] [9] =
     Some (5, None, h1, src1, [9, 1, 2, 3, 4, 5]) \<and> \<not> hdCancelled h1"
proof -
  have d: "delivers listReader 1 6 [1, 2, 3, 4, 5] [1, 2, 3, 4, 5]" by (rule listReader_delivers) simp
  have w: "takes listWriter 2 id" by (simp add: takes_def listWriter_def)
  have h: "alive (1 + 2) (NewHandler False 10 6)" "clock_ok 6 (1 + 2) 6 (NewHandler False 10 6)"
    by (simp_all add: alive_def clock_ok_def NewHandler_def dueAt_def)
  show ?thesis using copy_complete [OF d w, of 2 Suc, OF _ _ h(1) _ h(2), of "[9]"] by auto
qed

end
