(* ===== verification/Tools.thy ===== *)
theory Tools
  imports Crypto Config
begin

unbundle bit_operations_syntax

section \<open>The small commands\<close>

text \<open>
  \<^verbatim>\<open>cmd/genaddress\<close>, \<^verbatim>\<open>cmd/formatkey\<close>, \<^verbatim>\<open>cmd/formatsig\<close>, \<^verbatim>\<open>cmd/sign\<close>, \<^verbatim>\<open>cmd/verifysig\<close>,
  \<^verbatim>\<open>cmd/genkey\<close> and \<^verbatim>\<open>cmd/gencontractkey\<close>: functions of the arguments (the program's name first) to what is
  printed. An exit with status 1, after the usage message or by \<^verbatim>\<open>log.Fatalf\<close>, is \<open>Fatal\<close>. The random number, the
  generated key and the signature functions of the two \<^verbatim>\<open>secp256k1\<close> modules are parameters.
\<close>

subsection \<open>Random addresses\<close>

definition linearCodeK :: nat where "linearCodeK = 45"

definition maxIndex :: u64 where "maxIndex = push_bit linearCodeK 1 - 1"

definition generatorMatrixRows :: "u64 list" where
  "generatorMatrixRows =
     [0xe467b9dd11fa00df, 0xf233dcee88fe0abe, 0xf919ee77447b7497, 0xfc8cf73ba23a260d, 0xfe467b9dd11ee2a1,
      0xff233dcee888d807, 0xff919ee774476ce6, 0x7fc8cf73ba231d10, 0x3fe467b9dd11b183, 0x1ff233dcee8f96d6,
      0x8ff919ee774757ba, 0x47fc8cf73ba2b331, 0x23fe467b9dd27f6c, 0x11ff233dceee8e82, 0x88ff919ee775dd8f,
      0x447fc8cf73b905e4, 0xa23fe467b9de0d83, 0xd11ff233dce8d5a7, 0xe88ff919ee73c38a, 0x7447fc8cf73f171f,
      0xba23fe467b9dcb2b, 0xdd11ff233dcb0cb4, 0xee88ff919ee26c5d, 0x77447fc8cf775dd3, 0x3ba23fe467b9b5a1,
      0x9dd11ff233d9117a, 0xcee88ff919efa640, 0xe77447fc8cf3e297, 0x73ba23fe467fabd2, 0xb9dd11ff233fb16c,
      0xdcee88ff919adde7, 0xee77447fc8ceb196, 0xf73ba23fe4621cd0, 0x7b9dd11ff2379ac3, 0x3dcee88ff91df46c,
      0x9ee77447fc88e702, 0xcf73ba23fe4131b6, 0x67b9dd11ff240f9a, 0x33dcee88ff90f9e0, 0x19ee77447fcff4e3,
      0x8cf73ba23fe64091, 0x467b9dd11ff115c7, 0x233dcee88ffdb735, 0x919ee77447fe2309, 0xc8cf73ba23fdc736]"

text \<open>The loop of \<^verbatim>\<open>main\<close>, over the rows that are left.\<close>

fun encodeRows :: "u64 list \<Rightarrow> u64 \<Rightarrow> u64 \<Rightarrow> u64" where
  "encodeRows [] word addr = addr"
| "encodeRows (row # rows) word addr =
     encodeRows rows (drop_bit 1 word) (if word AND 1 = 1 then addr XOR row else addr)"

text \<open>\<open>word\<close> is what \<^verbatim>\<open>rand.Intn(maxIndex)\<close> returns.\<close>

definition genaddress :: "u64 \<Rightarrow> string" where
  "genaddress word = ''0x'' @ hexEncode (putU64 (encodeRows generatorMatrixRows word 0))"

subsection \<open>Keys and signatures\<close>

text \<open>
  \<^verbatim>\<open>hex.DecodeString\<close> returns the bytes before the first error with the error, and \<^verbatim>\<open>formatkey\<close> and \<^verbatim>\<open>verifysig\<close>
  only log the error.
\<close>

fun hexPrefix :: "string \<Rightarrow> bytes" where
  "hexPrefix [] = []"
| "hexPrefix [c] = []"
| "hexPrefix (c # d # cs) =
     (case (fromHexChar c, fromHexChar d) of
        (Some h, Some l) \<Rightarrow> of_nat (16 * h + l) # hexPrefix cs
      | _ \<Rightarrow> [])"

definition fatalOnErr :: "string \<Rightarrow> ('e, 'a) outcome \<Rightarrow> 'a checked" where
  "fatalOnErr msg r = (case r of Ok x \<Rightarrow> Ok x | Err e \<Rightarrow> Fatal msg | Panic p \<Rightarrow> Panic p | Fatal m \<Rightarrow> Fatal m)"

definition formatkey :: "('k, 's) secp256k1 \<Rightarrow> string list \<Rightarrow> string checked" where
  "formatkey S args =
     (if length args \<noteq> 3 then Fatal ''Usage: formatkey [from:flow | from:rosetta] <hex-encoded-key>''
      else
        let key = hexPrefix (args ! 2) in
        andThen
          (if args ! 1 = ''from:flow'' then fatalOnErr ''Failed to convert key'' (ConvertFlowPublicKey S key)
           else if args ! 1 = ''from:rosetta'' then fatalOnErr ''Failed to convert key'' (ConvertRosettaPublicKey S key)
           else Fatal ''Unknown convert option'') (\<lambda>out.
        Ok (hexEncode out)))"

definition formatsig :: "('k, 's) secp256k1 \<Rightarrow> string list \<Rightarrow> string checked" where
  "formatsig S args =
     (if length args \<noteq> 3 then Fatal ''Usage: formatsig [from:flow | from:der] <hex-encoded-signature>''
      else if args ! 1 = ''from:der'' then fatalOnErr ''Failed to convert signature'' (ConvertDERSignature S (args ! 2))
      else if args ! 1 = ''from:flow'' then fatalOnErr ''Failed to convert signature'' (ConvertFlowSignature (args ! 2))
      else Fatal ''Unknown convert option'')"

text \<open>\<open>signWith payload key\<close> is \<^verbatim>\<open>secp256k1.Sign\<close> of go-ethereum.\<close>

definition sign :: "(bytes \<Rightarrow> bytes \<Rightarrow> (string, bytes) sum) \<Rightarrow> string list \<Rightarrow> string checked" where
  "sign signWith args =
     (if length args \<noteq> 3 then Fatal ''Usage: sign <hex-encoded-private-key> <hex-encoded-payload>''
      else
        (case hexDecode (args ! 1) of
           None \<Rightarrow> Fatal ''Could not hex decode private key''
         | Some raw \<Rightarrow>
             (case hexDecode (args ! 2) of
                None \<Rightarrow> Fatal ''Could not hex decode payload''
              | Some payload \<Rightarrow>
                  (case signWith payload raw of
                     Inl err \<Rightarrow> Fatal ''Failed to sign payload''
                   | Inr sig \<Rightarrow> andThen (subslice sig 0 64) (\<lambda>out. Ok (hexEncode out))))))"

text \<open>
  A private key of the decred module, its signature of a hash and the DER text of it, the parser of DER
  signatures and the check of a signature. A nil pointer is \<open>None\<close>: what \<^verbatim>\<open>Verify\<close> does on it is the module's.
\<close>

record ('p, 'k, 'g) keyEnv =
  keGenerate :: "(string, 'p) sum"
  kePubKey :: "'p \<Rightarrow> 'k"
  keSerialize :: "'p \<Rightarrow> bytes"
  keSha256 :: "bytes \<Rightarrow> bytes"
  keSignDER :: "'p \<Rightarrow> bytes \<Rightarrow> bytes"
  keParseDER :: "bytes \<Rightarrow> (string, 'g) sum"
  keVerify :: "'g option \<Rightarrow> bytes \<Rightarrow> 'k option \<Rightarrow> bool checked"

definition pointer :: "('e, 'a) sum \<Rightarrow> 'a option" where
  "pointer r = (case r of Inl e \<Rightarrow> None | Inr x \<Rightarrow> Some x)"

definition verifysig :: "('k, 's) secp256k1 \<Rightarrow> ('p, 'k, 'g) keyEnv \<Rightarrow> string list \<Rightarrow> unit checked" where
  "verifysig S K args =
     (if length args \<noteq> 4 then Fatal ''Usage: verifysig <public-key> <message> <signature>''
      else
        let pub = pointer (ParsePubKey S (hexPrefix (args ! 1)));
            sig = pointer (keParseDER K (hexPrefix (args ! 3)));
            hash = keSha256 K (map of_char (args ! 2))
        in andThen (keVerify K sig hash pub) (\<lambda>ok.
           if ok then Ok () else Fatal ''Invalid signature found''))"

text \<open>The public key in the formats of Flow and Rosetta, and the private key, as the commands print them.\<close>

definition genkey :: "('k, 's) secp256k1 \<Rightarrow> ('p, 'k, 'g) keyEnv \<Rightarrow> (string \<times> string \<times> string) checked" where
  "genkey S K =
     (case keGenerate K of
        Inl err \<Rightarrow> Fatal ''Failed to generate key''
      | Inr priv \<Rightarrow>
          (let pub = kePubKey K priv; out = SerializeUncompressed S pub in
           andThen (subslice out 1 (length out)) (\<lambda>flow.
           Ok (hexEncode flow, hexEncode (SerializeCompressed S pub), hexEncode (keSerialize K priv)))))"

definition contractMsg :: string where "contractMsg = ''some message to sign''"

text \<open>The four texts of the key and the two of the signature, in the order of the lines printed.\<close>

definition gencontractkey :: "('k, 's) secp256k1 \<Rightarrow> ('p, 'k, 'g) keyEnv \<Rightarrow> string list checked" where
  "gencontractkey S K =
     (case keGenerate K of
        Inl err \<Rightarrow> Fatal ''Failed to generate key''
      | Inr key \<Rightarrow>
          (let hash = keSha256 K (map of_char contractMsg);
               sigHex = hexEncode (keSignDER K key hash);
               out = SerializeUncompressed S (kePubKey K key)
           in andThen (fatalOnErr ''Failed to convert signature'' (ConvertDERSignature S sigHex)) (\<lambda>sigFlow.
              andThen (subslice out 1 (length out)) (\<lambda>flow.
              Ok [hexEncode (SerializeCompressed S (kePubKey K key)), hexEncode flow, hexEncode (keSerialize K key),
                  contractMsg, sigHex, sigFlow]))))"

subsection \<open>The code of the addresses\<close>

text \<open>
  The loop is linear over the field of two elements, so a table of 64 rows that sends each generator row to its
  unit vector recovers the index, and one that sends each generator row to zero recognises the addresses.
\<close>

lemma encodeRows_Cons [simp]:
  "encodeRows (row # rows) word addr = encodeRows rows (drop_bit 1 word) (if bit word 0 then addr XOR row else addr)"
  by (simp add: and_one_eq mod_2_eq_odd bit_0)

declare encodeRows.simps(2) [simp del]

lemma encodeRows_xor: "encodeRows rows (x XOR y) (a XOR b) = encodeRows rows x a XOR encodeRows rows y b"
proof (induction rows arbitrary: x y a b)
  case (Cons r rows)
  have r: "(a XOR r) XOR (b XOR r) = a XOR b" by (rule bit_word_eqI) (auto simp: bit_simps)
  have "drop_bit 1 (x XOR y) = drop_bit 1 x XOR drop_bit 1 y" by (rule drop_bit_xor)
  moreover have "(if bit (x XOR y) 0 then (a XOR b) XOR r else a XOR b) =
      (if bit x 0 then a XOR r else a) XOR (if bit y 0 then b XOR r else b)"
    using r by (simp add: bit_xor_iff ac_simps)
  ultimately show ?case unfolding encodeRows_Cons by (simp only: Cons.IH)
qed simp

lemma encodeRows_zero [simp]: "encodeRows rows 0 a = a"
  by (induction rows arbitrary: a) auto

lemma encodeRows_compose:
  "encodeRows cols (encodeRows rows w a) 0 = encodeRows (map (\<lambda>r. encodeRows cols r 0) rows) w (encodeRows cols a 0)"
proof (induction rows arbitrary: w a)
  case (Cons r rows)
  then show ?case using encodeRows_xor [of cols a r 0 0] by simp
qed simp

lemma encodeRows_units:
  "encodeRows (map (\<lambda>j. push_bit j 1) [m..<m + n]) w a = a XOR push_bit m (take_bit n w)" if "m + n \<le> 64"
  using that
proof (induction n arbitrary: m w a)
  case (Suc n)
  have "push_bit m (take_bit (Suc n) w) =
      (if bit w 0 then push_bit m 1 else 0) XOR push_bit (Suc m) (take_bit n (drop_bit 1 w))"
  proof (rule bit_word_eqI)
    fix i assume "i < LENGTH(64)"
    consider "i < m" | "i = m" | k where "i = Suc m + k" by (metis less_iff_Suc_add not_less_iff_gr_or_eq add_Suc)
    then show "bit (push_bit m (take_bit (Suc n) w)) i \<longleftrightarrow>
        bit ((if bit w 0 then push_bit m 1 else 0) XOR push_bit (Suc m) (take_bit n (drop_bit 1 w))) i"
      by cases (auto simp add: bit_simps simp del: push_bit_Suc)
  qed
  then show ?case using Suc.IH [of "Suc m" "drop_bit 1 w"] Suc.prems
    by (simp add: upt_conv_Cons ac_simps del: upt_Suc push_bit_Suc)
qed simp

definition inverseRows :: "u64 list" where
  "inverseRows =
     [0x1144bcb5d6c8, 0x349599490b6, 0x18308517772b, 0xd0998813b11, 0x1b483609c4ad,
      0x15159398a37a, 0xa500760110d, 0x1ab74e3ebc82, 0x808932447fc, 0x12472ffa32b6,
      0x17dd03abc1f3, 0x2f2b881d77b, 0x13279c5c74e1, 0x110177870895, 0x3025039be5a,
      0x1557fc2cd82a, 0x19edb5e40a67, 0x121e724f87e1, 0x1d53e89fabd5, 0xcbfaa9b7828,
      0xa59eb84056c, 0xb6ed5237ba5, 0x1e7dcd43f1f4, 0xcb6b89fc12d, 0x5e40d11bdac,
      0x0, 0x1e89414bd9b1, 0x16dd49693c5, 0x0, 0x18d1d05111fa,
      0x1e760fa3e886, 0x15a1ff4ffc6f, 0x3d4c86ed9e7, 0x1e23e02120af, 0x1f697f6669bb,
      0xe651db59cc6, 0x8dc5ae640be, 0x1cc21ec1dc8e, 0x1edcb6719351, 0x17299579b0af,
      0x18397e97b6ba, 0x0, 0xa4d22bbf039, 0xa1af1084864, 0x1a3118d1944a,
      0x1b5a1adeb7cd, 0x12085bfb6c94, 0x49b479dfd91, 0x0, 0x0,
      0x0, 0x0, 0x0, 0x0, 0x0,
      0x0, 0x0, 0x0, 0x0, 0x0,
      0x0, 0x0, 0x0, 0x0]"

definition checkRows :: "u64 list" where
  "checkRows =
     [0xf600, 0x6a700, 0x65e00, 0x5bc00, 0x29d00,
      0x32e00, 0x46d00, 0x37500, 0x51700, 0x1cf00,
      0x7fb00, 0x7ede0, 0x35d0, 0x7d7b0, 0xf70,
      0x71b38, 0x3634, 0x31e32, 0x4c931, 0x1ad57,
      0x51123, 0x468d3, 0x7bae3, 0x24c51, 0x68a61,
      0x1, 0x27952, 0x16862, 0x2, 0x3782c,
      0x2cd4c, 0x5ef7c, 0x5f78c, 0x50dbc, 0x35adc,
      0x3afec, 0x3f5f4, 0x3c694, 0x427a4, 0x7e854,
      0x7d164, 0x4, 0x321c8, 0x3e2f8, 0x26498,
      0x2a8a8, 0x17058, 0x66468, 0x8, 0x10,
      0x20, 0x40, 0x80, 0x100, 0x200,
      0x400, 0x800, 0x1000, 0x2000, 0x4000,
      0x8000, 0x10000, 0x20000, 0x40000]"

text \<open>The loop on integers, to evaluate the tables by rewriting of numerals.\<close>

fun encodeInt :: "int list \<Rightarrow> int \<Rightarrow> int \<Rightarrow> int" where
  "encodeInt [] word addr = addr"
| "encodeInt (row # rows) word addr = encodeInt rows (word div 2) (if odd word then addr XOR row else addr)"

lemma uint_encodeRows: "uint (encodeRows rows w a) = encodeInt (map uint rows) (uint w) (uint a)"
proof (induction rows arbitrary: w a)
  case (Cons r rows)
  have "uint w < 2 ^ 64" using unsigned_less [of w, where 'a = int] by simp
  then have "uint (drop_bit 1 w) = uint w div 2"
    by (simp only: unsigned_drop_bit_eq) (simp add: drop_bit_Suc take_bit_int_eq_self)
  moreover have "bit w 0 \<longleftrightarrow> odd (uint w)" by (simp add: bit_unsigned_iff flip: bit_0)
  ultimately show ?case by (simp only: encodeRows_Cons Cons.IH encodeInt.simps list.map if_distrib [of uint] unsigned_xor_eq)
qed simp

text \<open>Only the word and the sum are rewritten, and a table is applied to numerals only.\<close>

lemma encodeInt_cong: "w = w' \<Longrightarrow> a = a' \<Longrightarrow> encodeInt rows w a = encodeInt rows w' a'"
  by simp

lemma encodeInt_0 [simp]: "encodeInt rows 0 a = a"
  by (induction rows) auto

definition applied :: "int list \<Rightarrow> int \<Rightarrow> int" where
  "applied rows w = encodeInt rows w 0"

lemma applied_numeral:
  "applied rows (numeral n) = encodeInt rows (numeral n) 0" "applied rows 1 = encodeInt rows 1 0"
  by (simp_all add: applied_def)

lemma uint_applied: "map uint (map (\<lambda>r. encodeRows cols r 0) rows) = map (applied (map uint cols)) (map uint rows)"
  by (simp add: uint_encodeRows applied_def)

definition inverseTable :: "int list" where "inverseTable = map uint inverseRows"
definition checkTable :: "int list" where "checkTable = map uint checkRows"

lemmas inverseTable = inverseTable_def [unfolded inverseRows_def, simplified]
lemmas checkTable = checkTable_def [unfolded checkRows_def, simplified]

lemma inverse_applied: "map (applied inverseTable) (map uint generatorMatrixRows) = map (\<lambda>j. 2 ^ j) [0..<45]"
  unfolding generatorMatrixRows_def
  by (simp add: applied_numeral upt_conv_Cons, unfold inverseTable, simp cong: encodeInt_cong)

lemma check_applied: "map (applied checkTable) (map uint generatorMatrixRows) = map (\<lambda>j. 0) [0..<45]"
  unfolding generatorMatrixRows_def
  by (simp add: applied_numeral upt_conv_Cons, unfold checkTable, simp cong: encodeInt_cong)

lemma nibbles_applied:
  "list_all (\<lambda>rows. list_all (\<lambda>d. applied rows d \<noteq> 0) [1, 2, 3, 4, 5, 6, 7, 8, 9, 10, 11, 12, 13, 14, 15])
     (map (\<lambda>k. drop (4 * k) checkTable) [0..<16])"
proof -
  have "[0..<16] = [0, 1, 2, 3, 4, 5, 6, 7, 8, 9, 10, 11, 12, 13, 14, 15 :: nat]" by code_simp
  then show ?thesis by (simp add: checkTable, simp add: applied_numeral cong: encodeInt_cong)
qed

lemma map_uint_inject: "map uint xs = map uint ys \<longleftrightarrow> xs = ys" for xs ys :: "u64 list"
proof (rule inj_map_eq_map)
  show "inj (uint :: u64 \<Rightarrow> int)" by (rule injI) (simp add: word_uint_eq_iff)
qed

lemma inverse_units: "map (\<lambda>r. encodeRows inverseRows r 0) generatorMatrixRows = map (\<lambda>j. push_bit j 1) [0..<45]"
proof -
  have "map uint (map (\<lambda>j. push_bit j (1 :: u64)) [0..<45]) = map (\<lambda>j. 2 ^ j) [0..<45]" by (simp add: upt_conv_Cons)
  then show ?thesis using inverse_applied uint_applied [of inverseRows generatorMatrixRows]
    by (simp only: inverseTable_def map_uint_inject [symmetric])
qed

lemma check_zero: "map (\<lambda>r. encodeRows checkRows r 0) generatorMatrixRows = map (\<lambda>j. 0) [0..<45]"
proof -
  have "map uint (map (\<lambda>j. 0 :: u64) [0..<45]) = map (\<lambda>j. 0) [0..<45]" by simp
  then show ?thesis using check_applied uint_applied [of checkRows generatorMatrixRows]
    by (simp only: checkTable_def map_uint_inject [symmetric])
qed

lemma encodeRows_zeros: "encodeRows (map (\<lambda>j. 0) xs) w a = a"
  by (induction xs arbitrary: w) simp_all

lemma index_recovered: "encodeRows inverseRows (encodeRows generatorMatrixRows w 0) 0 = take_bit 45 w"
  using encodeRows_units [of 0 45 w 0] by (simp add: encodeRows_compose inverse_units del: upt_Suc upt_rec_numeral)

lemma address_checked: "encodeRows checkRows (encodeRows generatorMatrixRows w 0) 0 = 0"
  by (simp add: encodeRows_compose check_zero encodeRows_zeros del: upt_Suc upt_rec_numeral)

text \<open>A word whose bits are all in one digit fails the check.\<close>

lemma encodeRows_push:
  assumes "\<forall>i. bit d i \<longrightarrow> i < 4"
  shows "k + 4 \<le> 64 \<Longrightarrow> encodeRows rows (push_bit k d) a = encodeRows (drop k rows) d a"
proof (induction k arbitrary: rows)
  case (Suc k)
  show ?case
  proof (cases rows)
    case (Cons r rs)
    have "drop_bit 1 (push_bit (Suc k) d) = push_bit k d"
      using assms Suc.prems by (intro bit_word_eqI) (fastforce simp: bit_simps simp del: push_bit_Suc)
    moreover have "\<not> bit (push_bit (Suc k) d) 0" by (simp add: bit_push_bit_iff del: push_bit_Suc)
    ultimately show ?thesis using Suc Cons by (simp del: push_bit_Suc)
  qed simp
qed simp

lemma digit_detected:
  assumes "\<forall>i. bit d i \<longrightarrow> i < 4" and "k < 16" and "encodeRows checkRows (push_bit (4 * k) d) 0 = 0"
  shows "d = 0"
proof (rule ccontr)
  assume "d \<noteq> 0"
  have "take_bit 4 d = d" using assms(1) by (intro bit_word_eqI) (auto simp: bit_take_bit_iff)
  then have "uint d = take_bit 4 (uint d)" by (metis unsigned_take_bit_eq)
  then have "uint d < 16" using take_bit_int_less_exp [of 4 "uint d"] by simp
  moreover have "uint d \<noteq> 0" using \<open>d \<noteq> 0\<close> by (simp add: uint_0_iff)
  then have "0 < uint d" using unsigned_greater_eq [of d, where 'a = int] by (simp add: order_less_le)
  ultimately have "uint d \<in> set [1, 2, 3, 4, 5, 6, 7, 8, 9, 10, 11, 12, 13, 14, 15]" by simp presburger
  moreover have "drop (4 * k) checkTable \<in> set (map (\<lambda>k. drop (4 * k) checkTable) [0..<16])" using assms(2) by simp
  ultimately have "applied (drop (4 * k) checkTable) (uint d) \<noteq> 0"
    using nibbles_applied unfolding list_all_iff by blast
  moreover have "encodeRows (drop (4 * k) checkRows) d 0 = 0"
    using assms(2,3) encodeRows_push [OF assms(1), of "4 * k" checkRows 0] by simp
  then have "applied (drop (4 * k) checkTable) (uint d) = 0"
    using uint_encodeRows [of "drop (4 * k) checkRows" d 0] by (simp add: applied_def checkTable_def drop_map)
  ultimately show False by simp
qed

text \<open>The digits of the text are the groups of four bits of the word.\<close>

lemma hexEncode_be_nth: "j < 2 * k \<Longrightarrow> hexEncode (be_bytes k n) ! j = hexDigit (n div 16 ^ (2 * k - 1 - j) mod 16)"
proof (induction k arbitrary: j)
  case (Suc k)
  define x where "x = n div 256 ^ k"
  have x: "n div 16 ^ (2 * k) = x" by (simp add: x_def power_mult)
  then have x1: "n div 16 ^ (2 * k + 1) = x div 16" by (simp only: power_add power_one_right div_mult2_eq)
  have b: "unat (of_nat (x mod 256) :: byte) = x mod 256" by (simp add: unat_of_nat)
  have "x mod 256 = 16 * (x div 16 mod 16) + x mod 16" using mod_mult2_eq [of x 16 16] by simp
  then have split: "x mod 256 div 16 = x div 16 mod 16" "x mod 256 mod 16 = x mod 16" by simp_all
  consider "j = 0" | "j = 1" | i where "j = Suc (Suc i)" by (metis One_nat_def not0_implies_Suc)
  then show ?case
  proof cases
    case 1
    then show ?thesis using x1 b split(1) by (simp add: x_def)
  next
    case 2
    then show ?thesis using x b split(2) by (simp add: x_def)
  next
    case 3
    then show ?thesis using Suc by simp
  qed
qed simp

lemma hexDigit_inject: "m < 16 \<Longrightarrow> n < 16 \<Longrightarrow> hexDigit m = hexDigit n \<longleftrightarrow> m = n"
  by (metis fromHexChar_hexDigit option.inject)

lemma digit_bits:
  assumes "hexEncode (putU64 a) ! j = hexEncode (putU64 b) ! j" and "j < 16" and "r < 4"
  shows "bit a (4 * (15 - j) + r) = bit b (4 * (15 - j) + r)"
proof -
  let ?m = "4 * (15 - j)"
  have pow: "(16 :: nat) ^ (15 - j) = 2 ^ ?m" by (simp add: power_mult)
  have "unat a div 16 ^ (15 - j) mod 16 = unat b div 16 ^ (15 - j) mod 16"
    using assms(1,2) hexDigit_inject by (simp add: putU64_def hexEncode_be_nth)
  then have "take_bit 4 (drop_bit ?m (unat a)) = take_bit 4 (drop_bit ?m (unat b))"
    by (simp add: pow take_bit_eq_mod drop_bit_eq_div)
  then have "bit (take_bit 4 (drop_bit ?m (unat a))) r = bit (take_bit 4 (drop_bit ?m (unat b))) r" by simp
  then have "bit (unat a) (?m + r) = bit (unat b) (?m + r)" 
    using assms(3) by (auto simp: bit_take_bit_iff bit_drop_bit_eq)
  moreover have "?m + r < 64" using assms(3) by simp
  ultimately show ?thesis by (simp add: bit_unsigned_iff)
qed

lemma address_distance:
  assumes "\<forall>j < 16. j \<noteq> i \<longrightarrow> hexEncode (putU64 (encodeRows generatorMatrixRows w 0)) ! j =
      hexEncode (putU64 (encodeRows generatorMatrixRows v 0)) ! j"
  shows "take_bit 45 w = take_bit 45 v"
proof -
  let ?a = "encodeRows generatorMatrixRows w 0" and ?b = "encodeRows generatorMatrixRows v 0"
  define i' where "i' = min i 15"
  define k where "k = 15 - i'"
  define d where "d = drop_bit (4 * k) (?a XOR ?b)"
  have same: "bit ?a n = bit ?b n" if "n < 64" "n div 4 \<noteq> k" for n
  proof -
    have "4 * (15 - (15 - n div 4)) + n mod 4 = n" "15 - n div 4 < 16" "15 - n div 4 \<noteq> i" using that
      by (auto simp: k_def i'_def)
    then show ?thesis using digit_bits [of ?a "15 - n div 4" ?b "n mod 4"] assms by simp
  qed
  have small: "\<forall>n. bit d n \<longrightarrow> n < 4"
  proof (intro allI impI)
    fix n assume "bit d n"
    then have "bit ?a (4 * k + n) \<noteq> bit ?b (4 * k + n)" by (auto simp: d_def bit_simps)
    moreover from this have "4 * k + n < 64" using bit_imp_le_length [of ?a] bit_imp_le_length [of ?b] by auto
    ultimately show "n < 4" using same [of "4 * k + n"] by fastforce
  qed
  have "push_bit (4 * k) d = ?a XOR ?b"
  proof (rule bit_word_eqI)
    fix n assume n: "n < LENGTH(64)"
    show "bit (push_bit (4 * k) d) n \<longleftrightarrow> bit (?a XOR ?b) n"
    proof (cases "4 * k \<le> n")
      case True
      then show ?thesis using n by (simp add: d_def bit_simps)
    next
      case False
      then have "n div 4 \<noteq> k" by auto
      then show ?thesis using n same [of n] False by (simp add: bit_simps)
    qed
  qed
  moreover have "encodeRows checkRows (?a XOR ?b) 0 = 0"
    using encodeRows_xor [of checkRows ?a ?b 0 0] by (simp add: address_checked)
  ultimately have "d = 0" using digit_detected [OF small, of k] by (simp add: k_def)
  with \<open>push_bit (4 * k) d = ?a XOR ?b\<close> have zero: "?a XOR ?b = 0" by simp
  have "?a = (?a XOR ?b) XOR ?b" by (simp add: xor.assoc)
  then have "?a = ?b" unfolding zero by simp
  then show ?thesis by (metis index_recovered)
qed

lemma length_genaddress [simp]: "length (genaddress word) = 18"
  by (simp add: genaddress_def)

text \<open>
  C24. Any two indices that \<^verbatim>\<open>genaddress\<close> may draw give addresses that differ in two hexadecimal digits at least: no two
  indices share an address, and a wrong digit never makes another generated address of one.
\<close>

theorem genaddress_distance:
  assumes "w < maxIndex" and "v < maxIndex" and "w \<noteq> v"
  shows "2 \<le> card {j. j < 18 \<and> genaddress w ! j \<noteq> genaddress v ! j}"
proof (rule ccontr)
  let ?D = "{j. j < 18 \<and> genaddress w ! j \<noteq> genaddress v ! j}"
  assume "\<not> 2 \<le> card ?D"
  then have "card ?D \<le> Suc 0" by simp
  then have one: "\<forall>x \<in> ?D. \<forall>y \<in> ?D. x = y" by (simp add: card_le_Suc0_iff_eq)
  obtain i where i: "?D \<subseteq> {i}" using one by (cases "?D = {}") blast+
  have "hexEncode (putU64 (encodeRows generatorMatrixRows w 0)) ! j = hexEncode (putU64 (encodeRows generatorMatrixRows v 0)) ! j"
    if "j < 16" "j \<noteq> i - 2" for j
  proof -
    have "j + 2 \<noteq> i" using that(2) by auto
    then have "j + 2 \<notin> ?D" using i by blast
    then show ?thesis using that(1) by (simp add: genaddress_def)
  qed
  then have "take_bit 45 w = take_bit 45 v" by (intro address_distance [of "i - 2"]) blast
  moreover have "take_bit 45 u = u" if "u < maxIndex" for u
  proof -
    have "uint u < 2 ^ 45" using that by (simp add: maxIndex_def linearCodeK_def word_less_def)
    then show ?thesis by (simp add: word_uint_eq_iff unsigned_take_bit_eq take_bit_int_eq_self)
  qed
  ultimately show False using assms by metis
qed

theorem genaddress_distance_witness:
  "2 \<le> card {j. j < 18 \<and> genaddress 1 ! j \<noteq> genaddress 2 ! j}"
  by (rule genaddress_distance) (simp_all add: maxIndex_def linearCodeK_def)

subsection \<open>Key conversion at the command line\<close>

lemma hexPrefix_hexEncode: "fromHexChar c = None \<or> fromHexChar d = None \<Longrightarrow> hexPrefix (hexEncode bs @ c # d # cs) = bs"
proof (induction bs)
  case (Cons b bs)
  have "unat b div 16 < 16" using unat_byte_lt [of b] by simp
  with Cons show ?case by simp
qed (auto split: option.splits)

lemma hexPrefix_exact [simp]: "hexPrefix (hexEncode bs) = bs"
proof (induction bs)
  case (Cons b bs)
  have "unat b div 16 < 16" using unat_byte_lt [of b] by simp
  with Cons show ?case by simp
qed simp

text \<open>The conversion of a key of 33 bytes to the format of Flow and back gives the key again.\<close>

lemma formatkey_roundtrip:
  assumes "pubkey_ok S" and "length key = 33" and "ParsePubKey S key = Inr k"
  shows "\<exists>flow. formatkey S [prog, ''from:rosetta'', hexEncode key] = Ok flow \<and>
    formatkey S [prog, ''from:flow'', flow] = Ok (hexEncode key)"
  using converted_key [OF assms] by (auto simp: formatkey_def fatalOnErr_def)

text \<open>
  An undecodable text is not refused: what follows the first bad pair of characters is dropped, and the rest is
  converted.
\<close>

lemma formatkey_drops_rest:
  assumes "fromHexChar c = None \<or> fromHexChar d = None"
  shows "formatkey S [prog, mode, hexEncode key @ c # d # cs] = formatkey S [prog, mode, hexEncode key]"
  using hexPrefix_hexEncode [OF assms] by (simp add: formatkey_def)

end
