(* ===== verification/Spec2Isabelle.thy ===== *)
theory Spec2Isabelle
  imports Prelude Deque Model Crypto IndexDB IndexKeys IndexSpec IndexCorrect IndexReset IndexStore IndexProps Events Reconcile
    Config Convert Process Accounting ProcessProps Bootstrap Syncer SyncerProps Api ApiProps ApiCall ValidateProps Construction
    ConstructionProps Cache Access Shutdown Serve Reconciliation Timeout Tools
begin

text \<open>
  A verification library for the Rosetta server of Flow (the Go module \<^verbatim>\<open>github.com/onflow/rosetta\<close>).

  \<^bold>\<open>The program.\<close> The server answers the Rosetta API for the Flow blockchain. \<^verbatim>\<open>cmd/server\<close> reads a configuration
  (\<^verbatim>\<open>config\<close>), opens the index database (\<^verbatim>\<open>indexdb\<close>, on Badger), starts the indexer (\<^verbatim>\<open>state\<close>) and the HTTP
  server (\<^verbatim>\<open>api\<close>). The indexer asks Access API nodes (\<^verbatim>\<open>access\<close>, through \<^verbatim>\<open>cache\<close>) for blocks, checks block hashes,
  execution results and seals (\<^verbatim>\<open>state/convert.go\<close>, \<^verbatim>\<open>state/process.go\<close>), turns the events of a block into operations
  and appends the block to the index; on the live spork a block waits until its seal is
  seen. The indexer runs in a goroutine beside the server and shares the store with it. The data endpoints answer from the index; a background pass compares its balances with the chain, and a
  mismatch blocks every endpoint. The construction endpoints turn operations into Flow transactions and back, with
  key and signature conversions (\<^verbatim>\<open>crypto\<close>) and transaction hashes (\<^verbatim>\<open>model\<close>).

  \<^bold>\<open>How it is modelled.\<close> A Go function is a HOL function with the state as argument and result; \<open>outcome\<close> of
  \<open>Prelude\<close> has a value, an error, a panic or \<^verbatim>\<open>log.Fatalf\<close>, so that every early return of the code is a branch.
  Integers are words of their width, byte slices lists of bytes, Go maps association lists; the order of a
  \<^verbatim>\<open>range\<close> over a map is an argument, and the theorems hold for every permutation. A mutex that is held for a whole
  method is left out; \<open>Shutdown\<close> models the goroutines of the termination, \<open>Syncer\<close> and \<open>Serve\<close> the
  goroutine that indexes beside the server. An answer of an Access API node is a
  function of the time, that is of the number of calls made so far, so that nodes may fail, lie and change their answers.

  \<^bold>\<open>Theories, the code they model, and what they show.\<close>
  \<^item> \<open>Prelude\<close>: slices, maps, big-endian integers, hexadecimal and decimal text, with round trips.
  \<^item> \<open>Deque\<close> (\<^verbatim>\<open>deque/deque.go\<close>, which no other package imports): the ring buffer with 64-bit indices; the locale \<open>fifo\<close>
    and its interpretation: every run of pushes and pops, growth included, is the run of a list, as long as the elements fit
    into memory; beyond that the allocation panics.
  \<^item> \<open>Model\<close> (\<^verbatim>\<open>model/model.go\<close>, the messages of \<^verbatim>\<open>model/model.pb.go\<close>, \<^verbatim>\<open>fees/fees.go\<close>): transaction and envelope
    hashes; equal hashes mean equal transactions or a SHA3 collision.
  \<^item> \<open>Crypto\<close> (\<^verbatim>\<open>crypto/crypto.go\<close>): signature and key conversions; round trips, ranges, and an index out of range.
  \<^item> \<open>IndexDB\<close> (\<^verbatim>\<open>indexdb/indexdb.go\<close>, all operations); \<open>IndexKeys\<close> (the key encoding is injective and ordered),
    \<open>IndexSpec\<close> (the abstract chain: a genesis block and a list of blocks), \<open>IndexCorrect\<close> and \<open>IndexReset\<close> (each
    operation keeps and reflects \<open>represents\<close>), \<open>IndexStore\<close> (the locale \<open>chain_store\<close> and its interpretation),
    \<open>IndexProps\<close> (refinement of sequences of operations, lookups, overdrafts, 64-bit bounds, enumeration of accounts).
  \<^item> \<open>Config\<close> (\<^verbatim>\<open>config/config.go\<close>, the pool of \<^verbatim>\<open>access.New\<close>): what a validated configuration satisfies, and that
    the search for the spork of a height ends with the right one.
  \<^item> \<open>Convert\<close> (\<^verbatim>\<open>state/convert.go\<close>): hashes of blocks, events and results for the eight versions; a verified block is
    bound to its hash.
  \<^item> \<open>Events\<close>, \<open>Reconcile\<close>, \<open>Accounting\<close> (the handling of a transaction in \<^verbatim>\<open>processBlock\<close>): the operations of a
    transaction move for every account exactly what its events say, and have the shape that the index needs.
  \<^item> \<open>Process\<close>, \<open>ProcessProps\<close> (the rest of \<^verbatim>\<open>state/process.go\<close>): every indexed block is attested by an execution
    result that is sealed, or is that of a self-sealed root, or is accepted within the configured tolerance; it extends the chain by one, survives any finite outage of the nodes, and is the same on the batched and on
    the slow path.
  \<^item> \<open>Bootstrap\<close>, \<open>Syncer\<close>, \<open>SyncerProps\<close> (\<^verbatim>\<open>state/state.go\<close>, \<^verbatim>\<open>state/worker.go\<close>): the root state of the consensus
    follower is authenticated; the indexer as a whole only appends, from an empty or a filled database; the loop over
    the live spork as a state machine with its invariant; the positions of the goroutine between two accesses of the store, at
    each of which the store represents the chain; past blocks are linked by their parents.
  \<^item> \<open>Api\<close>, \<open>ApiCall\<close>, \<open>ApiProps\<close>, \<open>ValidateProps\<close> (\<^verbatim>\<open>api/*.go\<close> but the construction service): the balances and
    operations that the endpoints report reconcile; the first mismatch is final; a pass that succeeds compared all accounts.
  \<^item> \<open>Construction\<close>, \<open>ConstructionProps\<close> (\<^verbatim>\<open>api/construction_service.go\<close>): what is signed is what is submitted; transfers
    and account creations come back from parse as they went into payloads.
  \<^item> \<open>Cache\<close>, \<open>Access\<close> (\<^verbatim>\<open>cache/cache.go\<close>, \<^verbatim>\<open>access/access.go\<close>): the locale \<open>memo\<close> and its interpretation: the cache is a
    memo table over the servers; the methods of the client, rate limits, and the check of pinned certificates.
  \<^item> \<open>Shutdown\<close> (\<^verbatim>\<open>process/process.go\<close>, \<^verbatim>\<open>log.Fatalf\<close>): interleaved termination as a step relation; in every
    schedule the registered handlers run before the process ends.
  \<^item> \<open>Serve\<close> (\<^verbatim>\<open>cmd/server/server.go\<close>, \<^verbatim>\<open>script/script.go\<close>, \<^verbatim>\<open>Server.Run\<close>): the composition; the theorem of this theory
    carries the validated configuration through the indexer to the chain that is served while the indexer runs on.
  \<^item> \<open>Reconciliation\<close> (\<^verbatim>\<open>cmd/reconciliation\<close>): the tool that replays the balance of an account against a Rosetta server; the
    locale \<open>ledger\<close> states what it relies on, the endpoints of \<open>Api\<close> are its interpretation, and so every run over indexed
    blocks ends without a mismatch; the binary search finds the heights from the start on.
  \<^item> \<open>Timeout\<close> (\<^verbatim>\<open>timeout/timeout.go\<close>): the extendable timeout with explicit time; reading and
    writing take time, durations are signed 64-bit; copying ends, is complete, and keeps the context alive as long as a read
    and two writes take less than the extension.
  \<^item> \<open>Tools\<close> (\<^verbatim>\<open>cmd/genaddress\<close>, \<^verbatim>\<open>formatkey\<close>, \<^verbatim>\<open>formatsig\<close>, \<^verbatim>\<open>sign\<close>, \<^verbatim>\<open>verifysig\<close>, \<^verbatim>\<open>genkey\<close>, \<^verbatim>\<open>gencontractkey\<close>): generated
    addresses are a linear code in which two addresses differ in two digits at least; key conversion at the command line.

  \<^bold>\<open>Fuel.\<close> The retry loops of the indexer (\<open>fetch\<close>, \<open>executionResult\<close>, \<open>attempts\<close>, \<open>indexLoop\<close>, \<open>parentLoop\<close>, \<open>findRootBlock\<close>,
  \<open>liveLoop\<close>, \<open>indexBlocks\<close>), of the validation and of \<open>download\<close> run until a node answers, and so have fuel with the
  error \<open>OutOfFuel\<close>. Safety theorems hold for every fuel; \<open>process_block_survives_outage\<close> and \<open>download_returns\<close> say how
  much is enough: one more than the number of failed attempts. \<open>SporkFor\<close> needs none on a validated configuration. The
  copying loops of \<open>Timeout\<close> have fuel too, and \<open>copy_complete\<close> says that some is enough for a reader that comes to an end.

  \<^bold>\<open>Parameters and their laws.\<close> Badger and the protobuf codec (\<open>env\<close> with \<open>env_ok\<close>), the curve (\<open>scalar_ok\<close>,
  \<open>pubkey_ok\<close>), the identifiers of flow-go, SHA3, RLP and BLAKE3 (encodings that are injective where a theorem says so, no
  collision freedom: a theorem that needs it has the collision as an alternative or its absence as a hypothesis), the codec of the
  construction service (\<open>codecs_ok\<close>), Cadence values, the gRPC client, X.509 and libp2p, OpenPGP, HTTP and the file system. Each
  law has a witness on a concrete instance.

  \<^bold>\<open>Not modelled, and why.\<close> Logging, tracing and metrics (output only; \<^verbatim>\<open>log\<close> but \<^verbatim>\<open>Fatalf\<close>, \<^verbatim>\<open>trace\<close>); sleeping and
  deadlines, which only turn a call into a failed one; the generated accessors of \<^verbatim>\<open>model/model.pb.go\<close>; the JSON decoding of the configuration file; the HTTP router of the Rosetta SDK; the Cadence
  scripts themselves, which the nodes execute; \<^verbatim>\<open>cmd/tipheight\<close>, \<^verbatim>\<open>cmd/txinfo\<close> and \<^verbatim>\<open>cmd/corecontracts\<close>, which print what a
  node answers.
\<close>

section \<open>The server as a whole\<close>

text \<open>
  C3. From the command line to the endpoints, with the indexer running beside the server. \<^verbatim>\<open>main\<close> starts an
  online server, on a database that is empty or represents a chain, with the purge of proxy accounts off and access
  nodes that are \<open>honest\<close> (a request by height is answered by a block of that height, identifiers name heights, an account
  is created once). Then the server shares the store with the indexer, wherever the goroutine of the indexer is when the
  server reads it. Either the database was empty and no genesis block was found before the context was
  cancelled: the server then has no genesis block, and there is no goroutine. Or the server has a chain: the one of the
  database, after the cut that \<^verbatim>\<open>resync_from\<close> asks for, with blocks appended; on an empty database one that starts at
  the root block of the first configured spork. And after any number of further turns of the goroutine the server has
  this chain with blocks appended. The conditions on the sporks and the originators that the indexer needs come
  from the validation of the configuration.
\<close>

theorem main_serves_chain:
  assumes "main F P n args t = Ok (Some (srv, r))" and "\<not> svOffline srv" and "\<not> chPurgeProxyAccounts (svChain srv)"
    and "honest F (pgWorld P) (svChain srv) idh"
    and "kvOpen (wEnv (pgWorld P)) (indexPath P (svChain srv)) = Inr d" and "opens (wEnv (pgWorld P)) d idh st"
  shows "(\<exists>s. runIndexer F P n (svChain srv) \<lparr>db = d, genesis = None, latest = None\<rparr> t = Ok (svIndexer srv, s, r) \<and>
       db (svIndex srv) = db s) \<and>
    ((st = None \<and> svGenesis srv = None \<and> r = None) \<or>
     (\<exists>g bs. continues (svChain srv) st g bs \<and> has_chain srv g bs \<and>
        (\<forall>p k q. r = Some p \<and> indexTurns k F (pgWorld P) (svChain srv) p = Ok q \<longrightarrow>
           (\<exists>bs'. has_chain (serving srv q) g (bs @ bs')))))"
proof -
  let ?W = "pgWorld P" and ?s0 = "\<lparr>db = d, genesis = None, latest = None\<rparr>"
  from assms(1,2) obtain c i s where init: "Init (pgSys P) c = Ok (svChain srv)" "chMode (svChain srv) \<noteq> ''offline''"
      and run: "runIndexer F P n (svChain srv) ?s0 t = Ok (i, s, r)"
      and serve: "RunServer (pgAsserter P) (pgScripts P) (newServer P (svChain srv) i s) = Ok srv"
    using assms(5) by (rule main_online) blast
  note served = RunServer_serves [OF serve, unfolded newServer_def, simplified]
  note tame = honest_tame [OF init assms(4)]
  have "runIndexer F P n (svChain srv) ?s0 t = Ok (svIndexer srv, s, r) \<and> db (svIndex srv) = db s"
    using run served(4) Genesis_db [OF served(5)] by simp
  moreover from runIndexer_found [OF tame Init_originators [OF init] assms(3,6) run]
  have "(st = None \<and> svGenesis srv = None \<and> r = None) \<or>
     (\<exists>g bs. continues (svChain srv) st g bs \<and> has_chain srv g bs \<and>
        (\<forall>p k q. r = Some p \<and> indexTurns k F ?W (svChain srv) p = Ok q \<longrightarrow> (\<exists>bs'. has_chain (serving srv q) g (bs @ bs'))))"
  proof
    assume e: "st = None \<and> r = None \<and> s = ?s0"
    with assms(6) have "Genesis (wEnv ?W) s = (s, Ok None)" by (auto simp: opens_def Genesis_empty)
    with e served(5) show ?thesis by simp
  next
    assume "\<exists>g bs. continues (svChain srv) st g bs \<and> found ?W (svChain srv) idh g bs s r"
    then obtain g bs where gb: "continues (svChain srv) st g bs" "found ?W (svChain srv) idh g bs s r" by blast
    then obtain l where "represents (wEnv ?W) s g l bs" by (auto simp: found_def)
    with served_chain [OF _ _ serve] init(2) have has: "has_chain srv g bs" by (simp add: newServer_def)
    have "\<exists>bs'. has_chain (serving srv q) g (bs @ bs')" if "r = Some p" "indexTurns k F ?W (svChain srv) p = Ok q" for p k q
      using serving_chain [OF tame _ that(2) has served(1)] gb(2) that(1) by simp
    with gb(1) has show ?thesis by blast
  qed
  ultimately show ?thesis by blast
qed

theorem main_serves_chain_witness:
  "\<exists>srv p g bs. main 2 sampleProgram 0 [''server'', ''config.json''] 1 = Ok (Some (srv, Some p)) \<and>
     continues sampleChain None g bs \<and> has_chain srv g bs \<and> (\<exists>bs'. has_chain (serving srv p) g (bs @ bs'))"
proof -
  from sample_main obtain srv p where m: "main 2 sampleProgram 0 [''server'', ''config.json''] 1 = Ok (Some (srv, Some p))"
      and srv: "svChain srv = sampleChain" by blast
  have c: "chMode sampleChain \<noteq> ''offline''" "\<not> chPurgeProxyAccounts sampleChain" by code_simp+
  have w: "pgWorld sampleProgram = startWorld" "wEnv startWorld = sampleEnv"
    by (simp_all add: sampleProgram_def startWorld_def sampleWorld_def)
  have off: "\<not> svOffline srv" using main_mode [OF m] srv c(1) by simp
  have d: "kvOpen (wEnv (pgWorld sampleProgram)) (indexPath sampleProgram (svChain srv)) = Inr []"
      "opens (wEnv (pgWorld sampleProgram)) [] startIds None"
    using sampleEnv_ok by (simp_all add: w opens_def) (simp_all add: sampleEnv_def alistView_def)
  have "honest 2 (pgWorld sampleProgram) (svChain srv) startIds" "\<not> chPurgeProxyAccounts (svChain srv)"
    using sample_honest c(2) by (simp_all add: w srv)
  from main_serves_chain [OF m off this(2,1) d] obtain g bs where
      g: "continues (svChain srv) None g bs" "has_chain srv g bs"
         "\<forall>k q. indexTurns k 2 (pgWorld sampleProgram) (svChain srv) p = Ok q \<longrightarrow> (\<exists>bs'. has_chain (serving srv q) g (bs @ bs'))"
    by blast
  from g(3) [rule_format, of 0 p] g(1,2) m srv show ?thesis by auto
qed

end
